(* ===== verification/Vmac_Wire.thy ===== *)
theory Vmac_Wire
  imports Vmac_Prelude
begin

text \<open>
  What \<^verbatim>\<open>kernel/core/vmac.h\<close> and \<^verbatim>\<open>userspace/vmac-usrsp.h\<close> fix: the frame types, the packed
  headers of V-MAC frames, the control block of the netlink messages, and the kernel's socket
  buffer with the operations the V-MAC code applies to it. Reading a header past the bytes of the
  frame is the fault \<^const>\<open>Read_past_end\<close>; the code itself never compares the length.
\<close>

section \<open>Constants\<close>

definition VMAC_HDR_INTEREST :: u8 where "VMAC_HDR_INTEREST = 0x00"
definition VMAC_HDR_DATA :: u8 where "VMAC_HDR_DATA = 0x01"
definition VMAC_HDR_DACK :: u8 where "VMAC_HDR_DACK = 0x02"
definition VMAC_HDR_ANOUNCMENT :: u8 where "VMAC_HDR_ANOUNCMENT = 0x03"
definition VMAC_HDR_INJECTED :: u8 where "VMAC_HDR_INJECTED = 0x05"
definition V_MAC_OVERHEAR :: u8 where "V_MAC_OVERHEAR = 0x06"

named_theorems frame_types

lemmas frame_type_defs [frame_types] =
  VMAC_HDR_INTEREST_def VMAC_HDR_DATA_def VMAC_HDR_DACK_def VMAC_HDR_ANOUNCMENT_def
  VMAC_HDR_INJECTED_def V_MAC_OVERHEAR_def

definition WINDOW :: nat where "WINDOW = 700"
definition WINDOW_TX :: nat where "WINDOW_TX = 500"

section \<open>Headers of V-MAC frames\<close>

record vmac_hdr =
  vh_enc :: u64
  vh_type :: u8

record vmac_DACK =
  dk_holes :: u16
  dk_round :: u16

record vmac_hole =
  ho_le :: u16
  ho_re :: u16

text \<open>The in-memory images the code copies with \<open>memcpy\<close> (the structures are packed).\<close>

definition vmac_hdr_bytes :: "vmac_hdr \<Rightarrow> bytes" where
  "vmac_hdr_bytes h = le_bytes 8 (vh_enc h) @ [vh_type h]"

definition vmac_data_bytes :: "u16 \<Rightarrow> bytes" where
  "vmac_data_bytes seq = le_bytes 2 seq"

definition vmac_DACK_bytes :: "vmac_DACK \<Rightarrow> bytes" where
  "vmac_DACK_bytes d = le_bytes 2 (dk_holes d) @ le_bytes 2 (dk_round d)"

definition vmac_hole_bytes :: "vmac_hole \<Rightarrow> bytes" where
  "vmac_hole_bytes h = le_bytes 2 (ho_le h) @ le_bytes 2 (ho_re h)"

text \<open>Reading a header through a pointer to the frame's data.\<close>

definition read_vmac_hdr :: "bytes \<Rightarrow> vmac_hdr res" where
  "read_vmac_hdr bs = (if length bs < 9 then Inl Read_past_end
     else Inr \<lparr>vh_enc = of_le_bytes (take 8 bs), vh_type = bs ! 8\<rparr>)"

definition read_vmac_data :: "bytes \<Rightarrow> u16 res" where
  "read_vmac_data bs = (if length bs < 2 then Inl Read_past_end
     else Inr (of_le_bytes (take 2 bs)))"

definition read_vmac_DACK :: "bytes \<Rightarrow> vmac_DACK res" where
  "read_vmac_DACK bs = (if length bs < 4 then Inl Read_past_end
     else Inr \<lparr>dk_holes = of_le_bytes (take 2 bs), dk_round = of_le_bytes (take 2 (drop 2 bs))\<rparr>)"

definition read_vmac_hole :: "bytes \<Rightarrow> vmac_hole res" where
  "read_vmac_hole bs = (if length bs < 4 then Inl Read_past_end
     else Inr \<lparr>ho_le = of_le_bytes (take 2 bs), ho_re = of_le_bytes (take 2 (drop 2 bs))\<rparr>)"

lemma vmac_header_lengths [simp, bytes_simps]:
  "length (vmac_hdr_bytes h) = 9" "length (vmac_data_bytes s) = 2"
  "length (vmac_DACK_bytes d) = 4" "length (vmac_hole_bytes o') = 4"
  by (simp_all add: vmac_hdr_bytes_def vmac_data_bytes_def vmac_DACK_bytes_def vmac_hole_bytes_def)

lemma read_vmac_hdr_bytes [simp]: "read_vmac_hdr (vmac_hdr_bytes h @ bs) = Inr h"
  by (simp add: read_vmac_hdr_def vmac_hdr_bytes_def nth_append bytes_simps)

lemma read_vmac_data_bytes [simp]: "read_vmac_data (vmac_data_bytes s @ bs) = Inr s"
  by (simp add: read_vmac_data_def vmac_data_bytes_def bytes_simps)

lemma read_vmac_DACK_bytes [simp]: "read_vmac_DACK (vmac_DACK_bytes d @ bs) = Inr d"
  by (simp add: read_vmac_DACK_def vmac_DACK_bytes_def bytes_simps)

lemma read_vmac_hole_bytes [simp]: "read_vmac_hole (vmac_hole_bytes h @ bs) = Inr h"
  by (simp add: read_vmac_hole_def vmac_hole_bytes_def bytes_simps)

text \<open>The reader accepts nothing but an image: the other half of the round trip.\<close>

lemma read_vmac_hdr_Inr:
  "read_vmac_hdr bs = Inr h \<Longrightarrow> bs = vmac_hdr_bytes h @ drop 9 bs"
proof -
  assume "read_vmac_hdr bs = Inr h"
  then have n: "9 \<le> length bs" and h: "h = \<lparr>vh_enc = of_le_bytes (take 8 bs), vh_type = bs ! 8\<rparr>"
    by (auto simp: read_vmac_hdr_def split: if_splits)
  have "bs = take 8 bs @ bs ! 8 # drop 9 bs"
    using n id_take_nth_drop [of 8 bs] by simp
  then show ?thesis
    using n by (simp add: h vmac_hdr_bytes_def bytes_simps)
qed

section \<open>The control block between user space and kernel\<close>

record control =
  ct_type :: u8
  ct_enc :: u64
  ct_seq :: u16
  ct_rate :: u8
  ct_bw :: u8
  ct_sgi :: u8
  ct_stream :: u8

definition control_bytes :: "control \<Rightarrow> bytes" where
  "control_bytes c = [ct_type c] @ le_bytes 8 (ct_enc c) @ le_bytes 2 (ct_seq c) @
     [ct_rate c, ct_bw c, ct_sgi c, ct_stream c]"

definition read_control :: "bytes \<Rightarrow> control res" where
  "read_control bs = (if length bs < 15 then Inl Read_past_end
     else Inr \<lparr>ct_type = bs ! 0, ct_enc = of_le_bytes (take 8 (drop 1 bs)),
       ct_seq = of_le_bytes (take 2 (drop 9 bs)), ct_rate = bs ! 11, ct_bw = bs ! 12,
       ct_sgi = bs ! 13, ct_stream = bs ! 14\<rparr>)"

lemma length_control_bytes [simp, bytes_simps]: "length (control_bytes c) = 15"
  by (simp add: control_bytes_def)

lemma read_control_bytes [simp]: "read_control (control_bytes c @ bs) = Inr c"
  by (simp add: read_control_def control_bytes_def nth_append bytes_simps)

section \<open>The 802.11 header\<close>

record ieee80211_hdr =
  wh_frame_control :: u16
  wh_duration_id :: u16
  wh_addr1 :: bytes
  wh_addr2 :: bytes
  wh_addr3 :: bytes
  wh_seq_ctrl :: u16
  wh_addr4 :: bytes

definition ieee80211_hdr_bytes :: "ieee80211_hdr \<Rightarrow> bytes" where
  "ieee80211_hdr_bytes h = le_bytes 2 (wh_frame_control h) @ le_bytes 2 (wh_duration_id h) @
     wh_addr1 h @ wh_addr2 h @ wh_addr3 h @ le_bytes 2 (wh_seq_ctrl h) @ wh_addr4 h"

definition wf_ieee80211_hdr :: "ieee80211_hdr \<Rightarrow> bool" where
  "wf_ieee80211_hdr h \<longleftrightarrow> length (wh_addr1 h) = 6 \<and> length (wh_addr2 h) = 6 \<and>
     length (wh_addr3 h) = 6 \<and> length (wh_addr4 h) = 6"

lemma length_ieee80211_hdr_bytes [simp, bytes_simps]:
  "wf_ieee80211_hdr h \<Longrightarrow> length (ieee80211_hdr_bytes h) = 30"
  by (simp add: ieee80211_hdr_bytes_def wf_ieee80211_hdr_def)

section \<open>Socket buffers\<close>

text \<open>
  The kernel's \<open>sk_buff\<close> as far as the code sees it: its data, and the room in front of and
  behind the data. \<open>skb_id\<close> names the allocation, so that giving the same buffer back twice, or
  never, can be told from giving two buffers back.
\<close>

record sk_buff =
  skb_id :: nat
  headroom :: nat
  skb_data :: bytes
  tailroom :: nat

text \<open>
  \<open>memcpy(skb_push(skb, n), p, n)\<close> and \<open>memcpy(skb_put(skb, n), p, n)\<close>; both kernel functions
  panic when the room does not suffice. \<open>skb_pull\<close> leaves the buffer alone when asked for more
  than there is (and returns a null pointer, which the code ignores everywhere).
\<close>

definition skb_push :: "sk_buff \<Rightarrow> bytes \<Rightarrow> sk_buff res" where
  "skb_push s bs = (if length bs \<le> headroom s
     then Inr (s\<lparr>headroom := headroom s - length bs, skb_data := bs @ skb_data s\<rparr>)
     else Inl Skb_under_panic)"

definition skb_put :: "sk_buff \<Rightarrow> bytes \<Rightarrow> sk_buff res" where
  "skb_put s bs = (if length bs \<le> tailroom s
     then Inr (s\<lparr>tailroom := tailroom s - length bs, skb_data := skb_data s @ bs\<rparr>)
     else Inl Skb_over_panic)"

definition skb_pull :: "sk_buff \<Rightarrow> nat \<Rightarrow> sk_buff" where
  "skb_pull s n = (if n \<le> length (skb_data s)
     then s\<lparr>headroom := headroom s + n, skb_data := drop n (skb_data s)\<rparr> else s)"

lemma skb_push_Inr [simp]:
  "length bs \<le> headroom s \<Longrightarrow>
   skb_push s bs = Inr (s\<lparr>headroom := headroom s - length bs, skb_data := bs @ skb_data s\<rparr>)"
  by (simp add: skb_push_def)

lemma skb_put_Inr [simp]:
  "length bs \<le> tailroom s \<Longrightarrow>
   skb_put s bs = Inr (s\<lparr>tailroom := tailroom s - length bs, skb_data := skb_data s @ bs\<rparr>)"
  by (simp add: skb_put_def)

lemma skb_push_pull [simp]:
  "skb_push s bs = Inr s' \<Longrightarrow> n = length bs \<Longrightarrow> skb_pull s' n = s"
  by (auto simp: skb_push_def skb_pull_def split: if_splits)

lemma skb_push_eq_Inr:
  "skb_push s bs = Inr s' \<longleftrightarrow> length bs \<le> headroom s \<and>
     s' = s\<lparr>headroom := headroom s - length bs, skb_data := bs @ skb_data s\<rparr>"
  by (auto simp: skb_push_def)

lemma skb_id_skb_pull [simp]: "skb_id (skb_pull s n) = skb_id s"
  by (simp add: skb_pull_def)

end
