(* ===== verification/Vmac_State.thy ===== *)
theory Vmac_State
  imports Vmac_Wire
begin

text \<open>
  The state of the V-MAC kernel code: the entries the two encoding tables hold
  (\<^verbatim>\<open>struct encoding_tx\<close>, \<^verbatim>\<open>struct encoding_rx\<close>, \<^verbatim>\<open>struct dack_info\<close> and
  \<^verbatim>\<open>struct enc_cleanup\<close> of \<^verbatim>\<open>kernel/core/vmac.h\<close>), the globals of \<^verbatim>\<open>kernel/core/rtw_xmit.c\<close>, what
  the code hands to the kernel and to the hardware, in order, and what it is given by them.
\<close>

section \<open>Entries of the encoding tables\<close>

datatype clean_type = CLEAN_ENC_TX | CLEAN_ENC_RX

record enc_cleanup =
  cl_enc :: u64
  cl_type :: clean_type

text \<open>
  The locks of the structures are not part of the model: an operation runs to its end before the
  next one starts, and where the code only tries a lock the outcome is an argument. A timer is the
  time it is set to, if any. \<open>send\<close> is a C \<open>int\<close> the code uses as a flag.
\<close>

record dack_info =
  di_send :: int
  di_dack_counter :: u16
  di_round :: u8
  di_dacksheard :: u8
  di_dack :: "sk_buff option"

record encoding_tx =
  tx_key :: u64
  tx_clean :: enc_cleanup
  retransmission_buffer :: "sk_buff option list"
  tx_timer :: "u8 list"
  tx_seq :: u16
  tx_offset :: u16
  retrxout :: u64
  prevtime :: u64
  prevround :: u16
  tx_enc_timeout :: "u64 option"
  dackcounter :: u16
  framecount :: u16
  round_inc :: "u8 list"
  round_dec :: "u8 list"

text \<open>
  \<open>rx_pad\<close> is the last half-word of the padding of \<open>clean\<close>, the two bytes in front of
  \<open>window\<close>: \<open>prepDACK\<close> reads \<open>window[-1]\<close>.
\<close>

record encoding_rx =
  rx_key :: u64
  rx_clean :: enc_cleanup
  rx_pad :: u16
  rx_window :: "u16 list"
  rx_alpha :: u32
  firstFrame :: u32
  SecondFrame :: u32
  lastin :: u16
  latest :: u16
  dac_info :: dack_info
  rx_round :: u16
  rx_offset :: u16
  dacksent :: u16
  rx_DACK :: "sk_buff option"
  rx_enc_timeout :: "u64 option"
  dack_timer :: "u64 option"

text \<open>The arrays have the lengths the structures declare.\<close>

definition wf_tx :: "encoding_tx \<Rightarrow> bool" where
  "wf_tx e \<longleftrightarrow> length (retransmission_buffer e) = WINDOW_TX \<and> length (tx_timer e) = WINDOW_TX"

definition wf_rx :: "encoding_rx \<Rightarrow> bool" where
  "wf_rx e \<longleftrightarrow> length (rx_window e) = WINDOW"

section \<open>What leaves the code\<close>

text \<open>The attributes \<open>xmit_mo\<close> leaves on a frame it hands to the driver.\<close>

record pkt_attrib =
  pa_hdrlen :: u16
  pa_nr_frags :: u8
  pa_priority :: u8
  pa_inject :: u8
  pa_mac_id :: u8
  pa_qsel :: u8
  pa_pktlen :: u32
  pa_last_txcmdsz :: u32
  pa_raid :: u8
  pa_rate :: u8
  pa_encrypt :: u8
  pa_bswenc :: u8
  pa_qos_en :: u8
  pa_ht_en :: u8
  pa_bwmode :: u8
  pa_ch_offset :: u8
  pa_sgi :: u8
  pa_ldpc :: u8
  pa_stbc :: u8
  pa_seqnum :: u16
  pa_retry_ctrl :: u8
  pa_mbssid :: u8
  pa_hw_ssn_sel :: u8

record nl_message =
  nm_skb :: nat
  nm_pid :: int
  nm_len :: u32
  nm_control :: control
  nm_payload :: bytes

datatype effect =
    Dump_mgntframe pkt_attrib bytes
  | Nlmsg_unicast nl_message
  | Kfree_skb nat
  | Netlink_release
  | Free_recvframe nat

record vmac =
  rx_enc :: "5 word \<Rightarrow> encoding_rx list"
  tx_enc :: "5 word \<Rightarrow> encoding_tx list"
  pidt :: int
  configured :: bool
  mgnt_seq :: u16
  tx_pkts :: u64
  tx_bytes :: u64
  next_skb :: nat
  effects :: "effect list"

definition emit :: "effect \<Rightarrow> vmac \<Rightarrow> vmac" where
  "emit e st = st\<lparr>effects := effects st @ [e]\<rparr>"

lemma emit_simps [simp]:
  "rx_enc (emit e st) = rx_enc st" "tx_enc (emit e st) = tx_enc st" "pidt (emit e st) = pidt st"
  "configured (emit e st) = configured st" "mgnt_seq (emit e st) = mgnt_seq st"
  "next_skb (emit e st) = next_skb st" "effects (emit e st) = effects st @ [e]"
  "tx_pkts (emit e st) = tx_pkts st" "tx_bytes (emit e st) = tx_bytes st"
  by (simp_all add: emit_def)

section \<open>What the code is given\<close>

text \<open>
  The kernel around the code, as far as one operation sees it:
  \<^item> \<open>hash\<close> is the kernel's \<open>hash_min(_, 5)\<close> on 64-bit keys, the bucket of an encoding;
  \<^item> \<open>jiffies\<close> and \<open>msecs_to_jiffies\<close>, the clock;
  \<^item> \<open>vmalloc_rx\<close>, \<open>vmalloc_tx\<close>: what \<open>vmalloc\<close> returns, \<open>None\<close> for a null pointer, otherwise
    memory with whatever it held before;
  \<^item> \<open>alloc_ok n\<close>: whether the allocation of the socket buffer with the identity \<open>n\<close> succeeds;
  \<^item> \<open>NET_SKB_PAD\<close>: the headroom \<open>dev_alloc_skb\<close> reserves;
  \<^item> \<open>xframe_ok i\<close>: whether the \<open>i\<close>-th call of \<open>alloc_mgtxmitframe\<close> succeeds, and
    \<open>xbuf_room\<close> the bytes of its buffer behind the transmit descriptor;
  \<^item> \<open>hw_ssn_seq_no\<close> and \<open>vht_raid\<close>: fields of the adapter \<open>update_monitor_frame_attrib\<close> reads
    (the rate adaptive id of the chip's antenna configuration);
  \<^item> \<open>stack_hdr\<close>, \<open>stack_ctl\<close>: what the uninitialised local variables hold, a header and a
    control block; \<open>stack_seq_addr\<close>: the low sixteen bits of the address of \<open>rxc.seq\<close>;
  \<^item> \<open>dacklok_free\<close>: whether \<open>spin_trylock\<close> of the entry's lock succeeds;
  \<^item> \<open>random_long\<close>: what \<open>get_random_bytes\<close> stores into a \<open>long\<close>.
\<close>

record kenv =
  hash :: "u64 \<Rightarrow> 5 word"
  jiffies :: u64
  msecs_to_jiffies :: "nat \<Rightarrow> u64"
  vmalloc_rx :: "encoding_rx option"
  vmalloc_tx :: "encoding_tx option"
  alloc_ok :: "nat \<Rightarrow> bool"
  NET_SKB_PAD :: nat
  xframe_ok :: "nat \<Rightarrow> bool"
  xbuf_room :: nat
  hw_ssn_seq_no :: u8
  vht_raid :: u8
  stack_hdr :: ieee80211_hdr
  stack_ctl :: control
  stack_seq_addr :: u16
  dacklok_free :: bool
  random_long :: int

text \<open>
  \<open>skb_copy\<close> and \<open>dev_alloc_skb\<close>: the copy has the same data and headroom; a new buffer is empty,
  with the headroom the kernel always reserves and behind it the room that was asked for (the
  kernel may round that up; the model gives no more than was promised).
\<close>

definition skb_copy :: "kenv \<Rightarrow> sk_buff \<Rightarrow> vmac \<Rightarrow> sk_buff option \<times> vmac" where
  "skb_copy env s st =
     (if alloc_ok env (next_skb st) then Some (s\<lparr>skb_id := next_skb st\<rparr>) else None,
      st\<lparr>next_skb := Suc (next_skb st)\<rparr>)"

definition dev_alloc_skb :: "kenv \<Rightarrow> nat \<Rightarrow> vmac \<Rightarrow> sk_buff option \<times> vmac" where
  "dev_alloc_skb env n st =
     (if alloc_ok env (next_skb st)
      then Some \<lparr>skb_id = next_skb st, headroom = NET_SKB_PAD env, skb_data = [], tailroom = n\<rparr>
      else None,
      st\<lparr>next_skb := Suc (next_skb st)\<rparr>)"

definition skb_reserve :: "sk_buff \<Rightarrow> nat \<Rightarrow> sk_buff" where
  "skb_reserve s n = s\<lparr>headroom := headroom s + n, tailroom := tailroom s - n\<rparr>"

definition kfree_skb :: "sk_buff \<Rightarrow> vmac \<Rightarrow> vmac" where
  "kfree_skb s st = emit (Kfree_skb (skb_id s)) st"

text \<open>\<open>kfree_skb\<close> of a null pointer does nothing.\<close>

definition kfree_skb_opt :: "sk_buff option \<Rightarrow> vmac \<Rightarrow> vmac" where
  "kfree_skb_opt p st = (case p of None \<Rightarrow> st | Some s \<Rightarrow> kfree_skb s st)"

lemma kfree_skb_simps [simp]:
  "rx_enc (kfree_skb s st) = rx_enc st" "tx_enc (kfree_skb s st) = tx_enc st"
  "next_skb (kfree_skb s st) = next_skb st" "pidt (kfree_skb s st) = pidt st"
  "mgnt_seq (kfree_skb s st) = mgnt_seq st"
  "effects (kfree_skb s st) = effects st @ [Kfree_skb (skb_id s)]"
  by (simp_all add: kfree_skb_def)

lemma kfree_skb_opt_simps [simp]:
  "rx_enc (kfree_skb_opt p st) = rx_enc st" "tx_enc (kfree_skb_opt p st) = tx_enc st"
  "next_skb (kfree_skb_opt p st) = next_skb st" "pidt (kfree_skb_opt p st) = pidt st"
  "mgnt_seq (kfree_skb_opt p st) = mgnt_seq st"
  "effects (kfree_skb_opt p st) =
     effects st @ (case p of None \<Rightarrow> [] | Some s \<Rightarrow> [Kfree_skb (skb_id s)])"
  by (simp_all add: kfree_skb_opt_def split: option.splits)

lemma skb_copy_simps:
  "skb_copy env s st = (p, st') \<Longrightarrow> rx_enc st' = rx_enc st"
  "skb_copy env s st = (p, st') \<Longrightarrow> tx_enc st' = tx_enc st"
  "skb_copy env s st = (p, st') \<Longrightarrow> effects st' = effects st"
  by (auto simp: skb_copy_def)

end
