(* ===== verification/Enc_Table.thy ===== *)
theory Enc_Table
  imports Vmac_State
begin

text \<open>
  The two encoding tables of \<^verbatim>\<open>kernel/core/rtw_xmit.c\<close>, hash tables of 32 buckets built with the
  kernel's \<open>hashtable.h\<close>. \<open>hash_add\<close> puts an entry at the head of its bucket;
  \<open>hash_for_each_possible\<close> visits the whole bucket in order, and the code keeps the last entry it
  visits \<^emph>\<open>without comparing the key\<close>. The locale \<open>encoding_table\<close> states what the code that uses
  a table may rely on; it is interpreted for both tables.
\<close>

section \<open>The code\<close>

definition find_tx :: "kenv \<Rightarrow> vmac \<Rightarrow> u64 \<Rightarrow> encoding_tx option" where
  "find_tx env st enc = foldl (\<lambda>ret vmact. Some vmact) None (tx_enc st (hash env enc))"

definition find_rx :: "kenv \<Rightarrow> vmac \<Rightarrow> u64 \<Rightarrow> encoding_rx option" where
  "find_rx env st enc = foldl (\<lambda>ret vmacr. Some vmacr) None (rx_enc st (hash env enc))"

definition add_tx :: "kenv \<Rightarrow> vmac \<Rightarrow> encoding_tx \<Rightarrow> vmac" where
  "add_tx env st e =
     st\<lparr>tx_enc := (tx_enc st)(hash env (tx_key e) := e # tx_enc st (hash env (tx_key e)))\<rparr>"

definition add_rx :: "kenv \<Rightarrow> vmac \<Rightarrow> encoding_rx \<Rightarrow> vmac" where
  "add_rx env st e =
     st\<lparr>rx_enc := (rx_enc st)(hash env (rx_key e) := e # rx_enc st (hash env (rx_key e)))\<rparr>"

text \<open>
  Writing through the pointer \<open>find_tx\<close> or \<open>find_rx\<close> returned for \<open>enc\<close>, and \<open>hash_del\<close> of that
  entry: both concern the last entry of the bucket of \<open>enc\<close>.
\<close>

definition put_tx :: "kenv \<Rightarrow> vmac \<Rightarrow> u64 \<Rightarrow> encoding_tx \<Rightarrow> vmac" where
  "put_tx env st enc e =
     st\<lparr>tx_enc := (tx_enc st)(hash env enc := butlast (tx_enc st (hash env enc)) @ [e])\<rparr>"

definition put_rx :: "kenv \<Rightarrow> vmac \<Rightarrow> u64 \<Rightarrow> encoding_rx \<Rightarrow> vmac" where
  "put_rx env st enc e =
     st\<lparr>rx_enc := (rx_enc st)(hash env enc := butlast (rx_enc st (hash env enc)) @ [e])\<rparr>"

definition del_tx :: "kenv \<Rightarrow> vmac \<Rightarrow> u64 \<Rightarrow> vmac" where
  "del_tx env st enc = st\<lparr>tx_enc := (tx_enc st)(hash env enc := butlast (tx_enc st (hash env enc)))\<rparr>"

definition del_rx :: "kenv \<Rightarrow> vmac \<Rightarrow> u64 \<Rightarrow> vmac" where
  "del_rx env st enc = st\<lparr>rx_enc := (rx_enc st)(hash env enc := butlast (rx_enc st (hash env enc)))\<rparr>"

section \<open>The interface\<close>

text \<open>
  \<open>bucket t b\<close> lists the entries of a bucket. The laws are the ones of \<open>hashtable.h\<close> and of the
  two search loops; the lemmas say what a client gets from them.
\<close>

locale encoding_table =
  fixes key :: "'e \<Rightarrow> u64"
    and hsh :: "u64 \<Rightarrow> 'h"
    and bucket :: "'t \<Rightarrow> 'h \<Rightarrow> 'e list"
    and find :: "'t \<Rightarrow> u64 \<Rightarrow> 'e option"
    and add :: "'t \<Rightarrow> 'e \<Rightarrow> 't"
    and put :: "'t \<Rightarrow> u64 \<Rightarrow> 'e \<Rightarrow> 't"
    and del :: "'t \<Rightarrow> u64 \<Rightarrow> 't"
  assumes find_bucket: "find t k = (if bucket t (hsh k) = [] then None else Some (last (bucket t (hsh k))))"
    and bucket_add: "bucket (add t e) = (bucket t)(hsh (key e) := e # bucket t (hsh (key e)))"
    and bucket_put: "bucket (put t k e) = (bucket t)(hsh k := butlast (bucket t (hsh k)) @ [e])"
    and bucket_del: "bucket (del t k) = (bucket t)(hsh k := butlast (bucket t (hsh k)))"
begin

lemmas table_laws = find_bucket bucket_add bucket_put bucket_del

lemma find_None: "find t k = None \<longleftrightarrow> bucket t (hsh k) = []"
  by (simp add: find_bucket)

lemma find_same_bucket: "hsh k = hsh k' \<Longrightarrow> find t k = find t k'"
  by (simp add: find_bucket)

lemma find_add_new: "find t k = None \<Longrightarrow> hsh (key e) = hsh k \<Longrightarrow> find (add t e) k = Some e"
  by (simp add: find_bucket bucket_add split: if_splits)

lemma find_add_old: "find t k = Some e' \<Longrightarrow> find (add t e) k = Some e'"
  by (auto simp: find_bucket bucket_add split: if_splits)

lemma find_add_other: "hsh (key e) \<noteq> hsh k \<Longrightarrow> find (add t e) k = find t k"
  by (simp add: find_bucket bucket_add)

lemma find_put: "find (put t k e) k' = (if hsh k' = hsh k then Some e else find t k')"
  by (simp add: find_bucket bucket_put)

lemma find_del_other: "hsh k' \<noteq> hsh k \<Longrightarrow> find (del t k) k' = find t k'"
  by (simp add: find_bucket bucket_del)

text \<open>
  The discipline of the code: an entry is added only when the search found none, so a bucket
  never holds more than one.
\<close>

definition single :: "'t \<Rightarrow> bool" where
  "single t \<longleftrightarrow> (\<forall>b. length (bucket t b) \<le> 1)"

lemma single_add: "single t \<Longrightarrow> find t (key e) = None \<Longrightarrow> single (add t e)"
  by (simp add: single_def find_None bucket_add)

lemma single_put: "single t \<Longrightarrow> single (put t k e)"
  by (simp add: single_def bucket_put)

lemma single_del: "single t \<Longrightarrow> single (del t k)"
  by (simp add: single_def bucket_del le_diff_conv)

lemma find_del: "single t \<Longrightarrow> find (del t k) k' = (if hsh k' = hsh k then None else find t k')"
proof -
  assume "single t"
  then have "butlast (bucket t (hsh k)) = []"
    unfolding single_def by (metis One_nat_def diff_is_0_eq length_0_conv length_butlast)
  then show ?thesis by (simp add: find_bucket bucket_del)
qed

text \<open>
  The map a table is meant to be. It is one on a set of encodings without collisions, as long as
  every entry belongs to one of them.
\<close>

definition keyed :: "u64 set \<Rightarrow> 't \<Rightarrow> bool" where
  "keyed K t \<longleftrightarrow> single t \<and> (\<forall>b. \<forall>e \<in> set (bucket t b). key e \<in> K \<and> hsh (key e) = b)"

definition abs_map :: "'t \<Rightarrow> u64 \<Rightarrow> 'e option" where
  "abs_map t k = (case find t k of None \<Rightarrow> None | Some e \<Rightarrow> if key e = k then Some e else None)"

lemma keyed_find:
  assumes "inj_on hsh K" and "keyed K t" and "k \<in> K" and "find t k = Some e"
  shows "key e = k"
proof -
  have "e \<in> set (bucket t (hsh k))"
    using assms(4) by (auto simp: find_bucket split: if_splits)
  then have "key e \<in> K" and "hsh (key e) = hsh k"
    using assms(2) by (auto simp: keyed_def)
  then show ?thesis
    using assms(1,3) by (simp add: inj_on_def)
qed

lemma find_abs_map:
  "inj_on hsh K \<Longrightarrow> keyed K t \<Longrightarrow> k \<in> K \<Longrightarrow> find t k = abs_map t k"
  by (auto simp: abs_map_def dest: keyed_find split: option.splits)

lemma keyed_add:
  "keyed K t \<Longrightarrow> key e \<in> K \<Longrightarrow> find t (key e) = None \<Longrightarrow> keyed K (add t e)"
  by (auto simp: keyed_def single_add bucket_add)

lemma keyed_put:
  "keyed K t \<Longrightarrow> key e = k \<Longrightarrow> k \<in> K \<Longrightarrow> keyed K (put t k e)"
  by (auto simp: keyed_def single_put bucket_put dest: in_set_butlastD)

lemma keyed_del: "keyed K t \<Longrightarrow> keyed K (del t k)"
  by (auto simp: keyed_def single_del bucket_del dest: in_set_butlastD)

lemma abs_map_add:
  assumes "inj_on hsh K" and "keyed K t" and "key e \<in> K" and "find t (key e) = None" and "k \<in> K"
  shows "abs_map (add t e) k = ((abs_map t)(key e \<mapsto> e)) k"
proof (cases "k = key e")
  case True
  then show ?thesis
    using find_add_new [OF assms(4)] by (simp add: abs_map_def)
next
  case False
  then have "hsh (key e) \<noteq> hsh k"
    using assms by (auto simp: inj_on_def)
  then show ?thesis
    using False by (simp add: abs_map_def find_add_other)
qed

lemma abs_map_put:
  assumes "inj_on hsh K" and "key e = k" and "k \<in> K" and "k' \<in> K"
  shows "abs_map (put t k e) k' = ((abs_map t)(k \<mapsto> e)) k'"
  using assms by (auto simp: abs_map_def find_put inj_on_def)

lemma abs_map_del:
  assumes "inj_on hsh K" and "keyed K t" and "k \<in> K" and "k' \<in> K"
  shows "abs_map (del t k) k' = ((abs_map t)(k := None)) k'"
proof -
  have "hsh k' = hsh k \<longleftrightarrow> k' = k"
    using assms by (auto simp: inj_on_def)
  then show ?thesis
    using find_del [of t k k'] assms(2) by (simp add: abs_map_def keyed_def)
qed

end

lemma foldl_last: "foldl (\<lambda>r x. Some x) a xs = (if xs = [] then a else Some (last xs))"
  by (induction xs arbitrary: a) auto

interpretation txtab: encoding_table tx_key "hash env" tx_enc "find_tx env" "add_tx env"
    "put_tx env" "del_tx env" for env
  by unfold_locales (simp_all add: find_tx_def add_tx_def put_tx_def del_tx_def foldl_last)

interpretation rxtab: encoding_table rx_key "hash env" rx_enc "find_rx env" "add_rx env"
    "put_rx env" "del_rx env" for env
  by unfold_locales (simp_all add: find_rx_def add_rx_def put_rx_def del_rx_def foldl_last)

lemma table_frames [simp]:
  "rx_enc (add_tx env st e) = rx_enc st" "rx_enc (put_tx env st enc e) = rx_enc st"
  "rx_enc (del_tx env st enc) = rx_enc st"
  "tx_enc (add_rx env st f) = tx_enc st" "tx_enc (put_rx env st enc f) = tx_enc st"
  "tx_enc (del_rx env st enc) = tx_enc st"
  "effects (add_tx env st e) = effects st" "effects (put_tx env st enc e) = effects st"
  "effects (del_tx env st enc) = effects st"
  "effects (add_rx env st f) = effects st" "effects (put_rx env st enc f) = effects st"
  "effects (del_rx env st enc) = effects st"
  "next_skb (add_tx env st e) = next_skb st" "next_skb (put_tx env st enc e) = next_skb st"
  "next_skb (add_rx env st f) = next_skb st" "next_skb (put_rx env st enc f) = next_skb st"
  "pidt (put_rx env st enc f) = pidt st" "pidt (add_rx env st f) = pidt st"
  "pidt (put_tx env st enc e) = pidt st" "pidt (add_tx env st e) = pidt st"
  by (simp_all add: add_tx_def put_tx_def del_tx_def add_rx_def put_rx_def del_rx_def)

lemma find_tx_cong: "tx_enc st = tx_enc st' \<Longrightarrow> find_tx env st k = find_tx env st' k"
  by (simp add: find_tx_def)

lemma find_rx_cong: "rx_enc st = rx_enc st' \<Longrightarrow> find_rx env st k = find_rx env st' k"
  by (simp add: find_rx_def)

section \<open>What the searches find\<close>

text \<open>
  C27: On encodings whose hashes do not collide, and as long as every entry belongs to one of them,
  the table of sending entries is a map: adding, writing through the pointer of a search and deleting
  update the map at the one encoding, and a search reads it.
\<close>
theorem tx_table_is_map:
  assumes "inj_on (hash env) K" and "txtab.keyed env K st" and "k \<in> K" and "k' \<in> K" and "tx_key e = k"
  shows "(find_tx env st k = None \<longrightarrow>
            txtab.abs_map env (add_tx env st e) k' = ((txtab.abs_map env st)(k \<mapsto> e)) k') \<and>
         txtab.abs_map env (put_tx env st k e) k' = ((txtab.abs_map env st)(k \<mapsto> e)) k' \<and>
         txtab.abs_map env (del_tx env st k) k' = ((txtab.abs_map env st)(k := None)) k' \<and>
         find_tx env st k = txtab.abs_map env st k"
  using assms txtab.abs_map_add [of env K st e k'] txtab.abs_map_put [of env K e k k' st]
    txtab.abs_map_del [of env K st k k'] txtab.find_abs_map [of env K st k] by auto

text \<open>
  The same for the table of receive entries.
\<close>
theorem rx_table_is_map:
  assumes "inj_on (hash env) K" and "rxtab.keyed env K st" and "k \<in> K" and "k' \<in> K" and "rx_key e = k"
  shows "(find_rx env st k = None \<longrightarrow>
            rxtab.abs_map env (add_rx env st e) k' = ((rxtab.abs_map env st)(k \<mapsto> e)) k') \<and>
         rxtab.abs_map env (put_rx env st k e) k' = ((rxtab.abs_map env st)(k \<mapsto> e)) k' \<and>
         rxtab.abs_map env (del_rx env st k) k' = ((rxtab.abs_map env st)(k := None)) k' \<and>
         find_rx env st k = rxtab.abs_map env st k"
  using assms rxtab.abs_map_add [of env K st e k'] rxtab.abs_map_put [of env K e k k' st]
    rxtab.abs_map_del [of env K st k k'] rxtab.find_abs_map [of env K st k] by auto

text \<open>
  C28: The searches do not compare keys. When two encodings fall into the same of the 32 buckets, the
  entry added for one is what a search for the other returns, and deleting the other's entry removes
  it.
\<close>
theorem find_tx_collision:
  assumes "hash env k' = hash env (tx_key e)" and "find_tx env st (tx_key e) = None"
  shows "find_tx env (add_tx env st e) k' = Some e \<and>
         find_tx env (del_tx env (add_tx env st e) k') (tx_key e) = None"
proof -
  have b: "tx_enc st (hash env (tx_key e)) = []"
    using assms(2) by (simp add: txtab.find_None)
  then show ?thesis
    using assms(1) by (simp add: find_tx_def add_tx_def del_tx_def)
qed

end
