(* ===== verification/Vmac_Tx.thy ===== *)
theory Vmac_Tx
  imports Enc_Table
begin

text \<open>
  The sending side: \<^verbatim>\<open>kernel/core/tx.c\<close> (\<open>vmac_tx\<close>, \<open>vmac_low_tx\<close>, \<open>xmit_mo\<close>), the attribute
  defaults it starts from (\<open>update_monitor_frame_attrib\<close>), and the netlink entry and the module
  state of \<^verbatim>\<open>kernel/core/rtw_xmit.c\<close>.
\<close>

section \<open>Handing a frame to the driver\<close>

definition MGN_VHT1SS_MCS0 :: u8 where "MGN_VHT1SS_MCS0 = 0xA0"
definition MGN_VHT1SS_MCS9 :: u8 where "MGN_VHT1SS_MCS9 = 0xA9"
definition MGN_VHT2SS_MCS0 :: u8 where "MGN_VHT2SS_MCS0 = 0xAA"
definition RATEID_IDX_BGN_40M_1SS :: u8 where "RATEID_IDX_BGN_40M_1SS = 1"
definition RTW_DEFAULT_MGMT_MACID :: u8 where "RTW_DEFAULT_MGMT_MACID = 1"
definition QSLT_MGNT :: u8 where "QSLT_MGNT = 0x12"

text \<open>
  \<open>update_monitor_frame_attrib\<close>: the attributes of a monitor-mode frame before \<open>xmit_mo\<close> changes
  some of them. The fields of \<open>pkt_attrib\<close> the code leaves alone keep the value they have.
\<close>

definition update_monitor_frame_attrib :: "kenv \<Rightarrow> vmac \<Rightarrow> pkt_attrib \<Rightarrow> pkt_attrib" where
  "update_monitor_frame_attrib env st pattrib = pattrib\<lparr>
     pa_hdrlen := 24, pa_nr_frags := 1, pa_priority := 7, pa_inject := 0xa5,
     pa_mac_id := RTW_DEFAULT_MGMT_MACID, pa_qsel := QSLT_MGNT, pa_pktlen := 0,
     pa_raid := vht_raid env, pa_rate := MGN_VHT1SS_MCS9,
     pa_encrypt := 0, pa_bswenc := 0, pa_qos_en := 0, pa_ht_en := 1,
     pa_bwmode := 0, pa_ch_offset := 0, pa_sgi := 0,
     pa_seqnum := mgnt_seq st, pa_retry_ctrl := 0, pa_mbssid := 0,
     pa_hw_ssn_sel := hw_ssn_seq_no env\<rparr>"

text \<open>
  \<open>monitor_alloc_mgtxmitframe\<close>: four attempts, for \<open>tries = 3\<close> down to \<open>0\<close>, with a growing delay
  after each that fails. The result is whether one succeeded, and the delays spent.
\<close>

fun alloc_tries :: "(nat \<Rightarrow> bool) \<Rightarrow> nat \<Rightarrow> nat \<Rightarrow> nat \<Rightarrow> bool \<times> nat list" where
  "alloc_tries ok attempt 0 delay = (False, [])"
| "alloc_tries ok attempt (Suc left) delay =
     (if ok attempt then (True, [])
      else (case alloc_tries ok (Suc attempt) left (delay + delay div 2) of
              (r, ds) \<Rightarrow> (r, delay # ds)))"

definition monitor_alloc_mgtxmitframe :: "kenv \<Rightarrow> bool \<times> nat list" where
  "monitor_alloc_mgtxmitframe env = alloc_tries (xframe_ok env) 0 4 300"

text \<open>\<open>GetSequence\<close>: the half-word at offset 22 of the frame, shifted right by four.\<close>

definition GetSequence :: "bytes \<Rightarrow> u16" where
  "GetSequence pframe = drop_bit 4 (of_le_bytes (take 2 (drop 22 pframe)))"

text \<open>
  \<open>xmit_mo\<close>. A fresh management frame is zeroed, so its attributes start from \<open>pa0\<close>; the frame is
  copied behind the transmit descriptor without a look at the size of the buffer. The result is
  the code's return value: \<open>NETDEV_TX_BUSY\<close> (16) without a frame, \<open>NETDEV_TX_OK\<close> (0) otherwise.
\<close>

definition pa0 :: pkt_attrib where
  "pa0 = \<lparr>pa_hdrlen = 0, pa_nr_frags = 0, pa_priority = 0, pa_inject = 0, pa_mac_id = 0,
     pa_qsel = 0, pa_pktlen = 0, pa_last_txcmdsz = 0, pa_raid = 0, pa_rate = 0, pa_encrypt = 0,
     pa_bswenc = 0, pa_qos_en = 0, pa_ht_en = 0, pa_bwmode = 0, pa_ch_offset = 0, pa_sgi = 0,
     pa_ldpc = 0, pa_stbc = 0, pa_seqnum = 0, pa_retry_ctrl = 0, pa_mbssid = 0,
     pa_hw_ssn_sel = 0\<rparr>"

definition xmit_mo :: "kenv \<Rightarrow> vmac \<Rightarrow> sk_buff \<Rightarrow> u8 \<Rightarrow> u8 \<Rightarrow> u8 \<Rightarrow> u8 \<Rightarrow> (nat \<times> vmac) res" where
  "xmit_mo env st skb rate bw sgi stream =
     (if \<not> fst (monitor_alloc_mgtxmitframe env) then Inr (16, st)
      else if xbuf_room env < length (skb_data skb) then Inl Buffer_overflow
      else
        (let pattrib = update_monitor_frame_attrib env st pa0;
             pframe = skb_data skb;
             pattrib = pattrib\<lparr>pa_pktlen := of_nat (length pframe)\<rparr>;
             pattrib = pattrib\<lparr>pa_rate := (if stream = 0 then MGN_VHT1SS_MCS0 else MGN_VHT2SS_MCS0)\<rparr>;
             pattrib = pattrib\<lparr>pa_rate := pa_rate pattrib + rate\<rparr>;
             pattrib = pattrib\<lparr>pa_sgi := sgi, pa_bwmode := bw, pa_ldpc := 0, pa_stbc := 0,
                               pa_retry_ctrl := 0\<rparr>;
             seq = GetSequence pframe;
             pattrib = pattrib\<lparr>pa_seqnum := seq\<rparr>;
             st = st\<lparr>mgnt_seq := seq + 1\<rparr>;
             pattrib = pattrib\<lparr>pa_last_txcmdsz := pa_pktlen pattrib\<rparr>;
             st = emit (Dump_mgntframe pattrib pframe) st;
             st = st\<lparr>tx_pkts := tx_pkts st + 1, tx_bytes := tx_bytes st + of_nat (length pframe)\<rparr>
         in Inr (0, kfree_skb skb st)))"

text \<open>
  \<open>vmac_low_tx\<close>: the 802.11 header in front of the frame. Duration, sequence control and the fourth
  address come from an uninitialised local variable; the return value of \<open>xmit_mo\<close> is only printed.
\<close>

definition vmac_src :: bytes where "vmac_src = [0x00, 0xc0, 0xca, 0xa8, 0xf2, 0xa2]"
definition vmac_dest :: bytes where "vmac_dest = [0xff, 0xff, 0xff, 0xff, 0xff, 0xff]"
definition vmac_bssid :: bytes where "vmac_bssid = [0xfe, 0xfe, 0xfe, 0xfe, 0xfe, 0xfe]"

definition low_tx_hdr :: "kenv \<Rightarrow> ieee80211_hdr" where
  "low_tx_hdr env = (stack_hdr env)\<lparr>wh_addr1 := vmac_dest, wh_addr2 := vmac_src,
     wh_addr3 := vmac_bssid, wh_frame_control := 0x0008\<rparr>"

definition vmac_low_tx :: "kenv \<Rightarrow> vmac \<Rightarrow> sk_buff \<Rightarrow> u16 \<Rightarrow> u8 \<Rightarrow> u8 \<Rightarrow> u8 \<Rightarrow> u8 \<Rightarrow> vmac res" where
  "vmac_low_tx env st skb seq rate bw sgi stream =
     rbind (skb_push skb (ieee80211_hdr_bytes (low_tx_hdr env))) (\<lambda>skb.
     rbind (xmit_mo env st skb rate bw sgi stream) (\<lambda>(ret, st). Inr st))"

text \<open>\<open>fake_send\<close> of \<^verbatim>\<open>rtw_xmit.c\<close> builds the same header and hands the frame on.\<close>

definition fake_send :: "kenv \<Rightarrow> vmac \<Rightarrow> sk_buff \<Rightarrow> u8 \<Rightarrow> u8 \<Rightarrow> u8 \<Rightarrow> u8 \<Rightarrow> vmac res" where
  "fake_send env st skb rate bw sgi stream =
     rbind (skb_push skb (ieee80211_hdr_bytes (low_tx_hdr env))) (\<lambda>skb.
     rbind (xmit_mo env st skb rate bw sgi stream) (\<lambda>(ret, st). Inr st))"

definition vmac_send_hack :: "kenv \<Rightarrow> vmac \<Rightarrow> sk_buff \<Rightarrow> vmac res" where
  "vmac_send_hack env st skb = vmac_low_tx env st skb 0 1 0 1 0"

section \<open>vmac_tx\<close>

text \<open>
  The interest branch up to the push of the header: the receive entry of the encoding is created
  when the search finds none, and its time-out is set. A new entry keeps what its memory held in
  the fields the code does not write: the window, the offset, the counters of \<open>dac_info\<close> other
  than \<open>dack_counter\<close> and \<open>send\<close>, and both DACK pointers.
\<close>

definition init_encoding_rx :: "u64 \<Rightarrow> encoding_rx \<Rightarrow> encoding_rx" where
  "init_encoding_rx enc vmacr = vmacr\<lparr>
     rx_clean := \<lparr>cl_enc = enc, cl_type = CLEAN_ENC_RX\<rparr>, rx_key := enc,
     dac_info := (dac_info vmacr)\<lparr>di_dack_counter := 0, di_send := 0\<rparr>,
     rx_alpha := 0, firstFrame := 0, SecondFrame := 0, lastin := 0, latest := 0, rx_round := 0,
     dacksent := 0, rx_enc_timeout := None\<rparr>"

definition vmac_tx_interest :: "kenv \<Rightarrow> vmac \<Rightarrow> u64 \<Rightarrow> vmac res" where
  "vmac_tx_interest env st enc =
     rbind (case find_rx env st enc of
              None \<Rightarrow>
                (case vmalloc_rx env of
                   None \<Rightarrow> Inl Null_deref
                 | Some m \<Rightarrow>
                     (let vmacr = (init_encoding_rx enc m)\<lparr>dack_timer := Some (jiffies env)\<rparr>
                      in Inr (vmacr, add_rx env st vmacr)))
            | Some vmacr \<Rightarrow> Inr (vmacr, st))
       (\<lambda>(vmacr, st). Inr (put_rx env st enc
          (vmacr\<lparr>rx_enc_timeout := Some (jiffies env + msecs_to_jiffies env 30000)\<rparr>)))"

text \<open>
  The data branch: the sending entry is created when there is none; the frame gets the entry's
  next sequence number and both V-MAC headers; a copy goes into the retransmission buffer, and the
  copy it replaces is freed once the buffer has been filled.
\<close>

definition init_encoding_tx :: "u64 \<Rightarrow> encoding_tx \<Rightarrow> encoding_tx" where
  "init_encoding_tx enc vmact = vmact\<lparr>
     tx_clean := \<lparr>cl_enc = enc, cl_type = CLEAN_ENC_TX\<rparr>,
     framecount := 0, tx_seq := 0, tx_key := enc, dackcounter := 0, prevround := 0, prevtime := 0,
     tx_enc_timeout := None,
     round_inc := [0, 0, 0], round_dec := [0, 0, 0]\<rparr>"

definition find_or_add_tx :: "kenv \<Rightarrow> vmac \<Rightarrow> u64 \<Rightarrow> (encoding_tx \<times> vmac) res" where
  "find_or_add_tx env st enc =
     (case find_tx env st enc of
        None \<Rightarrow>
          (case vmalloc_tx env of
             None \<Rightarrow> Inl Null_deref
           | Some m \<Rightarrow> (let vmact = init_encoding_tx enc m in Inr (vmact, add_tx env st vmact)))
      | Some vmact \<Rightarrow> Inr (vmact, st))"

definition vmac_tx_data :: "kenv \<Rightarrow> vmac \<Rightarrow> sk_buff \<Rightarrow> u64 \<Rightarrow> (sk_buff \<times> vmac) res" where
  "vmac_tx_data env st skb enc =
     rbind (find_or_add_tx env st enc) (\<lambda>(vmact, st).
     (let seq = tx_seq vmact;
          slot = unat seq mod WINDOW_TX;
          vmact = vmact\<lparr>tx_enc_timeout := Some (jiffies env + msecs_to_jiffies env 30000),
                        tx_seq := seq + 1, tx_timer := (tx_timer vmact)[slot := 0]\<rparr>
      in rbind (skb_push skb (vmac_data_bytes seq)) (\<lambda>skb.
         rbind (skb_push skb (vmac_hdr_bytes \<lparr>vh_enc = enc, vh_type = VMAC_HDR_DATA\<rparr>)) (\<lambda>skb.
         (case skb_copy env skb st of (tmp1, st) \<Rightarrow>
            (let tmp2 = (if WINDOW_TX \<le> unat seq then retransmission_buffer vmact ! slot else None);
                 vmact = (case tmp1 of
                            None \<Rightarrow> vmact
                          | Some c \<Rightarrow> vmact\<lparr>retransmission_buffer :=
                                       (retransmission_buffer vmact)[slot := Some c]\<rparr>);
                 st = put_tx env st enc vmact
             in Inr (skb, kfree_skb_opt tmp2 st)))))))"

definition vmac_tx :: "kenv \<Rightarrow> vmac \<Rightarrow> sk_buff \<Rightarrow> u64 \<Rightarrow> u8 \<Rightarrow> u16 \<Rightarrow> u8 \<Rightarrow> u8 \<Rightarrow> u8 \<Rightarrow> u8 \<Rightarrow> vmac res" where
  "vmac_tx env st skb enc type seqtmp rate bw sgi stream =
     (let send = (\<lambda>(skb, st). vmac_low_tx env st skb 0 rate bw sgi stream)
      in if type = VMAC_HDR_INTEREST then
           rbind (vmac_tx_interest env st enc) (\<lambda>st.
           rbind (skb_push skb (vmac_hdr_bytes \<lparr>vh_enc = enc, vh_type = VMAC_HDR_INTEREST\<rparr>)) (\<lambda>skb.
           send (skb, st)))
         else if type = VMAC_HDR_DATA then
           rbind (vmac_tx_data env st skb enc) send
         else if type = VMAC_HDR_ANOUNCMENT then
           rbind (skb_push skb (vmac_hdr_bytes \<lparr>vh_enc = enc, vh_type = type\<rparr>)) (\<lambda>skb.
           send (skb, st))
         else if type = VMAC_HDR_INJECTED then
           rbind (skb_push skb (vmac_data_bytes seqtmp)) (\<lambda>skb.
           rbind (skb_push skb (vmac_hdr_bytes \<lparr>vh_enc = enc, vh_type = VMAC_HDR_INJECTED\<rparr>)) (\<lambda>skb.
           send (skb, st)))
         else Inr (kfree_skb skb st))"

section \<open>The netlink entry\<close>

text \<open>
  \<open>exit_vmac\<close> releases the netlink socket.
\<close>

definition exit_vmac :: "vmac \<Rightarrow> vmac" where
  "exit_vmac st = emit Netlink_release st"

text \<open>
  \<open>nl_recv\<close>, called with a netlink message: its type (the code keeps the low byte), the sender's
  port, the length field of its header and the bytes behind the header. The length is the
  sender's; the code subtracts a hundred and copies that many bytes. The sequence number handed to
  \<open>vmac_tx\<close> is \<open>&rxc.seq[0]\<close>, an address, cut to sixteen bits.
\<close>

record nlmsg =
  nl_type :: u16
  nl_pid :: int
  nl_len :: u32
  nl_data :: bytes

definition nl_recv :: "kenv \<Rightarrow> vmac \<Rightarrow> nlmsg \<Rightarrow> vmac res" where
  "nl_recv env st nlh =
     (let type = ucast (nl_type nlh) :: u8;
          st = (if pidt st \<noteq> nl_pid nlh then st\<lparr>pidt := nl_pid nlh\<rparr> else st)
      in if type = VMAC_HDR_INTEREST \<or> type = VMAC_HDR_DATA \<or> type = VMAC_HDR_ANOUNCMENT \<or>
            type = VMAC_HDR_INJECTED then
           (case dev_alloc_skb env (unat (nl_len nlh + 100)) st of (skb2, st) \<Rightarrow>
            (let size = nl_len nlh - 100
             in rbind (read_control (nl_data nlh)) (\<lambda>rxc.
                case skb2 of
                  None \<Rightarrow> Inr st
                | Some skb2 \<Rightarrow>
                    (let skb2 = skb_reserve skb2 100
                     in if length (nl_data nlh) < 15 + unat size then
                          (if tailroom skb2 < unat size then Inl Skb_over_panic else Inl Read_past_end)
                        else
                          rbind (skb_put skb2 (take (unat size) (drop 15 (nl_data nlh)))) (\<lambda>skb2.
                          vmac_tx env st skb2 (ct_enc rxc) type (stack_seq_addr env)
                            (ct_rate rxc) (ct_bw rxc) (ct_sgi rxc) (ct_stream rxc))))))
         else if type = 254 then Inr (exit_vmac st)
         else Inr st)"

text \<open>\<open>vmac_init\<close>: \<open>sock_ok\<close> is whether the kernel creates the netlink socket.\<close>

definition vmac_init :: "bool \<Rightarrow> vmac \<Rightarrow> int \<times> vmac" where
  "vmac_init sock_ok st =
     (if configured st then (1, st)
      else (let st = st\<lparr>pidt := -1\<rparr>
            in if \<not> sock_ok then (-1, st) else (0, st\<lparr>configured := True\<rparr>)))"

section \<open>What goes on the air\<close>

lemma wf_low_tx_hdr [simp]: "wf_ieee80211_hdr (stack_hdr env) \<Longrightarrow> wf_ieee80211_hdr (low_tx_hdr env)"
  by (simp add: wf_ieee80211_hdr_def low_tx_hdr_def vmac_dest_def vmac_src_def vmac_bssid_def)

definition air_frame :: "kenv \<Rightarrow> bytes \<Rightarrow> bytes" where
  "air_frame env data = ieee80211_hdr_bytes (low_tx_hdr env) @ data"

lemma length_air_frame [simp]:
  "wf_ieee80211_hdr (stack_hdr env) \<Longrightarrow> length (air_frame env data) = 30 + length data"
  by (simp add: air_frame_def)

text \<open>The environment lets \<open>n\<close> bytes of V-MAC frame through to the driver.\<close>

definition tx_ready :: "kenv \<Rightarrow> nat \<Rightarrow> bool" where
  "tx_ready env n \<longleftrightarrow> wf_ieee80211_hdr (stack_hdr env) \<and> fst (monitor_alloc_mgtxmitframe env) \<and>
     30 + n \<le> xbuf_room env"

definition tx_attrib :: "kenv \<Rightarrow> vmac \<Rightarrow> bytes \<Rightarrow> u8 \<Rightarrow> u8 \<Rightarrow> u8 \<Rightarrow> u8 \<Rightarrow> pkt_attrib" where
  "tx_attrib env st pframe rate bw sgi stream = (update_monitor_frame_attrib env st pa0)\<lparr>
     pa_pktlen := of_nat (length pframe), pa_last_txcmdsz := of_nat (length pframe),
     pa_rate := (if stream = 0 then MGN_VHT1SS_MCS0 else MGN_VHT2SS_MCS0) + rate,
     pa_sgi := sgi, pa_bwmode := bw, pa_ldpc := 0, pa_stbc := 0, pa_retry_ctrl := 0,
     pa_seqnum := GetSequence pframe\<rparr>"

definition tx_sent :: "kenv \<Rightarrow> vmac \<Rightarrow> sk_buff \<Rightarrow> u8 \<Rightarrow> u8 \<Rightarrow> u8 \<Rightarrow> u8 \<Rightarrow> vmac" where
  "tx_sent env st skb rate bw sgi stream =
     (let f = air_frame env (skb_data skb) in
      st\<lparr>mgnt_seq := GetSequence f + 1, tx_pkts := tx_pkts st + 1, tx_bytes := tx_bytes st + of_nat (length f),
         effects := effects st @ [Dump_mgntframe (tx_attrib env st f rate bw sgi stream) f, Kfree_skb (skb_id skb)]\<rparr>)"

lemma tx_sent_simps [simp]:
  "rx_enc (tx_sent env st skb r b g s) = rx_enc st" "tx_enc (tx_sent env st skb r b g s) = tx_enc st"
  "pidt (tx_sent env st skb r b g s) = pidt st" "next_skb (tx_sent env st skb r b g s) = next_skb st"
  "configured (tx_sent env st skb r b g s) = configured st"
  "effects (tx_sent env st skb r b g s) = effects st @
     [Dump_mgntframe (tx_attrib env st (air_frame env (skb_data skb)) r b g s) (air_frame env (skb_data skb)),
      Kfree_skb (skb_id skb)]"
  by (simp_all add: tx_sent_def Let_def)

lemma vmac_low_tx_sent:
  assumes "tx_ready env (length (skb_data skb))" and "30 \<le> headroom skb"
  shows "vmac_low_tx env st skb seq rate bw sgi stream = Inr (tx_sent env st skb rate bw sgi stream)"
proof -
  have w: "wf_ieee80211_hdr (low_tx_hdr env)" and m: "fst (monitor_alloc_mgtxmitframe env)"
    and x: "\<not> xbuf_room env < 30 + length (skb_data skb)"
    using assms(1) by (simp_all add: tx_ready_def)
  show ?thesis
    using assms(2) w m x
    by (simp add: vmac_low_tx_def xmit_mo_def tx_sent_def Let_def air_frame_def tx_attrib_def emit_def kfree_skb_def
        update_monitor_frame_attrib_def)
qed

text \<open>The transmit buffer is large enough for \<open>n\<close> bytes of V-MAC frame, whether or not the driver has one.\<close>

definition tx_room :: "kenv \<Rightarrow> nat \<Rightarrow> bool" where
  "tx_room env n \<longleftrightarrow> wf_ieee80211_hdr (stack_hdr env) \<and> 30 + n \<le> xbuf_room env"

lemma vmac_low_tx_total:
  assumes "tx_room env (length (skb_data skb))" and "30 \<le> headroom skb"
  shows "\<exists>st'. vmac_low_tx env st skb seq rate bw sgi stream = Inr st'"
proof (cases "fst (monitor_alloc_mgtxmitframe env)")
  case True
  then show ?thesis
    using assms vmac_low_tx_sent [of env skb st seq rate bw sgi stream] by (simp add: tx_room_def tx_ready_def)
next
  case False
  have "wf_ieee80211_hdr (low_tx_hdr env)" using assms(1) by (simp add: tx_room_def)
  then show ?thesis
    using assms(2) False by (simp add: vmac_low_tx_def xmit_mo_def)
qed

lemma vmac_low_tx_panic:
  "wf_ieee80211_hdr (stack_hdr env) \<Longrightarrow> headroom skb < 30 \<Longrightarrow>
   vmac_low_tx env st skb seq rate bw sgi stream = Inl Skb_under_panic"
  by (simp add: vmac_low_tx_def skb_push_def)

text \<open>
  \<open>monitor_alloc_mgtxmitframe\<close> asks the driver at most four times for a frame: it succeeds when
  one of the first four calls does, and otherwise gives up after waiting 300, 450, 675 and 1012
  microseconds.
\<close>
theorem monitor_alloc_four:
  "fst (monitor_alloc_mgtxmitframe env) = (\<exists>i<4. xframe_ok env i) \<and>
   (\<exists>n. snd (monitor_alloc_mgtxmitframe env) = take n [300, 450, 675, 1012])"
proof -
  let ?ok = "xframe_ok env"
  have "alloc_tries ?ok 0 (Suc (Suc (Suc (Suc 0)))) 300 =
      (if ?ok 0 then (True, []) else if ?ok (Suc 0) then (True, [300])
       else if ?ok (Suc (Suc 0)) then (True, [300, 450])
       else if ?ok (Suc (Suc (Suc 0))) then (True, [300, 450, 675]) else (False, [300, 450, 675, 1012]))"
    by simp
  then have m: "monitor_alloc_mgtxmitframe env =
      (if ?ok 0 then (True, []) else if ?ok 1 then (True, [300]) else if ?ok 2 then (True, [300, 450])
       else if ?ok 3 then (True, [300, 450, 675]) else (False, [300, 450, 675, 1012]))"
    by (simp add: monitor_alloc_mgtxmitframe_def numeral_eq_Suc)
  have ex: "(\<exists>i<4. ?ok i) \<longleftrightarrow> ?ok 0 \<or> ?ok 1 \<or> ?ok 2 \<or> ?ok 3"
    by (auto simp: less_Suc_eq numeral_eq_Suc)
  have "\<exists>n. xs = take n [300, 450, 675, 1012]"
    if "xs = take 0 [300, 450, 675, 1012] \<or> xs = take 1 [300, 450, 675, 1012] \<or> xs = take 2 [300, 450, 675, 1012] \<or>
        xs = take 3 [300, 450, 675, 1012] \<or> xs = take 4 [300, 450, 675, 1012]" for xs :: "nat list"
    using that by blast
  moreover have "snd (monitor_alloc_mgtxmitframe env) = take 0 [300, 450, 675, 1012] \<or>
      snd (monitor_alloc_mgtxmitframe env) = take 1 [300, 450, 675, 1012] \<or>
      snd (monitor_alloc_mgtxmitframe env) = take 2 [300, 450, 675, 1012] \<or>
      snd (monitor_alloc_mgtxmitframe env) = take 3 [300, 450, 675, 1012] \<or>
      snd (monitor_alloc_mgtxmitframe env) = take 4 [300, 450, 675, 1012]"
    by (simp add: m)
  moreover have "fst (monitor_alloc_mgtxmitframe env) \<longleftrightarrow> ?ok 0 \<or> ?ok 1 \<or> ?ok 2 \<or> ?ok 3"
    by (simp add: m)
  ultimately show ?thesis
    by (simp only: ex)
qed

section \<open>Data frames\<close>

definition data_frame :: "u64 \<Rightarrow> u16 \<Rightarrow> bytes \<Rightarrow> bytes" where
  "data_frame enc seq payload = vmac_hdr_bytes \<lparr>vh_enc = enc, vh_type = VMAC_HDR_DATA\<rparr> @ vmac_data_bytes seq @ payload"

lemma length_data_frame [simp]: "length (data_frame enc seq payload) = 11 + length payload"
  by (simp add: data_frame_def)

lemma vmac_tx_data_cases:
  assumes "find_or_add_tx env st enc = Inr (e, st1)" and "find_tx env st1 enc = Some e" and "11 \<le> headroom skb"
  defines "slot \<equiv> unat (tx_seq e) mod WINDOW_TX"
  shows "\<exists>st' e' skb'. vmac_tx_data env st skb enc = Inr (skb', st') \<and>
     skb_data skb' = data_frame enc (tx_seq e) (skb_data skb) \<and> skb_id skb' = skb_id skb \<and>
     headroom skb' = headroom skb - 11 \<and>
     find_tx env st' enc = Some e' \<and> tx_seq e' = tx_seq e + 1 \<and> tx_key e' = tx_key e \<and>
     tx_timer e' = (tx_timer e)[slot := 0] \<and>
     retransmission_buffer e' =
       (if alloc_ok env (next_skb st1)
        then (retransmission_buffer e)[slot := Some (skb'\<lparr>skb_id := next_skb st1\<rparr>)]
        else retransmission_buffer e) \<and>
     tx_enc_timeout e' = Some (jiffies env + msecs_to_jiffies env 30000) \<and>
     rx_enc st' = rx_enc st1 \<and> pidt st' = pidt st1 \<and> tx_enc st' = tx_enc (put_tx env st1 enc e') \<and>
     (\<forall>k. hash env k \<noteq> hash env enc \<longrightarrow> find_tx env st' k = find_tx env st1 k) \<and>
     effects st' = effects st1 @ (case (if WINDOW_TX \<le> unat (tx_seq e) then retransmission_buffer e ! slot else None)
       of None \<Rightarrow> [] | Some old \<Rightarrow> [Kfree_skb (skb_id old)])"
proof -
  define skb' where "skb' = skb\<lparr>headroom := headroom skb - 2 - 9, skb_data := data_frame enc (tx_seq e) (skb_data skb)\<rparr>"
  define buf where "buf = (if alloc_ok env (next_skb st1)
        then (retransmission_buffer e)[slot := Some (skb'\<lparr>skb_id := next_skb st1\<rparr>)]
        else retransmission_buffer e)"
  define e' where "e' = e\<lparr>tx_enc_timeout := Some (jiffies env + msecs_to_jiffies env 30000), tx_seq := tx_seq e + 1,
     tx_timer := (tx_timer e)[slot := 0], retransmission_buffer := buf\<rparr>"
  define st2 where "st2 = st1\<lparr>next_skb := Suc (next_skb st1)\<rparr>"
  define old where "old = (if WINDOW_TX \<le> unat (tx_seq e) then retransmission_buffer e ! slot else None)"
  define s1 where "s1 = skb\<lparr>headroom := headroom skb - 2, skb_data := vmac_data_bytes (tx_seq e) @ skb_data skb\<rparr>"
  have p1: "skb_push skb (vmac_data_bytes (tx_seq e)) = Inr s1"
    using assms(3) by (simp add: s1_def)
  have p2: "skb_push s1 (vmac_hdr_bytes \<lparr>vh_enc = enc, vh_type = VMAC_HDR_DATA\<rparr>) = Inr skb'"
    using assms(3) by (simp add: s1_def skb'_def data_frame_def)
  have "vmac_tx_data env st skb enc = Inr (skb', kfree_skb_opt old (put_tx env st2 enc e'))"
  proof (cases "alloc_ok env (next_skb st1)")
    case True
    then show ?thesis
      by (simp add: vmac_tx_data_def assms(1) p1 p2 skb_copy_def,
          unfold Let_def old_def slot_def st2_def e'_def buf_def) simp
  next
    case False
    then show ?thesis
      by (simp add: vmac_tx_data_def assms(1) p1 p2 skb_copy_def,
          unfold Let_def old_def slot_def st2_def e'_def buf_def) simp
  qed
  moreover have f1: "find_tx env st2 k = find_tx env st1 k" for k
    by (rule find_tx_cong) (simp add: st2_def)
  moreover have "find_tx env (kfree_skb_opt old st') k = find_tx env st' k" for st' k
    by (rule find_tx_cong) simp
  ultimately show ?thesis
    by (intro exI [of _ "kfree_skb_opt old (put_tx env st2 enc e')"] exI [of _ e'] exI [of _ skb'])
      (simp add: txtab.find_put txtab.bucket_put e'_def buf_def skb'_def st2_def [symmetric] f1 old_def, simp add: st2_def)
qed

lemma vmac_tx_data_run:
  assumes "find_tx env st enc = Some e" and "wf_tx e" and "41 \<le> headroom skb"
    and "tx_ready env (11 + length (skb_data skb))" and "alloc_ok env (next_skb st)"
  shows "\<exists>st' e' c pa. vmac_tx env st skb enc VMAC_HDR_DATA seqtmp rate bw sgi stream = Inr st' \<and>
     find_tx env st' enc = Some e' \<and> wf_tx e' \<and> tx_seq e' = tx_seq e + 1 \<and>
     retransmission_buffer e' = (retransmission_buffer e)[unat (tx_seq e) mod 500 := Some c] \<and>
     skb_data c = data_frame enc (tx_seq e) (skb_data skb) \<and>
     effects st' = effects st @
       (case (if 500 \<le> unat (tx_seq e) then retransmission_buffer e ! (unat (tx_seq e) mod 500) else None)
        of None \<Rightarrow> [] | Some old \<Rightarrow> [Kfree_skb (skb_id old)]) @
       [Dump_mgntframe pa (air_frame env (data_frame enc (tx_seq e) (skb_data skb))), Kfree_skb (skb_id skb)]"
proof -
  have "find_or_add_tx env st enc = Inr (e, st)"
    using assms(1) by (simp add: find_or_add_tx_def)
  moreover have "11 \<le> headroom skb" using assms(3) by simp
  ultimately obtain st1 e' skb' where tx: "vmac_tx_data env st skb enc = Inr (skb', st1)"
    and d: "skb_data skb' = data_frame enc (tx_seq e) (skb_data skb)" "skb_id skb' = skb_id skb"
      "headroom skb' = headroom skb - 11"
    and e': "find_tx env st1 enc = Some e'" "tx_seq e' = tx_seq e + 1"
      "tx_timer e' = (tx_timer e)[unat (tx_seq e) mod WINDOW_TX := 0]"
      "retransmission_buffer e' =
        (retransmission_buffer e)[unat (tx_seq e) mod WINDOW_TX := Some (skb'\<lparr>skb_id := next_skb st\<rparr>)]"
    and eff: "effects st1 = effects st @ (case (if WINDOW_TX \<le> unat (tx_seq e)
       then retransmission_buffer e ! (unat (tx_seq e) mod WINDOW_TX) else None)
       of None \<Rightarrow> [] | Some old \<Rightarrow> [Kfree_skb (skb_id old)])"
    using vmac_tx_data_cases [of env st enc e st skb] assms(1,5) by auto
  have low: "vmac_low_tx env st1 skb' 0 rate bw sgi stream = Inr (tx_sent env st1 skb' rate bw sgi stream)"
    using assms(3,4) d by (intro vmac_low_tx_sent) simp_all
  have run: "vmac_tx env st skb enc VMAC_HDR_DATA seqtmp rate bw sgi stream = Inr (tx_sent env st1 skb' rate bw sgi stream)"
    by (simp add: vmac_tx_def frame_types tx low)
  have f: "find_tx env (tx_sent env st1 skb' rate bw sgi stream) enc = Some e'"
    using e'(1) find_tx_cong [of "tx_sent env st1 skb' rate bw sgi stream" st1 env enc] by simp
  show ?thesis
    using f e'(2,3,4) assms(2) eff
    by (intro exI [of _ "tx_sent env st1 skb' rate bw sgi stream"] exI [of _ e']
        exI [of _ "skb'\<lparr>skb_id := next_skb st\<rparr>"]
        exI [of _ "tx_attrib env st1 (air_frame env (skb_data skb')) rate bw sgi stream"] conjI)
      (simp_all add: run d wf_tx_def WINDOW_TX_def)
qed

text \<open>
  C6: A data frame of a known encoding: the entry's next sequence number goes into the frame and is
  consumed, the copy for retransmission in the slot of that number is exactly what was sent and the
  other slots are untouched, the copy it replaces is given back once the buffer has gone round, the
  driver gets 802.11 header, V-MAC header, sequence number and payload, and the buffer is given back
  once.
\<close>
theorem vmac_tx_data_sequence:
  assumes "find_tx env st enc = Some e" and "wf_tx e" and "41 \<le> headroom skb"
    and "tx_ready env (11 + length (skb_data skb))" and "alloc_ok env (next_skb st)"
  shows "\<exists>st' e' c pa. vmac_tx env st skb enc VMAC_HDR_DATA seqtmp rate bw sgi stream = Inr st' \<and>
     find_tx env st' enc = Some e' \<and> wf_tx e' \<and> tx_seq e' = tx_seq e + 1 \<and>
     retransmission_buffer e' = (retransmission_buffer e)[unat (tx_seq e) mod 500 := Some c] \<and>
     skb_data c = data_frame enc (tx_seq e) (skb_data skb) \<and>
     effects st' = effects st @
       (case (if 500 \<le> unat (tx_seq e) then retransmission_buffer e ! (unat (tx_seq e) mod 500) else None)
        of None \<Rightarrow> [] | Some old \<Rightarrow> [Kfree_skb (skb_id old)]) @
       [Dump_mgntframe pa (air_frame env (data_frame enc (tx_seq e) (skb_data skb))), Kfree_skb (skb_id skb)]"
  using vmac_tx_data_run [OF assms] .

section \<open>The entry from user space\<close>

text \<open>A message of the library: as long as its length field says, and that at least a hundred.\<close>

definition wf_nlmsg :: "nlmsg \<Rightarrow> bool" where
  "wf_nlmsg m \<longleftrightarrow> 100 \<le> unat (nl_len m) \<and> unat (nl_len m) + 100 < 2 ^ 32 \<and>
     15 + (unat (nl_len m) - 100) \<le> length (nl_data m)"

lemma vmac_tx_total:
  assumes "vmalloc_rx env \<noteq> None" and "vmalloc_tx env \<noteq> None" and "41 \<le> headroom skb"
    and "tx_room env (11 + length (skb_data skb))"
  shows "\<exists>st'. vmac_tx env st skb enc type seqtmp rate bw sgi stream = Inr st'"
proof -
  obtain m m' where m: "vmalloc_rx env = Some m" "vmalloc_tx env = Some m'"
    using assms(1,2) by blast
  have low: "\<exists>st2. vmac_low_tx env st' (skb\<lparr>headroom := headroom skb - n, skb_data := xs @ skb_data skb\<rparr>) 0 rate bw sgi stream = Inr st2"
    if "n \<le> 11" "length xs \<le> 11" for st' n xs
    using assms(3,4) that by (intro vmac_low_tx_total) (auto simp: tx_room_def)
  have interest_ok: "\<exists>st1. vmac_tx_interest env st enc = Inr st1"
    by (simp add: vmac_tx_interest_def m Let_def split: option.splits)
  have data_ok: "\<exists>skb' st1. vmac_tx_data env st skb enc = Inr (skb', st1) \<and> headroom skb' = headroom skb - 11 \<and>
      length (skb_data skb') = 11 + length (skb_data skb)"
  proof -
    obtain e st1 where "find_or_add_tx env st enc = Inr (e, st1)" and "find_tx env st1 enc = Some e"
    proof (cases "find_tx env st enc")
      case None
      have "find_tx env (add_tx env st (init_encoding_tx enc m')) enc = Some (init_encoding_tx enc m')"
        using None by (intro txtab.find_add_new) (simp_all add: init_encoding_tx_def)
      then show ?thesis
        using None m that by (simp add: find_or_add_tx_def Let_def)
    next
      case (Some e)
      then show ?thesis using that by (simp add: find_or_add_tx_def)
    qed
    then show ?thesis
      using vmac_tx_data_cases [of env st enc e st1 skb] assms(3) by fastforce
  qed
  consider (interest) "type = VMAC_HDR_INTEREST" | (data) "type = VMAC_HDR_DATA" | (anouncment) "type = VMAC_HDR_ANOUNCMENT"
    | (injected) "type = VMAC_HDR_INJECTED"
    | (other) "type \<notin> {VMAC_HDR_INTEREST, VMAC_HDR_DATA, VMAC_HDR_ANOUNCMENT, VMAC_HDR_INJECTED}" by blast
  then show ?thesis
  proof cases
    case interest
    obtain st1 where "vmac_tx_interest env st enc = Inr st1" using interest_ok by blast
    then show ?thesis using interest assms(3) by (simp add: vmac_tx_def low)
  next
    case data
    obtain skb' st1 where d: "vmac_tx_data env st skb enc = Inr (skb', st1)" "headroom skb' = headroom skb - 11"
      "length (skb_data skb') = 11 + length (skb_data skb)"
      using data_ok by blast
    have "\<exists>st2. vmac_low_tx env st1 skb' 0 rate bw sgi stream = Inr st2"
      using assms(3,4) d by (intro vmac_low_tx_total) simp_all
    then show ?thesis using data d by (simp add: vmac_tx_def frame_types)
  next
    case anouncment
    then show ?thesis using assms(3) by (simp add: vmac_tx_def frame_types low)
  next
    case injected
    have "\<exists>st2. vmac_low_tx env st (skb\<lparr>headroom := headroom skb - 11,
        skb_data := (vmac_hdr_bytes h @ vmac_data_bytes seqtmp) @ skb_data skb\<rparr>) 0 rate bw sgi stream = Inr st2" for h
      by (rule low) simp_all
    then show ?thesis using injected assms(3) by (simp add: vmac_tx_def frame_types)
  qed (simp add: vmac_tx_def)
qed

lemma nl_recv_total:
  assumes "wf_nlmsg m" and "vmalloc_rx env \<noteq> None" and "vmalloc_tx env \<noteq> None"
    and "tx_room env (11 + (unat (nl_len m) - 100))"
  shows "\<exists>st'. nl_recv env st m = Inr st'"
proof -
  have n: "100 \<le> nl_len m" "unat (nl_len m - 100) = unat (nl_len m) - 100" "unat (nl_len m + 100) = unat (nl_len m) + 100"
    using assms(1) by (simp_all add: wf_nlmsg_def word_le_nat_alt unat_sub unat_word_ariths)
  have l: "15 + unat (nl_len m - 100) \<le> length (nl_data m)"
    using assms(1) unfolding n(2) wf_nlmsg_def by blast
  then obtain rxc where c: "read_control (nl_data m) = Inr rxc"
    by (simp add: read_control_def)
  define st1 where "st1 = (if pidt st \<noteq> nl_pid m then st\<lparr>pidt := nl_pid m\<rparr> else st)"
  define skb where "skb = \<lparr>skb_id = next_skb st1, headroom = NET_SKB_PAD env + 100,
     skb_data = take (unat (nl_len m - 100)) (drop 15 (nl_data m)), tailroom = unat (nl_len m + 100) - 100 - unat (nl_len m - 100)\<rparr>"
  have lenskb: "length (skb_data skb) = unat (nl_len m) - 100"
    using l n by (simp add: skb_def)
  have put: "skb_put (skb_reserve \<lparr>skb_id = next_skb st1, headroom = NET_SKB_PAD env, skb_data = [], tailroom = unat (nl_len m + 100)\<rparr> 100)
      (take (unat (nl_len m - 100)) (drop 15 (nl_data m))) = Inr skb"
    using l n by (simp add: skb_reserve_def skb_def)
  have "\<exists>st'. vmac_tx env (st1\<lparr>next_skb := Suc (next_skb st1)\<rparr>) skb (ct_enc rxc) type (stack_seq_addr env)
        (ct_rate rxc) (ct_bw rxc) (ct_sgi rxc) (ct_stream rxc) = Inr st'" for type
    using assms(2-4) lenskb by (intro vmac_tx_total) (simp_all add: skb_def)
  moreover have "\<not> length (nl_data m) < 15 + unat (nl_len m - 100)" using l by simp
  ultimately show ?thesis
    unfolding nl_recv_def Let_def st1_def [symmetric]
    using put by (simp add: dev_alloc_skb_def c skb_reserve_def)
qed

text \<open>
  C11: A well-formed message from user space is handled without a fault in every state, whatever its type,
  and also when no buffer can be allocated for the frame or the driver has no management frame: there is
  always room for the headers in front of the frame (a hundred bytes are reserved, at most 41 used) and
  for the payload. Well-formed means that the length field is at least a hundred and that the payload it
  announces is there. Two conditions stand for what the code does not check: \<open>vmalloc\<close> finds memory for
  a new entry of either table (its result is not tested), and the transmit buffer of the driver is as
  large as the frame with its headers (\<open>xmit_mo\<close> copies without comparing).
\<close>
theorem nl_recv_no_fault:
  assumes "wf_nlmsg m" and "vmalloc_rx env \<noteq> None" and "vmalloc_tx env \<noteq> None"
    and "tx_room env (11 + (unat (nl_len m) - 100))"
  shows "\<exists>st'. nl_recv env st m = Inr st'"
  using nl_recv_total [OF assms] .

text \<open>
  C30: A message whose length field is below a hundred brings the kernel down: the size of the payload
  is the difference as an unsigned number, and \<open>skb_put\<close> panics. Any process that may open the netlink
  socket can send one.
\<close>
theorem nl_recv_short_panics:
  assumes "ucast (nl_type m) \<in> {VMAC_HDR_INTEREST, VMAC_HDR_DATA, VMAC_HDR_ANOUNCMENT, VMAC_HDR_INJECTED}"
    and "unat (nl_len m) < 100" and "15 \<le> length (nl_data m)" and "length (nl_data m) < 2 ^ 31"
    and "\<forall>i. alloc_ok env i"
  shows "nl_recv env st m = Inl Skb_over_panic"
proof -
  have "unat (nl_len m - 100) = 2 ^ 32 - 100 + unat (nl_len m)"
    using assms(2) by (simp add: unat_sub_if_size word_size word_le_nat_alt)
  moreover have "unat (nl_len m + 100) = unat (nl_len m) + 100"
    using assms(2) by (simp add: unat_word_ariths)
  moreover obtain rxc where "read_control (nl_data m) = Inr rxc"
    using assms(3) by (simp add: read_control_def)
  ultimately show ?thesis
    using assms unfolding nl_recv_def Let_def
    by (auto simp: dev_alloc_skb_def skb_reserve_def)
qed

section \<open>An example\<close>

text \<open>An environment in which everything succeeds, an entry of each table and a message, for concrete instances.\<close>

definition example_hdr :: ieee80211_hdr where
  "example_hdr = \<lparr>wh_frame_control = 0, wh_duration_id = 0, wh_addr1 = [0, 0, 0, 0, 0, 0], wh_addr2 = [0, 0, 0, 0, 0, 0],
     wh_addr3 = [0, 0, 0, 0, 0, 0], wh_seq_ctrl = 0, wh_addr4 = [0, 0, 0, 0, 0, 0]\<rparr>"

definition example_ctl :: control where
  "example_ctl = \<lparr>ct_type = 0, ct_enc = 0, ct_seq = 0, ct_rate = 0, ct_bw = 0, ct_sgi = 0, ct_stream = 0\<rparr>"

definition example_tx :: encoding_tx where
  "example_tx = \<lparr>tx_key = 7, tx_clean = \<lparr>cl_enc = 7, cl_type = CLEAN_ENC_TX\<rparr>,
     retransmission_buffer = replicate 500 None, tx_timer = replicate 500 0, tx_seq = 3, tx_offset = 0, retrxout = 0,
     prevtime = 0, prevround = 0, tx_enc_timeout = None, dackcounter = 0, framecount = 0, round_inc = [0, 0, 0],
     round_dec = [0, 0, 0]\<rparr>"

definition example_rx :: encoding_rx where
  "example_rx = \<lparr>rx_key = 7, rx_clean = \<lparr>cl_enc = 7, cl_type = CLEAN_ENC_RX\<rparr>, rx_pad = 1,
     rx_window = replicate 700 0, rx_alpha = 0, firstFrame = 0, SecondFrame = 0, lastin = 0, latest = 0,
     dac_info = \<lparr>di_send = 0, di_dack_counter = 0, di_round = 0, di_dacksheard = 0, di_dack = None\<rparr>,
     rx_round = 0, rx_offset = 0, dacksent = 0, rx_DACK = None, rx_enc_timeout = None, dack_timer = None\<rparr>"

definition example_env :: kenv where
  "example_env = \<lparr>hash = (\<lambda>k. ucast k), jiffies = 1000, msecs_to_jiffies = of_nat, vmalloc_rx = Some example_rx,
     vmalloc_tx = Some example_tx, alloc_ok = (\<lambda>_. True), NET_SKB_PAD = 64, xframe_ok = (\<lambda>_. True),
     xbuf_room = 1488, hw_ssn_seq_no = 0, vht_raid = 9, stack_hdr = example_hdr, stack_ctl = example_ctl,
     stack_seq_addr = 0, dacklok_free = True, random_long = 0\<rparr>"

definition example_state :: vmac where
  "example_state = \<lparr>rx_enc = (\<lambda>b. if b = 7 then [example_rx] else []), tx_enc = (\<lambda>b. if b = 7 then [example_tx] else []),
     pidt = 42, configured = True, mgnt_seq = 0, tx_pkts = 0, tx_bytes = 0, next_skb = 10, effects = []\<rparr>"

definition example_skb :: sk_buff where
  "example_skb = \<lparr>skb_id = 9, headroom = 164, skb_data = [1, 2, 3], tailroom = 0\<rparr>"

lemma example_tables [simp]:
  "find_tx example_env example_state 7 = Some example_tx"
  "find_rx example_env example_state 7 = Some example_rx"
  by (simp_all add: find_tx_def find_rx_def example_env_def example_state_def)

lemma example_tx_ready [simp]: "tx_ready example_env n \<longleftrightarrow> n \<le> 1458"
proof -
  have "alloc_tries (\<lambda>_. True) 0 4 300 = (True, [])"
    using alloc_tries.simps(2) [of "\<lambda>_. True" 0 3 300] by simp
  then have "fst (monitor_alloc_mgtxmitframe example_env)"
    by (simp add: monitor_alloc_mgtxmitframe_def example_env_def)
  then show ?thesis
    by (auto simp: tx_ready_def example_env_def example_hdr_def wf_ieee80211_hdr_def)
qed

lemma example_tx_room [simp]: "tx_room example_env n \<longleftrightarrow> n \<le> 1458"
  using example_tx_ready [of n] by (simp add: tx_room_def tx_ready_def example_env_def example_hdr_def wf_ieee80211_hdr_def)

theorem vmac_tx_data_sequence_witness:
  "\<exists>st' e'. vmac_tx example_env example_state example_skb 7 VMAC_HDR_DATA 0 1 0 1 0 = Inr st' \<and>
     find_tx example_env st' 7 = Some e' \<and> tx_seq e' = 4"
proof -
  have "wf_tx example_tx" by (simp add: wf_tx_def example_tx_def WINDOW_TX_def)
  moreover have "alloc_ok example_env (next_skb example_state)" by (simp add: example_env_def)
  moreover have "41 \<le> headroom example_skb" "tx_ready example_env (11 + length (skb_data example_skb))"
    by (simp_all add: example_skb_def)
  ultimately show ?thesis
    using vmac_tx_data_sequence [of example_env example_state 7 example_tx example_skb 0 1 0 1 0]
    by (auto simp: example_tx_def)
qed

definition example_nlmsg :: nlmsg where
  "example_nlmsg = \<lparr>nl_type = 1, nl_pid = 42, nl_len = 103, nl_data = control_bytes example_ctl @ [1, 2, 3]\<rparr>"

theorem nl_recv_no_fault_witness: "\<exists>st'. nl_recv example_env example_state example_nlmsg = Inr st'"
  by (rule nl_recv_no_fault) (simp_all add: wf_nlmsg_def example_nlmsg_def, simp_all add: example_env_def)

theorem nl_recv_short_panics_witness:
  "nl_recv example_env example_state (example_nlmsg\<lparr>nl_len := 99\<rparr>) = Inl Skb_over_panic"
  by (rule nl_recv_short_panics) (simp_all add: example_nlmsg_def example_env_def frame_types)

lemma example_keyed:
  "txtab.keyed example_env {7, 8} example_state" "rxtab.keyed example_env {7, 8} example_state"
  "inj_on (hash example_env) {7, 8}"
proof -
  have h: "hash example_env = ucast"
    by (simp add: example_env_def fun_eq_iff)
  show "txtab.keyed example_env {7, 8} example_state"
    unfolding txtab.keyed_def txtab.single_def unfolding h by (simp add: example_state_def example_tx_def)
  show "rxtab.keyed example_env {7, 8} example_state"
    unfolding rxtab.keyed_def rxtab.single_def unfolding h by (simp add: example_state_def example_rx_def)
  show "inj_on (hash example_env) {7, 8}"
    unfolding h by simp
qed

theorem tx_table_is_map_witness:
  "find_tx example_env example_state 8 = txtab.abs_map example_env example_state 8 \<and>
   txtab.abs_map example_env (del_tx example_env example_state 8) 7 = txtab.abs_map example_env example_state 7"
  using tx_table_is_map [OF example_keyed(3,1), of 8 7 "example_tx\<lparr>tx_key := 8\<rparr>"] by simp

theorem rx_table_is_map_witness:
  "find_rx example_env example_state 8 = rxtab.abs_map example_env example_state 8 \<and>
   rxtab.abs_map example_env (del_rx example_env example_state 8) 7 = rxtab.abs_map example_env example_state 7"
  using rx_table_is_map [OF example_keyed(3,2), of 8 7 "example_rx\<lparr>rx_key := 8\<rparr>"] by simp

theorem find_tx_collision_witness:
  "find_tx example_env (add_tx example_env (example_state\<lparr>tx_enc := (\<lambda>_. [])\<rparr>) example_tx) 39 = Some example_tx"
proof -
  have "hash example_env 39 = hash example_env (tx_key example_tx)"
    and "find_tx example_env (example_state\<lparr>tx_enc := (\<lambda>_. [])\<rparr>) (tx_key example_tx) = None"
    by (simp_all add: example_env_def example_tx_def find_tx_def)
  from find_tx_collision [OF this] show ?thesis by blast
qed

end
