(* ===== verification/Dack.thy ===== *)
theory Dack
  imports Vmac_Tx
begin

text \<open>
  Negative acknowledgements, \<^verbatim>\<open>kernel/core/dack.c\<close>: \<open>prepDACK\<close> collects the holes of the receive
  window into a DACK frame and arms the entry's timer, \<open>__sendDACK\<close> is what the timer runs. The
  first part translates the code; the second shows what the computed holes are.
\<close>

section \<open>The holes\<close>

definition HOLES_MAX :: nat where "HOLES_MAX = 40"
definition BUFFER_ROOM :: nat where "BUFFER_ROOM = 120"

text \<open>
  \<open>window[tmp % WINDOW - 1]\<close>: for a multiple of \<open>WINDOW\<close> this is the half-word in front of the
  window. The loops run on sequence numbers below \<open>lattmp\<close>, so the 16-bit and the \<open>int\<close> counters of
  the code never wrap and are natural numbers here; \<open>loss\<close> is eight bits wide and does wrap.
\<close>

definition window_before :: "u16 \<Rightarrow> u16 list \<Rightarrow> nat \<Rightarrow> u16" where
  "window_before pad w tmp = (if tmp mod WINDOW = 0 then pad else w ! (tmp mod WINDOW - 1))"

fun hole_left :: "u16 \<Rightarrow> u16 list \<Rightarrow> nat \<Rightarrow> nat \<Rightarrow> u8 \<Rightarrow> nat \<times> u8" where
  "hole_left pad w base 0 loss = (0, loss)"
| "hole_left pad w base (Suc t) loss =
     (if window_before pad w (Suc t) = 0 \<and> base < t then hole_left pad w base t (loss + 1)
      else (Suc t, loss))"

function hole_right :: "u16 list \<Rightarrow> nat \<Rightarrow> nat \<Rightarrow> u8 \<Rightarrow> nat \<times> u8" where
  "hole_right w lattmp i loss =
     (if w ! (i mod WINDOW) = 0 \<and> i < lattmp - 1 then hole_right w lattmp (i + 1) (loss + 1)
      else (i, loss))"
  by pat_completeness auto
termination by (relation "measure (\<lambda>(w, lattmp, i, loss). lattmp - i)") auto

declare hole_right.simps [simp del]

lemma hole_right_ge: "i \<le> fst (hole_right w lattmp i loss)"
proof (induction w lattmp i loss rule: hole_right.induct)
  case (1 w lattmp i loss)
  then show ?case
    by (subst hole_right.simps) force
qed

function holes_loop ::
  "u16 \<Rightarrow> u16 list \<Rightarrow> nat \<Rightarrow> nat \<Rightarrow> nat \<Rightarrow> vmac_hole list \<Rightarrow> u8 \<Rightarrow> vmac_hole list \<times> u8" where
  "holes_loop pad w base lattmp i holesy loss =
     (if i < lattmp \<and> length holesy < HOLES_MAX then
        if w ! (i mod WINDOW) = 0 then
          (let (tmp, loss) = hole_left pad w base i loss;
               (j, loss) = hole_right w lattmp i loss
           in holes_loop pad w base lattmp (j + 1)
                (holesy @ [\<lparr>ho_le = of_nat tmp, ho_re = of_nat j\<rparr>]) loss)
        else holes_loop pad w base lattmp (i + 1) holesy loss
      else (holesy, loss))"
  by pat_completeness auto
termination
proof (relation "measure (\<lambda>(pad, w, base, lattmp, i, holesy, loss). lattmp - i)", goal_cases)
  case (2 pad w base lattmp i holesy loss x tmp loss1 y j loss2)
  then have "i \<le> j"
    using hole_right_ge [of i w lattmp loss1] by (metis fst_conv)
  moreover have "i < lattmp"
    using 2 by blast
  ultimately show ?case by simp
qed auto

declare holes_loop.simps [simp del]

definition holes_of :: "u16 \<Rightarrow> u16 list \<Rightarrow> u16 \<Rightarrow> vmac_hole list \<times> u8" where
  "holes_of pad w lattmp =
     (let base = (if unat lattmp < WINDOW then 0 else unat lattmp - WINDOW)
      in holes_loop pad w base (unat lattmp) base [] 0)"

section \<open>prepDACK\<close>

text \<open>
  The delay until the DACK is sent, in jiffies: \<open>loss\<close> is replaced by \<open>5 - loss\<close> when it is at most
  five, \<open>alpha\<close> is capped at a hundred beforehand, and \<open>rndm\<close> is the remainder of a random \<open>long\<close>
  by two, which has the sign of the number.
\<close>

definition dack_rndm :: "kenv \<Rightarrow> int" where
  "dack_rndm env = sgn (random_long env) * (\<bar>random_long env\<bar> mod 2)"

definition dack_duration :: "kenv \<Rightarrow> u32 \<Rightarrow> u8 \<Rightarrow> int" where
  "dack_duration env alpha loss =
     (let loss = (if loss \<le> 5 then 5 - loss else loss);
          duration = int (unat (2 * alpha)) * (int (unat loss) + dack_rndm env)
      in if duration = 0 then 1 else duration)"

text \<open>
  The part under the entry's lock: a pending DACK is replaced (and given back), otherwise the new
  one is stored and the timer set.
\<close>

definition store_DACK :: "kenv \<Rightarrow> encoding_rx \<Rightarrow> sk_buff \<Rightarrow> u16 \<Rightarrow> int \<Rightarrow> encoding_rx \<times> sk_buff option" where
  "store_DACK env vmac skb round duration =
     (if di_send (dac_info vmac) = 1 then
        (let ptr = di_dack (dac_info vmac)
         in (vmac\<lparr>dac_info := (dac_info vmac)\<lparr>di_send := 1, di_dacksheard := 0,
                    di_round := ucast round, di_dack := Some skb\<rparr>, rx_DACK := Some skb\<rparr>, ptr))
      else
        (let duration = (if 100 < duration then 10 else duration)
         in (vmac\<lparr>dac_info := (dac_info vmac)\<lparr>di_dack := Some skb, di_send := 1,
                    di_dacksheard := 0, di_round := ucast round\<rparr>, rx_DACK := Some skb,
                  dack_timer := Some (jiffies env + of_int duration)\<rparr>, None)))"

definition dack_frame :: "u64 \<Rightarrow> u16 \<Rightarrow> vmac_hole list \<Rightarrow> bytes" where
  "dack_frame enc round holesy =
     vmac_DACK_bytes \<lparr>dk_holes = of_nat (length holesy), dk_round = round\<rparr> @
     concat (map vmac_hole_bytes holesy)"

definition prepDACK :: "kenv \<Rightarrow> vmac \<Rightarrow> u64 \<Rightarrow> u16 \<Rightarrow> vmac res" where
  "prepDACK env st enc round =
     (let lattmp = round * 5
      in rbind (case find_rx env st enc of
                  None \<Rightarrow> if lattmp = 0 then Inr ([], 0) else Inl Null_deref
                | Some vmac \<Rightarrow> Inr (holes_of (rx_pad vmac) (rx_window vmac) lattmp)) (\<lambda>(holesy, loss).
         (let skbsize = 30 + 9 + 4 + length holesy * 4 + BUFFER_ROOM
          in case dev_alloc_skb env skbsize st of
            (None, st) \<Rightarrow> Inr st
          | (Some skb, st) \<Rightarrow>
              rbind (skb_put skb (dack_frame enc round holesy)) (\<lambda>skb.
              rbind (skb_push skb (vmac_hdr_bytes \<lparr>vh_enc = enc, vh_type = VMAC_HDR_DACK\<rparr>)) (\<lambda>skb.
              case find_rx env st enc of
                None \<Rightarrow> Inl Null_deref
              | Some vmac \<Rightarrow>
                  (let vmac = vmac\<lparr>rx_alpha := (if 100 \<le> rx_alpha vmac then 100 else rx_alpha vmac)\<rparr>;
                       duration = dack_duration env (rx_alpha vmac) loss
                   in if \<not> dacklok_free env then Inr (kfree_skb skb (put_rx env st enc vmac))
                      else (let (vmac, ptr) = store_DACK env vmac skb round duration
                            in Inr (kfree_skb_opt ptr (put_rx env st enc vmac)))))))))"

definition request_DACK :: "kenv \<Rightarrow> vmac \<Rightarrow> u64 \<Rightarrow> u16 \<Rightarrow> vmac res" where
  "request_DACK env st enc round = prepDACK env st enc round"

text \<open>
  \<open>__sendDACK\<close>, run by the timer of the entry found under \<open>enc\<close> (a timer that has run is no longer
  pending). Without the lock it runs again after a hundred milliseconds. The timer and the DACK live
  inside the entry: where the entry is no longer in the table it was given to \<open>vfree\<close> (\<open>process\<close> does
  not stop the timer), and the first thing the handler does is to read its freed memory.
\<close>

definition sendDACK :: "kenv \<Rightarrow> vmac \<Rightarrow> u64 \<Rightarrow> vmac res" where
  "sendDACK env st enc =
     (case find_rx env st enc of
        None \<Rightarrow> Inl Use_after_free
      | Some vmacr \<Rightarrow>
          (let vmacr = vmacr\<lparr>dack_timer := None\<rparr>
           in if \<not> dacklok_free env then
                Inr (put_rx env st enc
                      (vmacr\<lparr>dack_timer := Some (jiffies env + msecs_to_jiffies env 100)\<rparr>))
              else if di_send (dac_info vmacr) = 1 then
                (let ptr = di_dack (dac_info vmacr);
                     vmacr = vmacr\<lparr>dac_info := (dac_info vmacr)\<lparr>di_send := 0, di_dack := None\<rparr>\<rparr>;
                     st = put_rx env st enc vmacr
                 in case ptr of
                      None \<Rightarrow> Inl Null_deref
                    | Some ptr \<Rightarrow> vmac_send_hack env st ptr)
              else Inr (put_rx env st enc vmacr)))"

section \<open>What the holes are\<close>

definition lost :: "u16 list \<Rightarrow> nat \<Rightarrow> bool" where
  "lost w s \<longleftrightarrow> w ! (s mod WINDOW) = 0"

definition hole_covers :: "vmac_hole \<Rightarrow> nat \<Rightarrow> bool" where
  "hole_covers h s \<longleftrightarrow> unat (ho_le h) \<le> s \<and> s < unat (ho_re h)"

text \<open>What the walk to the left may claim: lost frames, and, when the half-word in front of the
  window is zero, the last frame of a window period.\<close>

definition claimed :: "u16 \<Rightarrow> u16 list \<Rightarrow> nat \<Rightarrow> bool" where
  "claimed pad w s \<longleftrightarrow> lost w s \<or> pad = 0 \<and> Suc s mod WINDOW = 0"

lemma window_before_claimed: "window_before pad w (Suc t) = 0 \<Longrightarrow> claimed pad w t"
  by (auto simp: window_before_def claimed_def lost_def mod_Suc split: if_splits)

lemma hole_left_spec:
  "hole_left pad w base i loss = (tmp, loss') \<Longrightarrow> base \<le> i \<Longrightarrow>
   base \<le> tmp \<and> tmp \<le> i \<and> (\<forall>s. tmp \<le> s \<longrightarrow> s < i \<longrightarrow> claimed pad w s)"
proof (induction pad w base i loss rule: hole_left.induct)
  case (2 pad w base t loss)
  show ?case
  proof (cases "window_before pad w (Suc t) = 0 \<and> base < t")
    case True
    then have "base \<le> tmp \<and> tmp \<le> t \<and> (\<forall>s. tmp \<le> s \<longrightarrow> s < t \<longrightarrow> claimed pad w s)"
      using 2 by simp
    moreover have "claimed pad w t"
      using True by (simp add: window_before_claimed)
    ultimately show ?thesis
      by (auto simp: less_Suc_eq)
  next
    case False
    then show ?thesis using 2 by auto
  qed
qed simp

lemma hole_right_spec:
  "hole_right w lattmp i loss = (j, loss') \<Longrightarrow> i < lattmp \<Longrightarrow>
   i \<le> j \<and> j < lattmp \<and> (\<forall>s. i \<le> s \<longrightarrow> s < j \<longrightarrow> lost w s) \<and> (\<not> lost w j \<or> j = lattmp - 1)"
proof (induction w lattmp i loss rule: hole_right.induct)
  case (1 w lattmp i loss)
  show ?case
  proof (cases "lost w i \<and> i < lattmp - 1")
    case True
    then have "hole_right w lattmp (i + 1) (loss + 1) = (j, loss')"
      using 1(2) by (simp add: hole_right.simps [of w lattmp i] lost_def)
    then have "i + 1 \<le> j \<and> j < lattmp \<and> (\<forall>s. i + 1 \<le> s \<longrightarrow> s < j \<longrightarrow> lost w s) \<and> (\<not> lost w j \<or> j = lattmp - 1)"
      using 1(1) True unfolding lost_def by (metis Suc_eq_plus1 less_diff_conv)
    then show ?thesis
      using True by (metis Suc_eq_plus1 Suc_leD le_antisym not_less_eq_eq)
  next
    case False
    then have "j = i"
      using 1(2) by (simp add: hole_right.simps [of w lattmp i] lost_def split: if_splits)
    then show ?thesis using False 1(3) by auto
  qed
qed

definition holes_sound :: "u16 \<Rightarrow> u16 list \<Rightarrow> nat \<Rightarrow> nat \<Rightarrow> vmac_hole list \<Rightarrow> bool" where
  "holes_sound pad w base lattmp hs \<longleftrightarrow> length hs \<le> HOLES_MAX \<and>
     (\<forall>h \<in> set hs. ho_le h \<le> ho_re h \<and>
        (\<forall>s. hole_covers h s \<longrightarrow> base \<le> s \<and> Suc s < lattmp \<and> claimed pad w s))"

definition holes_cover :: "u16 list \<Rightarrow> nat \<Rightarrow> nat \<Rightarrow> nat \<Rightarrow> vmac_hole list \<Rightarrow> bool" where
  "holes_cover w base lattmp i hs \<longleftrightarrow>
     (\<forall>s. base \<le> s \<longrightarrow> s < i \<longrightarrow> Suc s < lattmp \<longrightarrow> lost w s \<longrightarrow> (\<exists>h \<in> set hs. hole_covers h s))"

lemma new_hole:
  assumes "hole_left pad w base i l = (tmp, l1)" and "hole_right w lattmp i l2 = (j, l3)"
    and "base \<le> i" "i < lattmp" "lattmp < 65536"
  defines "h \<equiv> \<lparr>ho_le = of_nat tmp, ho_re = of_nat j\<rparr>"
  shows "ho_le h \<le> ho_re h" and "hole_covers h s \<longleftrightarrow> tmp \<le> s \<and> s < j"
    and "hole_covers h s \<Longrightarrow> base \<le> s \<and> Suc s < lattmp \<and> claimed pad w s"
proof -
  note L = hole_left_spec [OF assms(1,3)] and R = hole_right_spec [OF assms(2,4)]
  have u: "unat (ho_le h) = tmp" "unat (ho_re h) = j"
    using L R assms(4,5) by (simp_all add: h_def unat_of_nat_u16)
  show "ho_le h \<le> ho_re h"
    using L R by (simp add: word_le_nat_alt u)
  show c: "hole_covers h s \<longleftrightarrow> tmp \<le> s \<and> s < j" for s
    by (simp add: hole_covers_def u)
  show "base \<le> s \<and> Suc s < lattmp \<and> claimed pad w s" if "hole_covers h s"
  proof (cases "s < i")
    case True
    then show ?thesis using that L R assms(4) by (auto simp: c)
  next
    case False
    then show ?thesis using that L R by (auto simp: c claimed_def)
  qed
qed

text \<open>One turn of the loop, by cases.\<close>

lemma holes_loop_stop:
  "\<not> (i < lattmp \<and> length hs < HOLES_MAX) \<Longrightarrow> holes_loop pad w base lattmp i hs loss = (hs, loss)"
  by (subst holes_loop.simps) auto

lemma holes_loop_step:
  "i < lattmp \<and> length hs < HOLES_MAX \<Longrightarrow> \<not> lost w i \<Longrightarrow>
   holes_loop pad w base lattmp i hs loss = holes_loop pad w base lattmp (i + 1) hs loss"
  by (subst holes_loop.simps) (simp add: lost_def)

lemma holes_loop_hole:
  "i < lattmp \<and> length hs < HOLES_MAX \<Longrightarrow> lost w i \<Longrightarrow>
   hole_left pad w base i loss = (tmp, l1) \<Longrightarrow> hole_right w lattmp i l1 = (j, l2) \<Longrightarrow>
   holes_loop pad w base lattmp i hs loss =
     holes_loop pad w base lattmp (j + 1) (hs @ [\<lparr>ho_le = of_nat tmp, ho_re = of_nat j\<rparr>]) l2"
  by (subst holes_loop.simps) (simp add: lost_def)

lemma holes_loop_spec:
  "holes_loop pad w base lattmp i hs loss = (hs', loss') \<Longrightarrow> lattmp < 65536 \<Longrightarrow> base \<le> i \<Longrightarrow>
   holes_sound pad w base lattmp hs \<Longrightarrow> holes_cover w base lattmp i hs \<Longrightarrow>
   holes_sound pad w base lattmp hs' \<and>
   (length hs' < HOLES_MAX \<longrightarrow> holes_cover w base lattmp lattmp hs')"
proof (induction pad w base lattmp i hs loss rule: holes_loop.induct)
  case (1 pad w base lattmp i hs loss)
  consider (stop) "\<not> (i < lattmp \<and> length hs < HOLES_MAX)"
    | (hole) "i < lattmp \<and> length hs < HOLES_MAX" "lost w i"
    | (step) "i < lattmp \<and> length hs < HOLES_MAX" "\<not> lost w i" by blast
  then show ?case
  proof cases
    case stop
    then have "hs' = hs"
      using 1(3) by (simp add: holes_loop_stop)
    moreover have "length hs < HOLES_MAX \<Longrightarrow> holes_cover w base lattmp lattmp hs"
      using stop 1(7) by (auto simp: holes_cover_def)
    ultimately show ?thesis using 1(6) by simp
  next
    case hole
    obtain tmp l1 where L: "hole_left pad w base i loss = (tmp, l1)" by fastforce
    obtain j l2 where R: "hole_right w lattmp i l1 = (j, l2)" by fastforce
    define h where "h = \<lparr>ho_le = of_nat tmp :: u16, ho_re = of_nat j\<rparr>"
    note H = new_hole [OF L R 1(5) conjunct1 [OF hole(1)] 1(4), folded h_def]
    note RS = hole_right_spec [OF R conjunct1 [OF hole(1)]]
    have "holes_loop pad w base lattmp (j + 1) (hs @ [h]) l2 = (hs', loss')"
      unfolding h_def using holes_loop_hole [OF hole L R] 1(3) by (rule trans [OF sym])
    moreover have "holes_sound pad w base lattmp (hs @ [h])"
      using 1(6) hole(1) H by (auto simp: holes_sound_def)
    moreover have "holes_cover w base lattmp (j + 1) (hs @ [h])"
      unfolding holes_cover_def
    proof (intro allI impI)
      fix s assume s: "base \<le> s" "s < j + 1" "Suc s < lattmp" "lost w s"
      then have "s \<noteq> j"
        using RS by auto
      then have "s < i \<or> i \<le> s \<and> s < j"
        using s(2) by linarith
      then show "\<exists>h' \<in> set (hs @ [h]). hole_covers h' s"
        using 1(7) s hole_left_spec [OF L 1(5)] by (auto simp: holes_cover_def H(2))
    qed
    ultimately show ?thesis
      using 1(1) [OF hole(1) hole(2) [unfolded lost_def] L [symmetric] refl R [symmetric] refl] 1(4,5) RS
      unfolding h_def by simp
  next
    case step
    have "holes_loop pad w base lattmp (i + 1) hs loss = (hs', loss')"
      using holes_loop_step [OF step] 1(3) by (rule trans [OF sym])
    moreover have "holes_cover w base lattmp (i + 1) hs"
      using step(2) 1(7) by (auto simp: holes_cover_def less_Suc_eq)
    ultimately show ?thesis
      using 1(2,4,5,6) step by (simp add: lost_def)
  qed
qed

definition window_base :: "u16 \<Rightarrow> nat" where
  "window_base lattmp = (if unat lattmp < WINDOW then 0 else unat lattmp - WINDOW)"

lemma holes_of_spec:
  assumes "holes_of pad w lattmp = (hs, loss)"
  shows "holes_sound pad w (window_base lattmp) (unat lattmp) hs"
    and "length hs < HOLES_MAX \<Longrightarrow> holes_cover w (window_base lattmp) (unat lattmp) (unat lattmp) hs"
proof -
  have "holes_loop pad w (window_base lattmp) (unat lattmp) (window_base lattmp) [] 0 = (hs, loss)"
    using assms by (simp add: holes_of_def window_base_def Let_def)
  from holes_loop_spec [OF this]
  show "holes_sound pad w (window_base lattmp) (unat lattmp) hs"
    and "length hs < HOLES_MAX \<Longrightarrow> holes_cover w (window_base lattmp) (unat lattmp) (unat lattmp) hs"
    by (auto simp: holes_sound_def holes_cover_def)
qed

text \<open>
  C7: The holes \<open>prepDACK\<close> reports for the frames before \<open>lattmp\<close>: at most forty; each lies in the
  window, claims only frames that are marked lost (or, when the half-word in front of the window is
  zero, the last frame of a window period), and never the newest frame; and with fewer than forty
  holes every lost frame of the window but the newest is in one.
\<close>
theorem holes_exact:
  "case holes_of pad w lattmp of (hs, loss) \<Rightarrow>
     length hs \<le> 40 \<and>
     (\<forall>h \<in> set hs. \<forall>s. hole_covers h s \<longrightarrow>
        window_base lattmp \<le> s \<and> s + 1 < unat lattmp \<and> (lost w s \<or> pad = 0 \<and> (s + 1) mod 700 = 0)) \<and>
     (length hs < 40 \<longrightarrow>
        (\<forall>s. window_base lattmp \<le> s \<longrightarrow> s + 1 < unat lattmp \<longrightarrow> lost w s \<longrightarrow>
          (\<exists>h \<in> set hs. hole_covers h s)))"
proof -
  obtain hs loss where h: "holes_of pad w lattmp = (hs, loss)" by fastforce
  show ?thesis
    using holes_of_spec [OF h]
    by (simp add: h holes_sound_def holes_cover_def claimed_def HOLES_MAX_def WINDOW_def)
qed

theorem holes_exact_witness:
  "holes_of 1 [1, 1, 1, 0, 0, 1, 1, 1, 1, 1] 10 = ([\<lparr>ho_le = 3, ho_re = 5\<rparr>], 2) \<and>
   (\<exists>h \<in> {\<lparr>ho_le = 3, ho_re = 5\<rparr>}. hole_covers h 4)"
proof -
  have h: "holes_of 1 [1, 1, 1, 0, 0, 1, 1, 1, 1, 1] 10 = ([\<lparr>ho_le = 3, ho_re = 5\<rparr>], 2)"
    by code_simp
  have "\<exists>h \<in> set [\<lparr>ho_le = 3, ho_re = 5\<rparr>]. hole_covers h 4"
    using holes_exact [where pad = 1 and w = "[1, 1, 1, 0, 0, 1, 1, 1, 1, 1]" and lattmp = 10, unfolded h prod.case]
    by (simp add: window_base_def WINDOW_def lost_def)
  then show ?thesis using h by simp
qed

section \<open>From the window to the air\<close>

definition dack_air :: "u64 \<Rightarrow> u16 \<Rightarrow> vmac_hole list \<Rightarrow> bytes" where
  "dack_air enc rnd holesy = vmac_hdr_bytes \<lparr>vh_enc = enc, vh_type = VMAC_HDR_DACK\<rparr> @ dack_frame enc rnd holesy"

lemma length_dack_frame [simp]: "length (dack_frame enc rnd holesy) = 4 + 4 * length holesy"
  by (simp add: dack_frame_def length_concat o_def sum_list_triv)

lemma length_dack_air [simp]: "length (dack_air enc rnd holesy) = 13 + 4 * length holesy"
  by (simp add: dack_air_def)

text \<open>What \<open>prepDACK\<close> does when the entry is there, the buffer is allocated and the lock is free.\<close>

lemma prepDACK_stores:
  assumes "find_rx env st enc = Some v" and "alloc_ok env (next_skb st)" and "9 \<le> NET_SKB_PAD env"
    and "dacklok_free env"
  shows "\<exists>st' v' skb. prepDACK env st enc rnd = Inr st' \<and> find_rx env st' enc = Some v' \<and>
    di_send (dac_info v') = 1 \<and> di_dack (dac_info v') = Some skb \<and>
    rx_window v' = rx_window v \<and> rx_key v' = rx_key v \<and> latest v' = latest v \<and> lastin v' = lastin v \<and>
    firstFrame v' = firstFrame v \<and> SecondFrame v' = SecondFrame v \<and> rx_pad v' = rx_pad v \<and>
    skb_id skb = next_skb st \<and> headroom skb = NET_SKB_PAD env - 9 \<and>
    skb_data skb = dack_air enc rnd (fst (holes_of (rx_pad v) (rx_window v) (rnd * 5))) \<and>
    (di_send (dac_info v) \<noteq> 1 \<longrightarrow> dack_timer v' \<noteq> None) \<and>
    effects st' = effects st @
      (case (if di_send (dac_info v) = 1 then di_dack (dac_info v) else None) of None \<Rightarrow> [] | Some old \<Rightarrow> [Kfree_skb (skb_id old)]) \<and>
    tx_enc st' = tx_enc st \<and> pidt st' = pidt st \<and> next_skb st' = Suc (next_skb st) \<and>
    (\<forall>k. hash env k \<noteq> hash env enc \<longrightarrow> find_rx env st' k = find_rx env st k)"
proof -
  obtain hs loss where h: "holes_of (rx_pad v) (rx_window v) (rnd * 5) = (hs, loss)" by fastforce
  define st1 where "st1 = st\<lparr>next_skb := Suc (next_skb st)\<rparr>"
  define skb where "skb = \<lparr>skb_id = next_skb st, headroom = NET_SKB_PAD env - 9, skb_data = dack_air enc rnd hs, tailroom = 159\<rparr>"
  define va where "va = v\<lparr>rx_alpha := (if 100 \<le> rx_alpha v then 100 else rx_alpha v)\<rparr>"
  have f1: "find_rx env st1 enc = Some v" and f2: "find_rx env st1 k = find_rx env st k" for k
    using assms(1) find_rx_cong [of st1 st env] by (simp_all add: st1_def)
  have s1: "effects st1 = effects st" "tx_enc st1 = tx_enc st" "pidt st1 = pidt st" "next_skb st1 = Suc (next_skb st)"
    by (simp_all add: st1_def)
  obtain v' ptr where s: "store_DACK env va skb rnd (dack_duration env (rx_alpha va) loss) = (v', ptr)" by fastforce
  have run: "prepDACK env st enc rnd = Inr (kfree_skb_opt ptr (put_rx env st1 enc v'))"
  proof -
    have put: "skb_put \<lparr>skb_id = next_skb st, headroom = NET_SKB_PAD env, skb_data = [], tailroom = 30 + 9 + 4 + length hs * 4 + BUFFER_ROOM\<rparr>
        (dack_frame enc rnd hs) = Inr \<lparr>skb_id = next_skb st, headroom = NET_SKB_PAD env, skb_data = dack_frame enc rnd hs, tailroom = 159\<rparr>"
      by (simp add: BUFFER_ROOM_def)
    have push: "skb_push \<lparr>skb_id = next_skb st, headroom = NET_SKB_PAD env, skb_data = dack_frame enc rnd hs, tailroom = 159\<rparr>
        (vmac_hdr_bytes \<lparr>vh_enc = enc, vh_type = VMAC_HDR_DACK\<rparr>) = Inr skb"
      using assms(3) by (simp add: skb_def dack_air_def)
    have alloc: "dev_alloc_skb env n st = (Some \<lparr>skb_id = next_skb st, headroom = NET_SKB_PAD env, skb_data = [], tailroom = n\<rparr>, st1)" for n
      using assms(2) by (simp add: dev_alloc_skb_def st1_def)
    show ?thesis
      unfolding prepDACK_def Let_def assms(1) option.case rbind_Inr h prod.case alloc put push f1 va_def [symmetric] s
      using assms(4) by simp
  qed
  have fk: "find_rx env (kfree_skb_opt q st') k = find_rx env st' k" for q st' k
    by (rule find_rx_cong) simp
  have v': "di_send (dac_info v') = 1" "di_dack (dac_info v') = Some skb"
    "rx_window v' = rx_window v" "rx_key v' = rx_key v" "latest v' = latest v" "lastin v' = lastin v"
    "firstFrame v' = firstFrame v" "SecondFrame v' = SecondFrame v" "rx_pad v' = rx_pad v"
    "di_send (dac_info v) \<noteq> 1 \<longrightarrow> dack_timer v' \<noteq> None"
    "ptr = (if di_send (dac_info v) = 1 then di_dack (dac_info v) else None)"
    using s by (auto simp: store_DACK_def Let_def va_def split: if_splits)
  show ?thesis
    by (intro exI [of _ "kfree_skb_opt ptr (put_rx env st1 enc v')"] exI [of _ v'] exI [of _ skb])
      (simp add: run fk rxtab.find_put f2 v' h s1, simp add: skb_def)
qed

lemma sendDACK_pending:
  assumes "find_rx env st enc = Some v" and "dacklok_free env" and "di_send (dac_info v) = 1"
    and "di_dack (dac_info v) = Some skb"
  shows "\<exists>st1. sendDACK env st enc = vmac_send_hack env st1 skb \<and> effects st1 = effects st \<and>
    find_rx env st1 enc = Some (v\<lparr>dack_timer := None, dac_info := (dac_info v)\<lparr>di_send := 0, di_dack := None\<rparr>\<rparr>) \<and>
    tx_enc st1 = tx_enc st"
  using assms
  by (intro exI [of _ "put_rx env st enc (v\<lparr>dack_timer := None, dac_info := (dac_info v)\<lparr>di_send := 0, di_dack := None\<rparr>\<rparr>)"])
    (simp add: sendDACK_def Let_def rxtab.find_put)

text \<open>
  C8: The holes reach the air: when no DACK is pending, \<open>prepDACK\<close> stores one and arms the timer, and
  when the timer runs the driver gets one frame, the 802.11 and V-MAC headers, the number of holes
  and the round, and the holes, and the buffer is given back; this needs a headroom of 39 bytes in
  the buffer, which the code does not reserve and takes from the kernel's \<open>NET_SKB_PAD\<close>.
\<close>
theorem DACK_reaches_air:
  assumes "find_rx env st enc = Some v" and "alloc_ok env (next_skb st)" and "dacklok_free env"
    and "di_send (dac_info v) = 0" and "39 \<le> NET_SKB_PAD env" and "tx_ready env 173"
  shows "\<exists>st1 st2 v' pa. prepDACK env st enc rnd = Inr st1 \<and> find_rx env st1 enc = Some v' \<and>
    dack_timer v' \<noteq> None \<and> sendDACK env st1 enc = Inr st2 \<and>
    effects st2 = effects st @
      [Dump_mgntframe pa (air_frame env (dack_air enc rnd (fst (holes_of (rx_pad v) (rx_window v) (rnd * 5))))),
       Kfree_skb (next_skb st)]"
proof -
  obtain hs loss where h: "holes_of (rx_pad v) (rx_window v) (rnd * 5) = (hs, loss)" by fastforce
  obtain st1 v' skb where p: "prepDACK env st enc rnd = Inr st1" "find_rx env st1 enc = Some v'"
    "di_send (dac_info v') = 1" "di_dack (dac_info v') = Some skb" "dack_timer v' \<noteq> None"
    "skb_id skb = next_skb st" "headroom skb = NET_SKB_PAD env - 9" "skb_data skb = dack_air enc rnd hs"
    "effects st1 = effects st"
    using prepDACK_stores [OF assms(1,2) _ assms(3), of rnd] assms(4,5) h by auto
  obtain st1' where s: "sendDACK env st1 enc = vmac_send_hack env st1' skb" "effects st1' = effects st1"
    using sendDACK_pending [OF p(2) assms(3) p(3,4)] by blast
  have "length hs \<le> 40"
    using holes_of_spec(1) [OF h] by (simp add: holes_sound_def HOLES_MAX_def)
  then have "tx_ready env (length (skb_data skb))"
    using assms(6) p(8) by (auto simp: tx_ready_def)
  then have "vmac_send_hack env st1' skb = Inr (tx_sent env st1' skb 1 0 1 0)"
    using assms(5) p(7) by (simp add: vmac_send_hack_def vmac_low_tx_sent)
  then show ?thesis
    using p s
    by (intro exI [of _ st1] exI [of _ "tx_sent env st1' skb 1 0 1 0"] exI [of _ v']
        exI [of _ "tx_attrib env st1' (air_frame env (skb_data skb)) 1 0 1 0"]) (simp add: h)
qed

text \<open>
  C29: On a machine whose \<open>NET_SKB_PAD\<close> is below 39 (it is 32 where cache lines have 32 bytes) every
  DACK that is due brings the kernel down: the push of the 802.11 header panics.
\<close>
theorem DACK_headroom_panic:
  assumes "find_rx env st enc = Some v" and "alloc_ok env (next_skb st)" and "dacklok_free env"
    and "di_send (dac_info v) = 0" and "9 \<le> NET_SKB_PAD env" and "NET_SKB_PAD env < 39"
    and "wf_ieee80211_hdr (stack_hdr env)"
  shows "\<exists>st1. prepDACK env st enc rnd = Inr st1 \<and> sendDACK env st1 enc = Inl Skb_under_panic"
proof -
  obtain st1 v' skb where p: "prepDACK env st enc rnd = Inr st1" "find_rx env st1 enc = Some v'"
    "di_send (dac_info v') = 1" "di_dack (dac_info v') = Some skb" "headroom skb = NET_SKB_PAD env - 9"
    using prepDACK_stores [OF assms(1,2,5,3), of rnd] by auto
  obtain st1' where s: "sendDACK env st1 enc = vmac_send_hack env st1' skb"
    using sendDACK_pending [OF p(2) assms(3) p(3,4)] by blast
  then show ?thesis
    using p assms(6,7) by (simp add: vmac_send_hack_def vmac_low_tx_panic)
qed

lemma example_env_simps:
  "alloc_ok example_env n" "dacklok_free example_env" "NET_SKB_PAD example_env = 64"
  "wf_ieee80211_hdr (stack_hdr example_env)" "di_send (dac_info example_rx) = 0"
  "vmalloc_rx example_env = Some example_rx" "vmalloc_tx example_env = Some example_tx" "jiffies example_env = 1000"
  by (simp_all add: example_env_def example_hdr_def wf_ieee80211_hdr_def, simp add: example_rx_def)

theorem DACK_reaches_air_witness:
  "\<exists>st1 st2. prepDACK example_env example_state 7 2 = Inr st1 \<and> sendDACK example_env st1 7 = Inr st2"
  using DACK_reaches_air [of example_env example_state 7 example_rx 2]
  by (auto simp: example_env_simps)

theorem DACK_headroom_panic_witness:
  "\<exists>st1. prepDACK (example_env\<lparr>NET_SKB_PAD := 32\<rparr>) example_state 7 2 = Inr st1 \<and>
     sendDACK (example_env\<lparr>NET_SKB_PAD := 32\<rparr>) st1 7 = Inl Skb_under_panic"
proof (rule DACK_headroom_panic)
  show "find_rx (example_env\<lparr>NET_SKB_PAD := 32\<rparr>) example_state 7 = Some example_rx"
    using example_tables(2) by (simp add: find_rx_def)
qed (simp_all add: example_env_simps)
end
