(* ===== verification/Vmac_Rx.thy ===== *)
theory Vmac_Rx
  imports Dack
begin

text \<open>
  The receiving side: \<^verbatim>\<open>kernel/core/rx.c\<close> (\<open>vmac_rx\<close>, \<open>nl_send\<close>, \<open>ieee80211_rx_vmac\<close>) and the hook of
  \<^verbatim>\<open>kernel/core/rtw_recv.c\<close> that hands it the driver's frames (\<open>vmac_override\<close>,
  \<open>recv_frame_monitor\<close>).
\<close>

section \<open>nl_send\<close>

text \<open>
  With no receiver registered the code frees \<open>skb_out\<close>, which it never set. With one, the message
  is handed to \<open>nlmsg_unicast\<close>, which takes it over, and freed again afterwards: the kernel goes on from
  there, so this is not a fault of the model but two entries of \<open>effects\<close> for one message. The copy of
  \<open>skb->len - 4\<close> bytes takes an unsigned difference.
\<close>

definition nl_send :: "kenv \<Rightarrow> vmac \<Rightarrow> sk_buff \<Rightarrow> u64 \<Rightarrow> u8 \<Rightarrow> u16 \<Rightarrow> vmac res" where
  "nl_send env st skb enc type seq =
     (if pidt st = -1 then Inl Bad_free
      else if \<not> alloc_ok env (next_skb st) then Inr (st\<lparr>next_skb := Suc (next_skb st)\<rparr>)
      else
        (let skb_out = next_skb st;
             st = st\<lparr>next_skb := Suc (next_skb st)\<rparr>;
             nlmsg_len = of_nat (length (skb_data skb)) - 4 + 100;
             nlmsg_len = (if nlmsg_len < 100 then 100 else nlmsg_len);
             txc = (stack_ctl env)\<lparr>ct_enc := enc, ct_seq := seq, ct_type := type\<rparr>
         in if length (skb_data skb) < 4 then Inl Bad_copy_length
            else
              (let m = \<lparr>nm_skb = skb_out, nm_pid = pidt st, nm_len = nlmsg_len, nm_control = txc,
                        nm_payload = take (length (skb_data skb) - 4) (skb_data skb)\<rparr>
               in Inr (emit (Kfree_skb skb_out) (kfree_skb skb (emit (Nlmsg_unicast m) st))))))"

section \<open>vmac_rx: data frames\<close>

text \<open>The loop that marks the frames between the latest one and a newer one as lost.\<close>

definition window_slot :: "u16 \<Rightarrow> nat" where
  "window_slot seq = (if WINDOW \<le> unat seq then unat seq mod WINDOW else unat seq)"

function advance_window :: "u16 list \<Rightarrow> u16 \<Rightarrow> u16 \<Rightarrow> u16 list \<times> u16" where
  "advance_window w lt seq =
     (if lt < seq then advance_window (w[window_slot (lt + 1) := 0]) (lt + 1) seq
      else (w, lt))"
  by pat_completeness auto
termination
  by (relation "measure (\<lambda>(w, lt, seq). unat seq - unat lt)") (simp_all add: word_measure_less)

declare advance_window.simps [simp del]

text \<open>
  The average distance of two frames: the difference of the sequence numbers is an \<open>int\<close> that is
  converted to \<open>unsigned long\<close> for the division, so a negative one is a huge divisor.
\<close>

definition new_alpha :: "kenv \<Rightarrow> u32 \<Rightarrow> u16 \<Rightarrow> u16 \<Rightarrow> u32 res" where
  "new_alpha env first seq last_seq =
     (let d = ucast seq - ucast last_seq :: u64
      in if d = 0 then Inl Division_by_zero
         else Inr (ucast ((jiffies env - ucast first) div d)))"

text \<open>
  The data branch on the entry: \<open>None\<close> when the frame is a duplicate. The sequence number a new
  DACK round starts from is compared as an \<open>int\<close>, so none starts before the fifth frame.
\<close>

definition rx_data_window :: "encoding_rx \<Rightarrow> u16 \<Rightarrow> encoding_rx option" where
  "rx_data_window vmacr seq =
     (let accept = (\<lambda>v. v\<lparr>rx_window :=
             (if (if WINDOW \<le> unat (latest v) then unat (latest v) mod WINDOW else 0) \<le> unat seq
              then (rx_window v)[window_slot seq := 1] else rx_window v)\<rparr>)
      in if latest vmacr < seq then
           (case advance_window (rx_window vmacr) (latest vmacr) seq of
              (w, l) \<Rightarrow> Some (accept (vmacr\<lparr>rx_window := w, latest := l\<rparr>)))
         else if rx_window vmacr ! window_slot seq = 1 then None
         else Some (accept vmacr))"

definition rx_data_alpha :: "kenv \<Rightarrow> encoding_rx \<Rightarrow> u16 \<Rightarrow> encoding_rx res" where
  "rx_data_alpha env vmacr seq =
     rbind (if firstFrame vmacr = 0 then Inr (vmacr\<lparr>firstFrame := ucast (jiffies env)\<rparr>)
            else if SecondFrame vmacr = 0 then
              rbind (new_alpha env (firstFrame vmacr) seq (lastin vmacr)) (\<lambda>a.
              Inr (vmacr\<lparr>SecondFrame := ucast (jiffies env), rx_alpha := a, firstFrame := 0\<rparr>))
            else Inr vmacr)
       (\<lambda>vmacr. Inr (vmacr\<lparr>lastin := seq\<rparr>))"

definition rx_data_round :: "kenv \<Rightarrow> vmac \<Rightarrow> u64 \<Rightarrow> encoding_rx \<Rightarrow> u16 \<Rightarrow> vmac res" where
  "rx_data_round env st enc vmacr seq =
     (if int (unat (rx_round vmacr)) \<le> int (unat seq) - 5 then
        (let vmacr = vmacr\<lparr>rx_round := of_nat (unat seq div 5)\<rparr>;
             st = put_rx env st enc vmacr
         in rbind (request_DACK env st enc (rx_round vmacr)) (\<lambda>st.
            case find_rx env st enc of
              None \<Rightarrow> Inl Null_deref
            | Some vmacr \<Rightarrow> Inr (put_rx env st enc (vmacr\<lparr>rx_round := seq\<rparr>))))
      else Inr (put_rx env st enc vmacr))"

text \<open>The result says whether the frame goes on to \<open>nl_send\<close>; a dropped frame is given back.\<close>

definition vmac_rx_data :: "kenv \<Rightarrow> vmac \<Rightarrow> sk_buff \<Rightarrow> u64 \<Rightarrow> ((sk_buff \<times> u16) option \<times> vmac) res" where
  "vmac_rx_data env st skb enc =
     rbind (read_vmac_data (skb_data skb)) (\<lambda>seq.
     case find_rx env st enc of
       None \<Rightarrow> Inr (None, kfree_skb skb st)
     | Some vmacr \<Rightarrow>
         (let vmacr = vmacr\<lparr>rx_enc_timeout := Some (jiffies env + msecs_to_jiffies env 30000)\<rparr>
          in case rx_data_window vmacr seq of
               None \<Rightarrow> Inr (None, kfree_skb skb (put_rx env st enc vmacr))
             | Some vmacr \<Rightarrow>
                 rbind (rx_data_alpha env vmacr seq) (\<lambda>vmacr.
                 rbind (rx_data_round env st enc vmacr seq) (\<lambda>st.
                 Inr (Some (skb_pull skb 2, seq), st)))))"

section \<open>vmac_rx: DACK frames\<close>

text \<open>
  The state of the loops: the sending entry, \<open>counter\<close>, \<open>skb2\<close>. The pointer \<open>skb2\<close> keeps its value from
  one turn to the next; the flag says that the buffer it points to was given back, which
  \<open>xmit_mo\<close> does unless it found no frame. The test at \<open>le > WINDOW_TX\<close> lets \<open>le = WINDOW_TX\<close> through as
  an index, one past the end.
\<close>

record dack_loop =
  dl_st :: vmac
  dl_vmact :: encoding_tx
  dl_counter :: nat
  dl_skb2 :: "(sk_buff \<times> bool) option"

definition maxretx :: nat where "maxretx = 20"

definition dack_resend :: "kenv \<Rightarrow> dack_loop \<Rightarrow> dack_loop res" where
  "dack_resend env dl =
     (case dl_skb2 dl of
        None \<Rightarrow> Inr dl
      | Some (skb2, freed) \<Rightarrow>
          if freed then Inl Use_after_free
          else
            rbind (skb_push skb2 (ieee80211_hdr_bytes (low_tx_hdr env))) (\<lambda>pushed.
            rbind (vmac_send_hack env (dl_st dl) skb2) (\<lambda>st.
            Inr (dl\<lparr>dl_st := st, dl_skb2 := Some (pushed, fst (monitor_alloc_mgtxmitframe env)),
                    dl_vmact := (dl_vmact dl)\<lparr>framecount := framecount (dl_vmact dl) + 1\<rparr>\<rparr>))))"

definition dack_one :: "kenv \<Rightarrow> u16 \<Rightarrow> u16 \<Rightarrow> dack_loop \<Rightarrow> dack_loop res" where
  "dack_one env round le dl =
     (let slot = unat le mod WINDOW_TX;
          vmact = dl_vmact dl
      in rbind (array_get (retransmission_buffer vmact)
                  (if WINDOW_TX < unat le then slot else unat le)) (\<lambda>b.
         (let dl = (case b of
                      None \<Rightarrow> dl
                    | Some _ \<Rightarrow>
                        (case retransmission_buffer vmact ! slot of
                           None \<Rightarrow> dl
                         | Some c \<Rightarrow>
                             (case skb_copy env c (dl_st dl) of (skb2, st) \<Rightarrow>
                                dl\<lparr>dl_st := st, dl_counter := dl_counter dl + 1,
                                   dl_skb2 := map_option (\<lambda>s. (s, False)) skb2\<rparr>)));
              dl = dl\<lparr>dl_vmact := (dl_vmact dl)\<lparr>tx_timer :=
                        (tx_timer vmact)[slot := ucast (round + 6)]\<rparr>\<rparr>
          in dack_resend env dl)))"

text \<open>The frames of one hole, from \<open>le\<close> on.\<close>

function dack_hole :: "kenv \<Rightarrow> u16 \<Rightarrow> u16 \<Rightarrow> u16 \<Rightarrow> u16 \<Rightarrow> dack_loop \<Rightarrow> dack_loop res" where
  "dack_hole env round seq re le dl =
     (if le < re \<and> le < seq then
        if ucast (tx_timer (dl_vmact dl) ! (unat le mod WINDOW_TX)) \<le> round \<and>
           (if unat seq < WINDOW_TX then 0 else unat seq - WINDOW_TX) \<le> unat le
        then
          if maxretx \<le> dl_counter dl then Inr dl
          else rbind (dack_one env round le dl) (\<lambda>dl. dack_hole env round seq re (le + 1) dl)
        else dack_hole env round seq re (le + 1) dl
      else Inr dl)"
  by pat_completeness auto
termination
  by (relation "measure (\<lambda>(env, round, seq, re, le, dl). unat re - unat le)")
    (auto intro: word_measure_less)

declare dack_hole.simps [simp del]

text \<open>The holes of the frame; the second argument counts the ones left.\<close>

fun dack_holes :: "kenv \<Rightarrow> u16 \<Rightarrow> u16 \<Rightarrow> nat \<Rightarrow> sk_buff \<Rightarrow> dack_loop \<Rightarrow> (sk_buff \<times> dack_loop) res" where
  "dack_holes env round seq 0 skb dl = Inr (skb, dl)"
| "dack_holes env round seq (Suc left) skb dl =
     rbind (read_vmac_hole (skb_data skb)) (\<lambda>hole.
     rbind (dack_hole env round seq (ho_re hole) (ho_le hole) dl) (\<lambda>dl.
     dack_holes env round seq left (skb_pull skb 4) dl))"

text \<open>
  The whole branch. The receive entry is looked up and then forgotten (\<open>vmacr = NULL\<close>), so the part
  that would hold back the own DACK is never reached.
\<close>

definition vmac_rx_DACK :: "kenv \<Rightarrow> vmac \<Rightarrow> sk_buff \<Rightarrow> u64 \<Rightarrow> vmac res" where
  "vmac_rx_DACK env st skb enc =
     rbind (read_vmac_DACK (skb_data skb)) (\<lambda>ddr.
     (let skb = skb_pull skb 4
      in case find_tx env st enc of
           None \<Rightarrow> Inr (kfree_skb skb st)
         | Some vmact \<Rightarrow>
             (let seq = tx_seq vmact;
                  vmact = vmact\<lparr>dackcounter := dackcounter vmact + 1\<rparr>
              in rbind (dack_holes env (dk_round ddr) seq (unat (dk_holes ddr)) skb
                    \<lparr>dl_st = st, dl_vmact = vmact, dl_counter = 0, dl_skb2 = None\<rparr>) (\<lambda>(skb, dl).
                 Inr (kfree_skb skb (put_tx env (dl_st dl) enc (dl_vmact dl)))))))"

section \<open>vmac_rx\<close>

definition vmac_rx :: "kenv \<Rightarrow> vmac \<Rightarrow> sk_buff \<Rightarrow> vmac res" where
  "vmac_rx env st skb =
     rbind (read_vmac_hdr (skb_data skb)) (\<lambda>vmachdr.
     (let type = vh_type vmachdr; enc = vh_enc vmachdr; skb = skb_pull skb 9
      in if type = VMAC_HDR_INTEREST then nl_send env st skb enc type 0
         else if type = VMAC_HDR_DATA then
           rbind (vmac_rx_data env st skb enc) (\<lambda>(r, st).
           case r of None \<Rightarrow> Inr st | Some (skb, seq) \<Rightarrow> nl_send env st skb enc type seq)
         else if type = VMAC_HDR_DACK then vmac_rx_DACK env st skb enc
         else if type = VMAC_HDR_ANOUNCMENT then nl_send env st skb enc type 0
         else if type = VMAC_HDR_INJECTED then
           rbind (read_vmac_data (skb_data skb)) (\<lambda>seq.
           nl_send env st (skb_pull skb 2) enc type seq)
         else Inr (kfree_skb skb st)))"

text \<open>
  \<open>ieee80211_rx_vmac\<close>, with \<open>ENABLE_OVERHEARING\<close> as an argument: it looks at the second address; a
  DACK is dropped without being given back.
\<close>

definition ieee80211_rx_vmac :: "bool \<Rightarrow> kenv \<Rightarrow> vmac \<Rightarrow> sk_buff \<Rightarrow> vmac res" where
  "ieee80211_rx_vmac ENABLE_OVERHEARING env st skb =
     rbind (require (12 \<le> length (skb_data skb)) Read_past_end) (\<lambda>_.
     if skb_data skb ! 10 = 0xfe \<and> skb_data skb ! 11 = 0xfe then
       (let skb = skb_pull skb 30
        in rbind (read_vmac_hdr (skb_data skb)) (\<lambda>vmachdr.
           (let type = vh_type vmachdr
            in if type = VMAC_HDR_INTEREST \<or> type = VMAC_HDR_DATA \<or>
                  type = VMAC_HDR_ANOUNCMENT \<or> type = VMAC_HDR_INJECTED then vmac_rx env st skb
               else if type = VMAC_HDR_DACK then Inr st
               else Inr (kfree_skb skb st))))
     else if ENABLE_OVERHEARING then nl_send env st skb 0 V_MAC_OVERHEAR 0
     else Inr (kfree_skb skb st))"

section \<open>The hook in the driver\<close>

text \<open>
  A received frame of the driver: its identity in the pool of receive frames, the bytes \<open>rx_data\<close>
  points to (a radiotap header, then the frame) and the socket buffer, if any. The result is the
  code's return value: 1 is \<open>_SUCCESS\<close>, 0 is \<open>_FAIL\<close>. Both leave through \<open>vmac_free_recvframe\<close>.
\<close>

record recv_frame =
  rf_id :: nat
  rf_data :: bytes
  rf_pkt :: "sk_buff option"

definition vmac_free_recvframe :: "recv_frame \<Rightarrow> vmac \<Rightarrow> vmac" where
  "vmac_free_recvframe rf st = emit (Free_recvframe (rf_id rf)) st"

definition vmac_override :: "kenv \<Rightarrow> vmac \<Rightarrow> recv_frame \<Rightarrow> (nat \<times> vmac) res" where
  "vmac_override env st rf =
     (case rf_pkt rf of
        None \<Rightarrow> Inr (0, vmac_free_recvframe rf st)
      | Some skb \<Rightarrow>
          (let skb = skb\<lparr>skb_data := rf_data rf\<rparr>;
               it_len = unat (of_le_bytes (take 2 (drop 2 (skb_data skb))) :: u16)
           in rbind (require (4 \<le> length (skb_data skb) \<and> it_len + 19 \<le> length (skb_data skb))
                       Read_past_end) (\<lambda>_.
              rbind (if take 3 (drop (it_len + 16) (skb_data skb)) = [0xfe, 0xfe, 0xfe]
                     then vmac_rx env st (skb_pull (skb_pull skb it_len) 30)
                     else Inr (kfree_skb skb st)) (\<lambda>st.
              Inr (1, vmac_free_recvframe rf st)))))"

end
