(* ===== verification/Siphash.thy ===== *)
theory Siphash
  imports Vmac_Prelude
begin

text \<open>
  The 64-bit encoding of an interest name (\<^verbatim>\<open>userspace/csiphash.c\<close>): SipHash-2-4 with the code's
  macros, its loop over 8-byte words and its fall-through switch over the remaining bytes. The
  machine is little-endian, so \<^verbatim>\<open>_le64toh\<close> is the identity and a 64-bit load is
  \<^const>\<open>of_le_bytes\<close> of eight bytes. The reference definition \<open>sip_spec\<close> is the published
  algorithm on a padded message.
\<close>

section \<open>The code\<close>

type_synonym sip_state = "u64 \<times> u64 \<times> u64 \<times> u64"

definition ROTATE :: "u64 \<Rightarrow> nat \<Rightarrow> u64" where
  "ROTATE x b = push_bit b x OR drop_bit (64 - b) x"

definition HALF_ROUND :: "nat \<Rightarrow> nat \<Rightarrow> u64 \<times> u64 \<times> u64 \<times> u64 \<Rightarrow> u64 \<times> u64 \<times> u64 \<times> u64" where
  "HALF_ROUND s t = (\<lambda>(a, b, c, d).
     let a = a + b;
         c = c + d;
         b = ROTATE b s XOR a;
         d = ROTATE d t XOR c;
         a = ROTATE a 32
     in (a, b, c, d))"

text \<open>The second and fourth half rounds take the arguments in the order v2, v1, v0, v3.\<close>

definition swap02 :: "sip_state \<Rightarrow> sip_state" where
  "swap02 = (\<lambda>(v0, v1, v2, v3). (v2, v1, v0, v3))"

definition DOUBLE_ROUND :: "sip_state \<Rightarrow> sip_state" where
  "DOUBLE_ROUND v =
     (let v = HALF_ROUND 13 16 v;
          v = swap02 (HALF_ROUND 17 21 (swap02 v));
          v = HALF_ROUND 13 16 v;
          v = swap02 (HALF_ROUND 17 21 (swap02 v))
      in v)"

text \<open>One pass of the loop body: \<open>v3 ^= mi; DOUBLE_ROUND; v0 ^= mi\<close>.\<close>

definition sip_absorb :: "sip_state \<Rightarrow> u64 \<Rightarrow> sip_state" where
  "sip_absorb = (\<lambda>(v0, v1, v2, v3) mi.
     case DOUBLE_ROUND (v0, v1, v2, v3 XOR mi) of
       (v0, v1, v2, v3) \<Rightarrow> (v0 XOR mi, v1, v2, v3))"

fun sip_loop :: "sip_state \<Rightarrow> bytes \<Rightarrow> nat \<Rightarrow> sip_state \<times> bytes \<times> nat" where
  "sip_loop v inp src_sz =
     (if src_sz \<ge> 8
      then sip_loop (sip_absorb v (of_le_bytes (take 8 inp))) (drop 8 inp) (src_sz - 8)
      else (v, inp, src_sz))"

declare sip_loop.simps [simp del]

text \<open>
  The switch on the number of bytes left. Cases 7, 6 and 5 store one byte and fall through to
  case 4, which stores four bytes and breaks; cases 3, 2 and 1 store one byte each.
\<close>

definition sip_tail :: "nat \<Rightarrow> bytes \<Rightarrow> bytes" where
  "sip_tail src_sz m =
     (let pt = replicate 8 0;
          pt = (if src_sz = 7 then pt[6 := m ! 6] else pt);
          pt = (if src_sz \<in> {6, 7} then pt[5 := m ! 5] else pt);
          pt = (if src_sz \<in> {5, 6, 7} then pt[4 := m ! 4] else pt)
      in if src_sz \<in> {4, 5, 6, 7}
         then pt[0 := m ! 0, 1 := m ! 1, 2 := m ! 2, 3 := m ! 3]
         else
           (let pt = (if src_sz = 3 then pt[2 := m ! 2] else pt);
                pt = (if src_sz \<in> {2, 3} then pt[1 := m ! 1] else pt);
                pt = (if src_sz \<in> {1, 2, 3} then pt[0 := m ! 0] else pt)
            in pt))"

definition sip_init :: "bytes \<Rightarrow> sip_state" where
  "sip_init key =
     (let k0 = of_le_bytes (take 8 key); k1 = of_le_bytes (take 8 (drop 8 key))
      in (k0 XOR 0x736f6d6570736575, k1 XOR 0x646f72616e646f6d,
          k0 XOR 0x6c7967656e657261, k1 XOR 0x7465646279746573))"

definition sip_finish :: "sip_state \<Rightarrow> u64" where
  "sip_finish = (\<lambda>(v0, v1, v2, v3).
     case DOUBLE_ROUND (DOUBLE_ROUND (v0, v1, v2 XOR 0xff, v3)) of
       (v0, v1, v2, v3) \<Rightarrow> (v0 XOR v1) XOR (v2 XOR v3))"

text \<open>
  \<open>siphash24(src, src_sz, key)\<close>: the code reads the first \<open>src_sz\<close> bytes of \<open>src\<close> and sixteen
  bytes of the key.
\<close>

definition siphash24 :: "bytes \<Rightarrow> nat \<Rightarrow> bytes \<Rightarrow> u64 res" where
  "siphash24 src src_sz key =
     (if length src < src_sz \<or> length key < 16 then Inl Read_past_end
      else
        (case sip_loop (sip_init key) src src_sz of (v, m, rest) \<Rightarrow>
           let b = push_bit 56 (of_nat src_sz) OR of_le_bytes (sip_tail rest m)
           in Inr (sip_finish (sip_absorb v b))))"

section \<open>The published algorithm\<close>

text \<open>
  The message is padded with zeros to seven bytes more than a multiple of eight, one byte with its
  length modulo 256 is appended, and the 8-byte words are absorbed in order.
\<close>

fun words64 :: "bytes \<Rightarrow> u64 list" where
  "words64 bs = (if length bs < 8 then [] else of_le_bytes (take 8 bs) # words64 (drop 8 bs))"

declare words64.simps [simp del]

definition sip_pad :: "bytes \<Rightarrow> bytes" where
  "sip_pad msg = msg @ replicate (7 - length msg mod 8) 0 @ [of_nat (length msg)]"

definition sip_spec :: "bytes \<Rightarrow> bytes \<Rightarrow> u64" where
  "sip_spec key msg = sip_finish (foldl sip_absorb (sip_init key) (words64 (sip_pad msg)))"

section \<open>Facts\<close>

lemma ROTATE_bit:
  assumes "0 < b" and "b < 64" and "k < 64"
  shows "bit (ROTATE x b) k \<longleftrightarrow> bit x (if b \<le> k then k - b else k + 64 - b)"
proof -
  have "\<not> bit x (64 - b + k)" if "b \<le> k"
    using that assms bit_imp_le_length [of x "64 - b + k"] by auto
  moreover have "64 - b + k = k + 64 - b" if "k < b"
    using that assms by simp
  ultimately show ?thesis
    using assms by (auto simp: ROTATE_def bit_simps)
qed

lemma sip_tail_eq:
  assumes "n < 8" and "length m \<ge> n"
  shows "sip_tail n m = take n m @ replicate (8 - n) 0"
proof -
  have "take n m = map ((!) m) [0..<n]"
    using assms(2) by (intro nth_equalityI) simp_all
  moreover have "n \<in> {0, 1, 2, 3, 4, 5, 6, 7}"
    using assms(1) by auto
  ultimately show ?thesis
    by (elim insertE emptyE) (simp_all add: sip_tail_def Let_def upt_rec numeral_eq_Suc)
qed

lemma sip_last_word:
  assumes "length bs < 8"
  shows "of_le_bytes (bs @ replicate (7 - length bs) 0 @ [of_nat n]) =
    push_bit 56 (of_nat n) OR (of_le_bytes (bs @ replicate (8 - length bs) 0) :: u64)"
proof (rule bit_word_eqI)
  fix k assume "k < LENGTH(64)"
  then have k: "k < 64" by simp
  let ?l = "bs @ replicate (7 - length bs) 0 @ [of_nat n]"
  let ?r = "bs @ replicate (8 - length bs) (0 :: u8)"
  have eq: "?r ! (k div 8) = (if k div 8 < 7 then ?l ! (k div 8) else 0)"
    using k assms by (auto simp: nth_append)
  have top: "?l ! 7 = of_nat n" and low: "?r ! 7 = 0"
    using assms by (simp_all add: nth_append)
  show "bit (of_le_bytes ?l :: u64) k = bit (push_bit 56 (of_nat n) OR (of_le_bytes ?r :: u64)) k"
  proof (cases "k div 8 < 7")
    case True
    then have "k < 56" by auto
    then show ?thesis
      using k True assms by (simp add: bit_simps bit_of_le_bytes eq)
  next
    case False
    then have d: "k div 8 = 7"
      using k by auto
    then have m: "k mod 8 = k - 56" and le: "56 \<le> k"
      using div_mult_mod_eq [of k 8] by simp_all
    show ?thesis
      using k d m le assms
      by (simp add: bit_simps bit_of_le_bytes top low) arith
  qed
qed

lemma words64_short [simp]: "length bs < 8 \<Longrightarrow> words64 bs = []"
  by (subst words64.simps) simp

lemma words64_long [simp]:
  "length w = 8 \<Longrightarrow> words64 (w @ bs) = of_le_bytes w # words64 bs"
  by (subst words64.simps) simp

lemma words64_append:
  "length xs = 8 * k \<Longrightarrow> words64 (xs @ ys) = words64 xs @ words64 ys"
proof (induction k arbitrary: xs)
  case 0
  then show ?case by simp
next
  case (Suc k)
  then have l: "length (take 8 xs) = 8" by simp
  have "words64 ((take 8 xs @ drop 8 xs) @ ys) = words64 (take 8 xs @ drop 8 xs) @ words64 ys"
    unfolding append.assoc words64_long [OF l] using Suc by simp
  then show ?case by simp
qed

lemma sip_loop_short [simp]: "n < 8 \<Longrightarrow> sip_loop v inp n = (v, inp, n)"
  by (subst sip_loop.simps) simp

lemma sip_loop_long [simp]:
  "length w = 8 \<Longrightarrow> sip_loop v (w @ inp) (n + 8) = sip_loop (sip_absorb v (of_le_bytes w)) inp n"
  by (subst sip_loop.simps) simp

lemma sip_loop_eq:
  "length xs = 8 * k \<Longrightarrow> r < 8 \<Longrightarrow>
   sip_loop v (xs @ ys) (8 * k + r) = (foldl sip_absorb v (words64 xs), ys, r)"
proof (induction k arbitrary: v xs)
  case 0
  then show ?case by simp
next
  case (Suc k)
  then have l: "length (take 8 xs) = 8" by simp
  have "sip_loop v (take 8 xs @ drop 8 xs @ ys) (8 * k + r + 8) =
      (foldl sip_absorb v (words64 (take 8 xs @ drop 8 xs)), ys, r)"
    unfolding sip_loop_long [OF l] words64_long [OF l] using Suc by simp
  then show ?case
    by (simp add: algebra_simps flip: append_assoc)
qed

lemma siphash24_is_spec:
  "length key = 16 \<Longrightarrow> siphash24 (msg @ junk) (length msg) key = Inr (sip_spec key msg)"
proof -
  assume key: "length key = 16"
  define k where "k = length msg div 8"
  define r where "r = length msg mod 8"
  define xs where "xs = take (8 * k) msg"
  define ys where "ys = drop (8 * k) msg"
  have n: "length msg = 8 * k + r" and r: "r < 8"
    by (simp_all add: k_def r_def)
  have msg: "msg = xs @ ys" and xs: "length xs = 8 * k" and ys: "length ys = r"
    using n by (simp_all add: xs_def ys_def)
  have loop: "sip_loop v (msg @ junk) (length msg) = (foldl sip_absorb v (words64 xs), ys @ junk, r)" for v
    using sip_loop_eq [OF xs r] unfolding n by (simp add: msg)
  have "sip_tail r (ys @ junk) = ys @ replicate (8 - r) 0"
    using sip_tail_eq [OF r, of "ys @ junk"] ys by simp
  moreover have "words64 (sip_pad msg) =
      words64 xs @ [push_bit 56 (of_nat (length msg)) OR of_le_bytes (ys @ replicate (8 - r) 0)]"
  proof -
    let ?w = "ys @ replicate (7 - r) 0 @ [of_nat (length msg)]"
    have w: "length ?w = 8" using ys r by simp
    have "sip_pad msg = xs @ ?w"
      unfolding sip_pad_def r_def [symmetric] by (simp add: msg)
    then have "words64 (sip_pad msg) = words64 xs @ words64 (?w @ [])"
      using words64_append [OF xs] by simp
    then show ?thesis
      unfolding words64_long [OF w] using sip_last_word [of ys] ys r by simp
  qed
  ultimately show ?thesis
    using key by (simp add: siphash24_def sip_spec_def loop)
qed

text \<open>
  C23: The encoding of a name is the SipHash-2-4 of its bytes: the loop over eight-byte words and the
  switch that falls through absorb the words of the padded message, whatever lies behind the name.
\<close>
theorem siphash24_spec:
  "length key = 16 \<Longrightarrow> siphash24 (msg @ junk) (length msg) key = Inr (sip_spec key msg)"
  by (rule siphash24_is_spec)

lemma sip_loop_15:
  "sip_loop v [a0, a1, a2, a3, a4, a5, a6, a7, b0, b1, b2, b3, b4, b5, b6] 15 =
     (sip_absorb v (of_le_bytes [a0, a1, a2, a3, a4, a5, a6, a7]), [b0, b1, b2, b3, b4, b5, b6], 7)"
  by (simp add: sip_loop.simps)

lemma sip_tail_7:
  "sip_tail 7 [b0, b1, b2, b3, b4, b5, b6] = [b0, b1, b2, b3, b4, b5, b6, 0]"
  by (subst sip_tail_eq) simp_all

lemma siphash24_vector:
  "siphash24 [0, 1, 2, 3, 4, 5, 6, 7, 8, 9, 10, 11, 12, 13, 14] 15
     [0, 1, 2, 3, 4, 5, 6, 7, 8, 9, 10, 11, 12, 13, 14, 15] = Inr 0xa129ca6149be45e5"
  by (simp add: siphash24_def sip_init_def sip_loop_15 sip_tail_7 sip_absorb_def sip_finish_def
      DOUBLE_ROUND_def swap02_def HALF_ROUND_def ROTATE_def)

text \<open>The vector of the algorithm's authors: fifteen bytes under the key 0 to 15.\<close>

theorem siphash24_spec_witness:
  "sip_spec [0, 1, 2, 3, 4, 5, 6, 7, 8, 9, 10, 11, 12, 13, 14, 15] [0, 1, 2, 3, 4, 5, 6, 7, 8, 9, 10, 11, 12, 13, 14] =
     0xa129ca6149be45e5"
proof -
  let ?key = "[0, 1, 2, 3, 4, 5, 6, 7, 8, 9, 10, 11, 12, 13, 14, 15] :: bytes"
  let ?msg = "[0, 1, 2, 3, 4, 5, 6, 7, 8, 9, 10, 11, 12, 13, 14] :: bytes"
  have "length ?key = 16" and l: "length ?msg = 15" by simp_all
  from siphash24_spec [OF this(1), of ?msg "[]", unfolded l append_Nil2]
  show ?thesis unfolding siphash24_vector by (rule sum.inject(2) [THEN iffD1, OF sym])
qed

end
