(* ===== verification/Userspace.thy ===== *)
theory Userspace
  imports Vmac_Rx Siphash
begin

text \<open>
  The library user-space processes link, \<^verbatim>\<open>userspace/vmac-usrsp.c\<close> and \<^verbatim>\<open>vmac-usrsp.h\<close>: the table of
  data rates, the registration with the kernel, sending and receiving over netlink, and the map
  of interest names. A netlink message goes to the kernel as a \<^typ>\<open>nlmsg\<close>, the argument of \<open>nl_recv\<close>,
  and comes from it as the \<^typ>\<open>nl_message\<close> that \<open>nl_send\<close> emits.
\<close>

section \<open>Rates\<close>

text \<open>
  A row of the table: the rate, the index of the physical layer, band, guard interval, stream. The
  rates of the code are \<open>double\<close>s with at most one decimal that are only compared for equality, so
  tenths of a megabit per second stand for them; a rate that is not a whole number of tenths is
  equal to none of the table.
\<close>

definition rates :: "(nat \<times> u8 \<times> u8 \<times> u8 \<times> u8) list" where
  "rates =
    [(65, 0, 0, 0, 0), (72, 0, 0, 1, 0), (130, 1, 0, 0, 0), (144, 1, 0, 1, 0),
     (195, 2, 0, 0, 0), (217, 2, 0, 1, 0), (260, 3, 0, 0, 0), (289, 3, 0, 1, 0),
     (390, 4, 0, 0, 0), (433, 4, 0, 1, 0), (520, 5, 0, 0, 0), (578, 5, 0, 1, 0),
     (585, 6, 0, 0, 0), (650, 6, 0, 1, 0), (650, 7, 0, 0, 0), (722, 7, 0, 1, 0),
     (780, 8, 0, 0, 0), (867, 8, 0, 1, 0), (10000, 9, 0, 0, 0), (10010, 9, 0, 1, 0),
     (135, 0, 1, 0, 0), (150, 0, 1, 1, 0), (270, 1, 1, 0, 0), (300, 1, 1, 1, 0),
     (405, 2, 1, 0, 0), (450, 2, 1, 1, 0), (540, 3, 1, 0, 0), (600, 3, 1, 1, 0),
     (810, 4, 1, 0, 0), (900, 4, 1, 1, 0), (1080, 5, 1, 0, 0), (1200, 5, 1, 1, 0),
     (1215, 6, 1, 0, 0), (1350, 6, 1, 1, 0), (1350, 7, 1, 0, 0), (1500, 7, 1, 1, 0),
     (1620, 8, 1, 0, 0), (1800, 8, 1, 1, 0), (1800, 9, 1, 0, 0), (2000, 9, 1, 1, 0),
     (130, 0, 0, 0, 1), (144, 0, 0, 1, 1), (260, 1, 0, 0, 1), (289, 1, 0, 1, 1),
     (390, 2, 0, 0, 1), (433, 2, 0, 1, 1), (520, 3, 0, 0, 1), (578, 3, 0, 1, 1),
     (780, 4, 0, 0, 1), (867, 4, 0, 1, 1), (1040, 5, 0, 0, 1), (1156, 5, 0, 1, 1),
     (1170, 6, 0, 0, 1), (1303, 6, 0, 1, 1), (1300, 7, 0, 0, 1), (1444, 7, 0, 1, 1),
     (1560, 8, 0, 0, 1), (1733, 8, 0, 1, 1), (20000, 9, 0, 0, 1), (20010, 9, 0, 1, 1),
     (270, 0, 1, 0, 1), (300, 0, 1, 1, 1), (540, 1, 1, 0, 1), (600, 1, 1, 1, 1),
     (810, 2, 1, 0, 1), (900, 2, 1, 1, 1), (1080, 3, 1, 0, 1), (1200, 3, 1, 1, 1),
     (1620, 4, 1, 0, 1), (1800, 4, 1, 1, 1), (2160, 5, 1, 0, 1), (2400, 5, 1, 1, 1),
     (2430, 6, 1, 0, 1), (2700, 6, 1, 1, 1), (2700, 7, 1, 0, 1), (3000, 7, 1, 1, 1),
     (3240, 8, 1, 0, 1), (3600, 8, 1, 1, 1), (3600, 9, 1, 0, 1), (4000, 9, 1, 1, 1)]"

fun getrix_loop :: "(nat \<times> u8 \<times> u8 \<times> u8 \<times> u8) list \<Rightarrow> nat \<Rightarrow> u8 \<Rightarrow> u8" where
  "getrix_loop [] rate ret = ret"
| "getrix_loop ((r, rix, bw, sgi, stream) # rs) rate ret =
     getrix_loop rs rate (if r = rate then rix else ret)"

definition getrix :: "nat \<Rightarrow> u8" where
  "getrix rate = getrix_loop rates rate 0"

section \<open>The library's state\<close>

definition MAX_PAYLOAD :: nat where "MAX_PAYLOAD = 2000"

text \<open>
  \<open>nlh\<close> points to \<open>MAX_PAYLOAD\<close> bytes: sixteen of netlink header and \<open>up_area\<close>, which keeps what
  earlier messages left in it. \<open>names\<close> is a uthash table with the 64-bit encoding as key, a map.
\<close>

record vmac_lib_priv =
  up_names :: "u64 \<Rightarrow> bytes option"
  up_digest64 :: u64
  up_key :: bytes
  up_pid :: int
  up_area :: bytes

record vmac_frame =
  fr_buf :: bytes
  fr_len :: u16
  fr_InterestName :: bytes
  fr_name_len :: u16

record meta_data =
  md_type :: u8
  md_seq :: u16
  md_rate :: u8
  md_bw :: u8
  md_sgi :: u8
  md_stream :: u8
  md_enc :: u64

text \<open>
  \<open>vmac_register\<close>: the state it leaves, and the message it sends so that the kernel learns the
  process id. The length of the message is the one computed from the string \<open>"a"\<close>, 101.
\<close>

definition vmac_register :: "int \<Rightarrow> vmac_lib_priv \<Rightarrow> vmac_lib_priv \<times> nlmsg" where
  "vmac_register pid p =
     (let area = replicate (MAX_PAYLOAD - 16) 0
      in (p\<lparr>up_key := [0, 1, 2, 3, 4, 5, 6, 7, 8, 9, 0xa, 0xb, 0xc, 0xd, 0xe, 0xf],
            up_digest64 := 0, up_pid := pid, up_area := area\<rparr>,
          \<lparr>nl_type = 255, nl_pid = pid, nl_len = 101, nl_data = take (101 - 16) area\<rparr>))"

text \<open>
  \<open>send_vmac\<close>: the control block and the frame's bytes go into \<open>nlh\<close> at fixed places, and
  \<open>len + 100\<close> bytes from its start are sent, whatever lies behind the frame. \<open>frame\<close>'s buffer holds
  \<open>fr_buf\<close>; the code takes \<open>fr_len\<close> bytes of it.
\<close>

definition send_vmac :: "vmac_lib_priv \<Rightarrow> vmac_frame \<Rightarrow> meta_data \<Rightarrow> (vmac_lib_priv \<times> nlmsg) res" where
  "send_vmac p frame meta =
     rbind (siphash24 (fr_InterestName frame) (unat (fr_name_len frame)) (up_key p)) (\<lambda>digest64.
     (let p = p\<lparr>up_digest64 := digest64\<rparr>;
          txc = \<lparr>ct_type = md_type meta, ct_enc = digest64, ct_seq = md_seq meta,
                 ct_rate = md_rate meta, ct_bw = md_bw meta, ct_sgi = md_sgi meta,
                 ct_stream = md_stream meta\<rparr>;
          len = unat (fr_len frame)
      in rbind (memcpy_at (up_area p) 0 (control_bytes txc)) (\<lambda>area.
         rbind (require (len \<le> length (fr_buf frame)) Read_past_end) (\<lambda>_.
         rbind (memcpy_at area 15 (take len (fr_buf frame))) (\<lambda>area.
         rbind (require (len + 100 - 16 \<le> length area) Read_past_end) (\<lambda>_.
         Inr (p\<lparr>up_area := area\<rparr>,
              \<lparr>nl_type = ucast (md_type meta), nl_pid = up_pid p, nl_len = of_nat (len + 100),
               nl_data = take (len + 100 - 16) area\<rparr>)))))))"

text \<open>
  One turn of the loop of \<open>recvvmac\<close>, on a message \<open>m\<close> with the bytes \<open>junk\<close> behind those \<open>nl_send\<close>
  wrote: what the callback is called with. \<open>frame0\<close> and \<open>meta0\<close> are what the two \<open>malloc\<close>s return;
  the name is taken from local variables that are never set, so it stays as arbitrary as it was.
\<close>

definition recvvmac :: "vmac_frame \<Rightarrow> meta_data \<Rightarrow> bytes \<Rightarrow> nl_message \<Rightarrow> (vmac_frame \<times> meta_data) res" where
  "recvvmac frame0 meta0 junk m =
     (if nm_len m < 100 then Inl Null_deref
      else
        (let len = unat (nm_len m - 100);
             data = take (MAX_PAYLOAD - 16) (control_bytes (nm_control m) @ nm_payload m @ junk)
         in rbind (require (15 + len \<le> MAX_PAYLOAD - 16) Read_past_end) (\<lambda>_.
            rbind (read_control data) (\<lambda>rxc.
            rbind (require (15 + len \<le> length data) Read_past_end) (\<lambda>_.
            Inr (frame0\<lparr>fr_buf := take len (drop 15 data), fr_len := of_nat len\<rparr>,
                 meta0\<lparr>md_type := ct_type rxc, md_seq := ct_seq rxc, md_enc := ct_enc rxc\<rparr>))))))"

definition add_name :: "vmac_lib_priv \<Rightarrow> bytes \<Rightarrow> u16 \<Rightarrow> vmac_lib_priv res" where
  "add_name p InterestName name_len =
     rbind (siphash24 InterestName (unat name_len) (up_key p)) (\<lambda>digest64.
     (let p = p\<lparr>up_digest64 := digest64\<rparr>
      in case up_names p digest64 of
           None \<Rightarrow> Inr (p\<lparr>up_names := (up_names p)(digest64 \<mapsto> take (unat name_len) InterestName)\<rparr>)
         | Some s \<Rightarrow> Inr p))"

definition del_name :: "vmac_lib_priv \<Rightarrow> bytes \<Rightarrow> u16 \<Rightarrow> vmac_lib_priv res" where
  "del_name p InterestName name_len =
     rbind (siphash24 InterestName (unat name_len) (up_key p)) (\<lambda>digest64.
     (let p = p\<lparr>up_digest64 := digest64\<rparr>
      in case up_names p digest64 of
           None \<Rightarrow> Inr p
         | Some s \<Rightarrow> Inr (p\<lparr>up_names := (up_names p)(digest64 := None)\<rparr>)))"

end
