(* ===== verification/Rx_Window.thy ===== *)
theory Rx_Window
  imports Vmac_Rx
begin

text \<open>
  What the receiving side does with data frames: the window of \<open>vmac_rx\<close> as a sliding set of frame
  numbers, the time stamps that must not lead to a division by zero, delivery exactly once, and the
  freedom from faults of every frame but a DACK. No definition of this theory models code; they state
  what the code of \<open>Vmac_Rx\<close> is shown to do.
\<close>

section \<open>The receive window as a set\<close>

text \<open>
  What the window means: a frame number of the last seven hundred is received when its slot holds a
  one. \<open>in_window l s\<close> says that \<open>s\<close> is not older than the window that ends at \<open>l\<close>.
\<close>

definition in_window :: "u16 \<Rightarrow> nat \<Rightarrow> bool" where
  "in_window l s \<longleftrightarrow> s \<le> unat l \<and> unat l < s + WINDOW"

definition rx_received :: "encoding_rx \<Rightarrow> nat set" where
  "rx_received v = {s. in_window (latest v) s \<and> rx_window v ! (s mod WINDOW) = 1}"

lemma window_slot_mod [simp]: "window_slot s = unat s mod WINDOW"
  by (simp add: window_slot_def)

lemma advance_window_stop: "\<not> lt < seq \<Longrightarrow> advance_window w lt seq = (w, lt)"
  by (simp add: advance_window.simps)

lemma advance_window_step:
  "lt < seq \<Longrightarrow> advance_window w lt seq = advance_window (w[window_slot (lt + 1) := 0]) (lt + 1) seq"
  by (subst advance_window.simps) simp

lemma mod_eq_close:
  fixes a b n :: nat assumes "a mod n = b mod n" and "a < b + n" and "b < a + n"
  shows "a = b"
proof -
  have "a = b" if "a mod n = b mod n" "a \<le> b" "b < a + n" for a b
  proof -
    have "n dvd b - a" using that by (metis mod_eq_dvd_iff_nat)
    moreover have "b - a < n" using that by simp
    ultimately have "b - a = 0" by (meson dvd_imp_le not_less zero_less_iff_neq_zero)
    then show ?thesis using that by simp
  qed
  then show ?thesis using assms by (metis nat_le_linear)
qed

text \<open>
  The loop that moves the window forward: the slots of the numbers it passes are cleared, every other
  slot keeps its value.
\<close>

lemma advance_window_spec:
  assumes "advance_window w lt seq = (w', l')" and "lt \<le> seq" and "length w = WINDOW"
  shows "l' = seq \<and> length w' = WINDOW \<and>
    (\<forall>s. unat seq < s + WINDOW \<longrightarrow> s \<le> unat seq \<longrightarrow> w' ! (s mod WINDOW) = (if unat lt < s then 0 else w ! (s mod WINDOW)))"
  using assms
proof (induction w lt seq rule: advance_window.induct)
  case (1 w lt seq)
  show ?case
  proof (cases "lt < seq")
    case True
    have u: "unat (lt + 1) = Suc (unat lt)" using True by (rule unat_plus_one)
    have le: "lt + 1 \<le> seq" using True u by (simp add: word_le_nat_alt word_less_nat_alt)
    let ?w = "w[window_slot (lt + 1) := 0]"
    have IH: "l' = seq \<and> length w' = WINDOW \<and> (\<forall>s. unat seq < s + WINDOW \<longrightarrow> s \<le> unat seq \<longrightarrow>
        w' ! (s mod WINDOW) = (if Suc (unat lt) < s then 0 else ?w ! (s mod WINDOW)))"
      using 1(1) [OF True _ le] 1(2,4) True by (simp add: advance_window_step u)
    have "?w ! (s mod WINDOW) = (if unat lt < s then 0 else w ! (s mod WINDOW))"
      if "unat seq < s + WINDOW" "s \<le> unat seq" "\<not> Suc (unat lt) < s" for s
    proof (cases "s = Suc (unat lt)")
      case True
      then show ?thesis using 1(4) by (simp add: u WINDOW_def)
    next
      case False
      have "s mod WINDOW \<noteq> Suc (unat lt) mod WINDOW"
      proof
        assume "s mod WINDOW = Suc (unat lt) mod WINDOW"
        moreover have "Suc (unat lt) < s + 700" "s < Suc (unat lt) + 700"
          using that le by (simp_all add: word_le_nat_alt u WINDOW_def)
        ultimately show False using False mod_eq_close [of s 700 "Suc (unat lt)"] by (simp add: WINDOW_def)
      qed
      then show ?thesis using False that(3) by (simp add: u)
    qed
    then show ?thesis using IH by (auto simp del: window_slot_mod)
  next
    case False
    then have "lt = seq" using 1(3) by simp
    then show ?thesis using 1(2,4) by (auto simp: advance_window_stop)
  qed
qed

text \<open>
  The receive window refines a sliding set of frame numbers: a number that is not older than the
  window is dropped exactly when it is in the set; otherwise the newest number becomes the larger of
  the two, and the set gains the number and loses what has become too old.
\<close>

lemma rx_data_window_set:
  assumes "wf_rx v" and "unat (latest v) < unat seq + 700"
  shows "(rx_data_window v seq = None \<longleftrightarrow> unat seq \<in> rx_received v) \<and>
    (\<forall>v'. rx_data_window v seq = Some v' \<longrightarrow> wf_rx v' \<and> latest v' = max (latest v) seq \<and>
       rx_received v' = insert (unat seq) {s \<in> rx_received v. in_window (max (latest v) seq) s})"
proof -
  let ?n = "unat seq" and ?l = "unat (latest v)"
  have len: "length (rx_window v) = 700" using assms(1) by (simp add: wf_rx_def WINDOW_def)
  have other: "s mod 700 \<noteq> ?n mod 700" if "in_window l s" "in_window l ?n" "s \<noteq> ?n" for s l
    using that mod_eq_close [of s 700 ?n] by (auto simp: in_window_def WINDOW_def)
  show ?thesis
  proof (cases "latest v < seq")
    case True
    obtain w l where a: "advance_window (rx_window v) (latest v) seq = (w, l)" by fastforce
    have A: "l = seq" "length w = 700"
      "\<And>s. ?n < s + 700 \<Longrightarrow> s \<le> ?n \<Longrightarrow> w ! (s mod 700) = (if ?l < s then 0 else rx_window v ! (s mod 700))"
      using advance_window_spec [OF a] True len by (auto simp: WINDOW_def)
    have M: "max (latest v) seq = seq" using True by (simp add: max_absorb2)
    have lt: "?l < ?n" using True by (simp add: word_less_nat_alt)
    define v' where "v' = v\<lparr>rx_window := w[?n mod 700 := 1], latest := seq\<rparr>"
    have r: "rx_data_window v seq = Some v'"
      using True by (simp add: rx_data_window_def a A(1) WINDOW_def v'_def)
    have "rx_received v' = insert ?n {s \<in> rx_received v. in_window seq s}"
    proof (rule set_eqI)
      fix s
      show "s \<in> rx_received v' \<longleftrightarrow> s \<in> insert ?n {s \<in> rx_received v. in_window seq s}"
      proof (cases "s = ?n")
        case True
        then show ?thesis using A(2) by (simp add: rx_received_def v'_def in_window_def WINDOW_def)
      next
        case False
        then show ?thesis
          using A(3) [of s] other [of seq s] lt
          by (auto simp: rx_received_def v'_def in_window_def WINDOW_def A(2) split: if_splits)
      qed
    qed
    then show ?thesis
      using lt A(2) by (simp add: r M) (simp add: rx_received_def in_window_def wf_rx_def v'_def WINDOW_def)
  next
    case False
    have M: "max (latest v) seq = latest v" using False by (simp add: max_absorb1)
    have le: "?n \<le> ?l" using False by (simp add: word_le_nat_alt not_less)
    have inw: "in_window (latest v) ?n" using le assms(2) by (simp add: in_window_def WINDOW_def)
    have mark: "?l mod 700 \<le> ?n" if "700 \<le> ?l"
    proof -
      have "?l mod 700 = (?l - 700) mod 700" using that by (simp add: le_mod_geq)
      then have "?l mod 700 \<le> ?l - 700" by simp
      then show ?thesis using assms(2) that by simp
    qed
    define v' where "v' = v\<lparr>rx_window := (rx_window v)[?n mod 700 := 1]\<rparr>"
    have r: "rx_data_window v seq = (if rx_window v ! (?n mod 700) = 1 then None else Some v')"
      using False mark by (simp add: rx_data_window_def WINDOW_def v'_def)
    have "rx_received v' = insert ?n (rx_received v)"
    proof (rule set_eqI)
      fix s
      show "s \<in> rx_received v' \<longleftrightarrow> s \<in> insert ?n (rx_received v)"
        using inw len other [of "latest v" s]
        by (cases "s = ?n") (auto simp: rx_received_def v'_def WINDOW_def nth_list_update)
    qed
    moreover have "{s \<in> rx_received v. in_window (latest v) s} = rx_received v"
      by (auto simp: rx_received_def)
    moreover have "?n \<in> rx_received v \<longleftrightarrow> rx_window v ! (?n mod 700) = 1"
      using inw by (simp add: rx_received_def WINDOW_def)
    ultimately show ?thesis
      using len by (simp add: r M) (simp add: wf_rx_def v'_def WINDOW_def)
  qed
qed

lemma rx_data_window_None: "rx_data_window v seq = None \<longleftrightarrow> \<not> latest v < seq \<and> rx_window v ! (unat seq mod 700) = 1"
  by (simp add: rx_data_window_def WINDOW_def split: prod.splits)

text \<open>The fields the window does not touch.\<close>

lemma rx_data_window_frame:
  "rx_data_window v seq = Some v' \<Longrightarrow> v' = v\<lparr>rx_window := rx_window v', latest := latest v'\<rparr>"
  by (auto simp: rx_data_window_def Let_def split: if_splits prod.splits)

lemma rx_data_window_latest:
  assumes "rx_data_window v seq = Some v'" and "wf_rx v"
  shows "latest v' = max (latest v) seq" and "wf_rx v'"
    and "latest v < seq \<or> latest v = 0 \<Longrightarrow> rx_window v' ! (unat seq mod 700) = 1"
proof -
  obtain w l where a: "advance_window (rx_window v) (latest v) seq = (w, l)" by fastforce
  have len: "length (rx_window v) = 700" using assms(2) by (simp add: wf_rx_def WINDOW_def)
  have "latest v < seq \<Longrightarrow> l = seq \<and> length w = 700"
    using advance_window_spec [OF a] len by (simp add: WINDOW_def)
  then show "latest v' = max (latest v) seq" "wf_rx v'"
    "latest v < seq \<or> latest v = 0 \<Longrightarrow> rx_window v' ! (unat seq mod 700) = 1"
    using assms(1) len
    by (auto simp: rx_data_window_def a wf_rx_def WINDOW_def max_absorb1 max_absorb2 split: if_splits)
qed

section \<open>No division by zero\<close>

text \<open>
  What holds of an entry between two frames: as long as the second time stamp is missing, either no
  frame was accepted, or the last accepted one is marked in the window.
\<close>

definition rx_inv :: "encoding_rx \<Rightarrow> bool" where
  "rx_inv v \<longleftrightarrow> wf_rx v \<and> (SecondFrame v = 0 \<longrightarrow>
     (if firstFrame v = 0 then latest v = 0
      else lastin v \<le> latest v \<and> rx_window v ! (unat (lastin v) mod 700) = 1))"

lemma ucast_u16_u64_inj: "(ucast (a :: u16) :: u64) = ucast b \<longleftrightarrow> a = b"
proof
  assume eq: "(ucast a :: u64) = ucast b"
  have "bit a n = bit b n" if "n < 16" for n
    using arg_cong [OF eq, of "\<lambda>w. bit w n"] that by (simp add: bit_simps)
  then show "a = b" by (intro bit_word_eqI) simp
qed simp

lemma rx_data_alpha_total:
  assumes "rx_inv v" and "rx_data_window v seq = Some v1" and "ucast (jiffies env) \<noteq> (0 :: u32)"
  shows "\<exists>v2. rx_data_alpha env v1 seq = Inr v2 \<and> rx_inv v2 \<and> lastin v2 = seq \<and>
    v2 = v1\<lparr>firstFrame := firstFrame v2, SecondFrame := SecondFrame v2, rx_alpha := rx_alpha v2, lastin := seq\<rparr>"
proof -
  have wf: "wf_rx v" using assms(1) by (simp add: rx_inv_def)
  note L = rx_data_window_latest [OF assms(2) wf] and F = rx_data_window_frame [OF assms(2)]
  have f: "firstFrame v1 = firstFrame v" "SecondFrame v1 = SecondFrame v" "lastin v1 = lastin v"
    by (subst F, simp)+
  consider (first) "firstFrame v = 0" | (second) "firstFrame v \<noteq> 0" "SecondFrame v = 0"
    | (later) "firstFrame v \<noteq> 0" "SecondFrame v \<noteq> 0" by blast
  then show ?thesis
  proof cases
    case first
    then show ?thesis
      using assms(1,3) L by (auto simp: rx_data_alpha_def f rx_inv_def wf_rx_def)
  next
    case second
    have "seq \<noteq> lastin v"
    proof
      assume "seq = lastin v"
      then have "rx_data_window v seq = None"
        using second assms(1) by (simp add: rx_data_window_None rx_inv_def not_less)
      then show False using assms(2) by simp
    qed
    then have "ucast seq - ucast (lastin v) \<noteq> (0 :: u64)"
      by (simp add: ucast_u16_u64_inj)
    then show ?thesis
      using second assms(3) L(2) by (simp add: rx_data_alpha_def f new_alpha_def rx_inv_def wf_rx_def)
  next
    case later
    then show ?thesis
      using L(2) by (simp add: rx_data_alpha_def f rx_inv_def wf_rx_def)
  qed
qed

section \<open>A data frame on the entry\<close>

text \<open>
  What the DACK code may do to an entry and to the rest of the state: it touches only the fields of
  its own, and gives buffers back.
\<close>

definition dack_update :: "encoding_rx \<Rightarrow> encoding_rx \<Rightarrow> bool" where
  "dack_update v v' \<longleftrightarrow> v' = v\<lparr>rx_alpha := rx_alpha v', dac_info := dac_info v', rx_DACK := rx_DACK v',
     dack_timer := dack_timer v', rx_round := rx_round v'\<rparr>"

definition rx_step :: "kenv \<Rightarrow> u64 \<Rightarrow> vmac \<Rightarrow> encoding_rx \<Rightarrow> vmac \<Rightarrow> bool" where
  "rx_step env enc st v' st' \<longleftrightarrow> rx_enc st' = rx_enc (put_rx env st enc v') \<and> tx_enc st' = tx_enc st \<and>
     pidt st' = pidt st \<and> (\<exists>ids. effects st' = effects st @ map Kfree_skb ids)"

lemma dack_update_refl [simp]: "dack_update v v"
  by (simp add: dack_update_def)

lemma dack_update_trans: "dack_update v v' \<Longrightarrow> dack_update v' v'' \<Longrightarrow> dack_update v v''"
  unfolding dack_update_def by (cases v; cases v'; cases v'') simp

lemma dack_update_simps:
  assumes "dack_update v v'"
  shows "rx_window v' = rx_window v" "latest v' = latest v" "lastin v' = lastin v" "firstFrame v' = firstFrame v"
    "SecondFrame v' = SecondFrame v" "rx_key v' = rx_key v" "rx_pad v' = rx_pad v" "rx_enc_timeout v' = rx_enc_timeout v"
  using assms unfolding dack_update_def by (cases v; cases v'; simp)+

lemma put_rx_put [simp]: "rx_enc (put_rx env (put_rx env st k e) k e') = rx_enc (put_rx env st k e')"
  by (simp add: rxtab.bucket_put)

lemma put_rx_found: "find_rx env st k = Some e \<Longrightarrow> rx_enc (put_rx env st k e) = rx_enc st"
  by (auto simp: rxtab.bucket_put rxtab.find_bucket fun_upd_idem_iff append_butlast_last_id split: if_splits)

lemma rx_step_found: "rx_step env enc st v' st' \<Longrightarrow> find_rx env st' enc = Some v'"
  unfolding rx_step_def using find_rx_cong [of st' "put_rx env st enc v'"] rxtab.find_put by simp

lemma rx_step_trans: "rx_step env enc st v' st' \<Longrightarrow> rx_step env enc st' v'' st'' \<Longrightarrow> rx_step env enc st v'' st''"
  unfolding rx_step_def rxtab.bucket_put by (auto simp flip: map_append)

lemma rx_step_put: "rx_step env enc st v' (put_rx env st enc v')"
  by (simp add: rx_step_def)

text \<open>A DACK that waits can be sent: its timer is set and there is a buffer, with room for the 802.11 header.\<close>

definition dack_ok :: "encoding_rx \<Rightarrow> bool" where
  "dack_ok v \<longleftrightarrow> (di_send (dac_info v) = 1 \<longrightarrow> dack_timer v \<noteq> None \<and>
     (\<exists>s. di_dack (dac_info v) = Some s \<and> 30 \<le> headroom s \<and> length (skb_data s) \<le> 173))"

definition keeps_dack :: "kenv \<Rightarrow> encoding_rx \<Rightarrow> encoding_rx \<Rightarrow> bool" where
  "keeps_dack env v v' \<longleftrightarrow> (39 \<le> NET_SKB_PAD env \<longrightarrow> dack_ok v \<longrightarrow> dack_ok v')"

lemma keeps_dack_trans: "keeps_dack env a b \<Longrightarrow> keeps_dack env b c \<Longrightarrow> keeps_dack env a c"
  by (simp add: keeps_dack_def)

lemma keeps_dack_same: "dac_info v' = dac_info v \<Longrightarrow> (dack_timer v \<noteq> None \<Longrightarrow> dack_timer v' \<noteq> None) \<Longrightarrow> keeps_dack env v v'"
  by (simp add: keeps_dack_def dack_ok_def)

lemma prepDACK_total:
  assumes f: "find_rx env st enc = Some v" and "9 \<le> NET_SKB_PAD env"
  shows "\<exists>st' v'. prepDACK env st enc rnd = Inr st' \<and> dack_update v v' \<and> keeps_dack env v v' \<and> rx_step env enc st v' st'"
proof -
  obtain hs loss where h: "holes_of (rx_pad v) (rx_window v) (rnd * 5) = (hs, loss)" by fastforce
  define st1 where "st1 = st\<lparr>next_skb := Suc (next_skb st)\<rparr>"
  have f1: "find_rx env st1 enc = Some v" using f find_rx_cong [of st1 st env] by (simp add: st1_def)
  have s1: "rx_enc st1 = rx_enc st" "tx_enc st1 = tx_enc st" "pidt st1 = pidt st" "effects st1 = effects st"
    by (simp_all add: st1_def)
  show ?thesis
  proof (cases "alloc_ok env (next_skb st)")
    case False
    then have "prepDACK env st enc rnd = Inr st1"
      by (simp add: prepDACK_def f h dev_alloc_skb_def st1_def Let_def)
    moreover have "rx_step env enc st v st1"
      using put_rx_found [OF f] by (simp add: rx_step_def s1)
    ultimately show ?thesis using keeps_dack_same [of v v] by (intro exI [of _ st1] exI [of _ v]) simp
  next
    case True
    define skb where "skb = \<lparr>skb_id = next_skb st, headroom = NET_SKB_PAD env - 9, skb_data = dack_air enc rnd hs, tailroom = 159\<rparr>"
    define va where "va = v\<lparr>rx_alpha := (if 100 \<le> rx_alpha v then 100 else rx_alpha v)\<rparr>"
    obtain v' ptr where s: "store_DACK env va skb rnd (dack_duration env (rx_alpha va) loss) = (v', ptr)" by fastforce
    have put: "skb_put \<lparr>skb_id = next_skb st, headroom = NET_SKB_PAD env, skb_data = [], tailroom = 30 + 9 + 4 + length hs * 4 + BUFFER_ROOM\<rparr>
        (dack_frame enc rnd hs) = Inr \<lparr>skb_id = next_skb st, headroom = NET_SKB_PAD env, skb_data = dack_frame enc rnd hs, tailroom = 159\<rparr>"
      by (simp add: BUFFER_ROOM_def)
    have push: "skb_push \<lparr>skb_id = next_skb st, headroom = NET_SKB_PAD env, skb_data = dack_frame enc rnd hs, tailroom = 159\<rparr>
        (vmac_hdr_bytes \<lparr>vh_enc = enc, vh_type = VMAC_HDR_DACK\<rparr>) = Inr skb"
      using assms(2) by (simp add: skb_def dack_air_def)
    have alloc: "dev_alloc_skb env n st = (Some \<lparr>skb_id = next_skb st, headroom = NET_SKB_PAD env, skb_data = [], tailroom = n\<rparr>, st1)" for n
      using True by (simp add: dev_alloc_skb_def st1_def)
    have run: "prepDACK env st enc rnd = (if \<not> dacklok_free env then Inr (kfree_skb skb (put_rx env st1 enc va))
        else Inr (kfree_skb_opt ptr (put_rx env st1 enc v')))"
      unfolding prepDACK_def Let_def f option.case rbind_Inr h prod.case alloc put push f1 va_def [symmetric] s by simp
    have upd: "dack_update v va" "dack_update v v'"
      using s by (auto simp: store_DACK_def Let_def va_def dack_update_def split: if_splits)
    have "length hs \<le> 40"
      using holes_of_spec(1) [OF h] by (simp add: holes_sound_def HOLES_MAX_def)
    then have "keeps_dack env v va" "keeps_dack env v v'"
      using s by (auto simp: store_DACK_def Let_def va_def keeps_dack_def dack_ok_def skb_def split: if_splits)
    moreover have "rx_step env enc st va (kfree_skb skb (put_rx env st1 enc va))"
      unfolding rx_step_def by (simp add: s1 rxtab.bucket_put) (rule exI [of _ "[skb_id skb]"], simp)
    moreover have "rx_step env enc st v' (kfree_skb_opt ptr (put_rx env st1 enc v'))"
      unfolding rx_step_def
      by (simp add: s1 rxtab.bucket_put) (rule exI [of _ "case ptr of None \<Rightarrow> [] | Some s \<Rightarrow> [skb_id s]"], simp split: option.splits)
    ultimately show ?thesis using run upd by (cases "dacklok_free env") auto
  qed
qed

lemma rx_data_round_total:
  assumes "9 \<le> NET_SKB_PAD env"
  shows "\<exists>st' v'. rx_data_round env st enc v seq = Inr st' \<and> dack_update v v' \<and> keeps_dack env v v' \<and> rx_step env enc st v' st'"
proof (cases "int (unat (rx_round v)) \<le> int (unat seq) - 5")
  case True
  define v1 where "v1 = v\<lparr>rx_round := of_nat (unat seq div 5)\<rparr>"
  have f: "find_rx env (put_rx env st enc v1) enc = Some v1" by (simp add: rxtab.find_put)
  obtain st2 v2 where p: "prepDACK env (put_rx env st enc v1) enc (rx_round v1) = Inr st2" "dack_update v1 v2" "keeps_dack env v1 v2"
    "rx_step env enc (put_rx env st enc v1) v2 st2"
    using prepDACK_total [OF f assms] by blast
  define v3 where "v3 = v2\<lparr>rx_round := seq\<rparr>"
  have "rx_data_round env st enc v seq = Inr (put_rx env st2 enc v3)"
    using True p(1) rx_step_found [OF p(4)] by (simp add: rx_data_round_def request_DACK_def Let_def v1_def v3_def)
  moreover have "dack_update v v3"
    using p(2) unfolding dack_update_def v1_def v3_def by (cases v; cases v2) simp
  moreover have "rx_step env enc st v3 (put_rx env st2 enc v3)"
    using rx_step_put p(4) by (blast intro: rx_step_trans)
  moreover have "keeps_dack env v v3"
    using p(3) by (simp add: keeps_dack_def dack_ok_def v1_def v3_def)
  ultimately show ?thesis by blast
next
  case False
  then have "rx_data_round env st enc v seq = Inr (put_rx env st enc v)" by (simp add: rx_data_round_def)
  then show ?thesis using rx_step_put dack_update_refl keeps_dack_same [OF refl] by blast
qed

lemma rx_inv_dack_update: "dack_update v v' \<Longrightarrow> rx_inv v' = rx_inv v"
  by (simp add: rx_inv_def wf_rx_def dack_update_simps)

lemma rx_received_dack_update: "dack_update v v' \<Longrightarrow> rx_received v' = rx_received v"
  by (simp add: rx_received_def dack_update_simps)

text \<open>
  The whole data branch on a known encoding, in the terms of the window: \<open>v0\<close> is the entry with its
  time-out set.
\<close>

definition refreshed :: "kenv \<Rightarrow> encoding_rx \<Rightarrow> encoding_rx" where
  "refreshed env v = v\<lparr>rx_enc_timeout := Some (jiffies env + msecs_to_jiffies env 30000)\<rparr>"

lemma refreshed_simps [simp]:
  "rx_inv (refreshed env v) = rx_inv v" "rx_received (refreshed env v) = rx_received v"
  "latest (refreshed env v) = latest v" "rx_key (refreshed env v) = rx_key v" "dac_info (refreshed env v) = dac_info v" "wf_rx (refreshed env v) = wf_rx v"
  "dack_timer (refreshed env v) = dack_timer v"
  by (simp_all add: refreshed_def rx_inv_def rx_received_def wf_rx_def)

definition rx_env_ok :: "kenv \<Rightarrow> bool" where
  "rx_env_ok env \<longleftrightarrow> ucast (jiffies env) \<noteq> (0 :: u32) \<and> 9 \<le> NET_SKB_PAD env"

lemma vmac_rx_data_spec:
  assumes "read_vmac_data (skb_data skb) = Inr seq" and f: "find_rx env st enc = Some v" and "rx_inv v"
    and "rx_env_ok env"
  shows "\<exists>r st' v'. vmac_rx_data env st skb enc = Inr (r, st') \<and> rx_step env enc st v' st' \<and> rx_inv v' \<and>
    rx_key v' = rx_key v \<and> keeps_dack env v v' \<and>
    (case rx_data_window (refreshed env v) seq of
       None \<Rightarrow> r = None \<and> v' = refreshed env v \<and> effects st' = effects st @ [Kfree_skb (skb_id skb)]
     | Some w \<Rightarrow> r = Some (skb_pull skb 2, seq) \<and> rx_received v' = rx_received w \<and> latest v' = latest w \<and> lastin v' = seq)"
proof (cases "rx_data_window (refreshed env v) seq")
  case None
  have run: "vmac_rx_data env st skb enc = Inr (None, kfree_skb skb (put_rx env st enc (refreshed env v)))"
    using None f assms(1) by (simp add: vmac_rx_data_def refreshed_def)
  have "rx_step env enc st (refreshed env v) (kfree_skb skb (put_rx env st enc (refreshed env v)))"
    unfolding rx_step_def by (simp add: rxtab.bucket_put) (rule exI [of _ "[skb_id skb]"], simp)
  then show ?thesis
    using run assms(3) None keeps_dack_same [of "refreshed env v" v env] by (intro exI [of _ None] exI) auto
next
  case (Some w)
  obtain w2 where a: "rx_data_alpha env w seq = Inr w2" "rx_inv w2" "lastin w2 = seq"
    "w2 = w\<lparr>firstFrame := firstFrame w2, SecondFrame := SecondFrame w2, rx_alpha := rx_alpha w2, lastin := seq\<rparr>"
    using rx_data_alpha_total [of "refreshed env v" seq w env] Some assms(3,4) by (auto simp: rx_env_ok_def)
  obtain st' v' where d: "rx_data_round env st enc w2 seq = Inr st'" "dack_update w2 v'" "rx_step env enc st v' st'"
    "keeps_dack env w2 v'"
    using rx_data_round_total [of env st enc w2 seq] assms(4) by (auto simp: rx_env_ok_def)
  have run: "vmac_rx_data env st skb enc = Inr (Some (skb_pull skb 2, seq), st')"
    using Some f assms(1) a(1) d(1) by (simp add: vmac_rx_data_def refreshed_def)
  have w2: "rx_window w2 = rx_window w" "latest w2 = latest w" "rx_key w2 = rx_key w"
    by (subst a(4), simp)+
  have key: "rx_key w = rx_key v" "dac_info w = dac_info v" "dack_timer w = dack_timer v"
    by (subst rx_data_window_frame [OF Some], simp add: refreshed_def)+
  have "dac_info w2 = dac_info w" "dack_timer w2 = dack_timer w" by (subst a(4), simp)+
  then have "keeps_dack env v v'"
    using keeps_dack_trans [OF keeps_dack_same d(4)] key(2,3) by simp
  then show ?thesis
    using run d(2,3) a(2,3) w2 key Some
    by (intro exI [of _ "Some (skb_pull skb 2, seq)"] exI [of _ st'] exI [of _ v'])
      (simp add: rx_inv_dack_update dack_update_simps rx_received_def)
qed

section \<open>Exactly once\<close>

text \<open>A run of data frames of one encoding through the code: the numbers of those that go on to \<open>nl_send\<close>.\<close>

fun rx_run :: "kenv \<Rightarrow> vmac \<Rightarrow> u64 \<Rightarrow> sk_buff list \<Rightarrow> u16 list res" where
  "rx_run env st enc [] = Inr []"
| "rx_run env st enc (skb # skbs) =
     rbind (vmac_rx_data env st skb enc) (\<lambda>(r, st).
     rbind (rx_run env st enc skbs) (\<lambda>seqs.
     Inr (case r of None \<Rightarrow> seqs | Some (skb, seq) \<Rightarrow> seq # seqs)))"

text \<open>No frame of the run is older than the window at the time it arrives.\<close>

fun recent :: "u16 \<Rightarrow> u16 list \<Rightarrow> bool" where
  "recent l [] \<longleftrightarrow> True"
| "recent l (s # ss) \<longleftrightarrow> unat l < unat s + 700 \<and> recent (max l s) ss"

lemma recent_mem: "recent l ss \<Longrightarrow> s \<in> set ss \<Longrightarrow> unat l < unat s + 700"
proof (induction l ss rule: recent.induct)
  case (2 l s' ss)
  show ?case
  proof (cases "s = s'")
    case False
    then have "unat (max l s') < unat s + 700" using 2 by simp
    moreover have "unat l \<le> unat (max l s')" by (simp flip: word_le_nat_alt)
    ultimately show ?thesis by simp
  qed (use 2 in simp)
qed simp

text \<open>
  C3: Every data frame of a known encoding goes to user space exactly once. For any run of frames in
  which none is older than the window of seven hundred when it arrives, in whatever order and however
  often each is repeated: the code never faults, no number is passed on twice, and the numbers passed
  on are those of the run that were not received before it.
\<close>
theorem rx_exactly_once:
  assumes "list_all2 (\<lambda>skb seq. read_vmac_data (skb_data skb) = Inr seq) skbs seqs"
    and "find_rx env st enc = Some v" and "rx_inv v" and "rx_env_ok env" and "recent (latest v) seqs"
  shows "\<exists>out. rx_run env st enc skbs = Inr out \<and> distinct out \<and>
    set out = {s \<in> set seqs. unat s \<notin> rx_received v}"
  using assms
proof (induction skbs seqs arbitrary: st v rule: list_all2_induct)
  case Nil
  then show ?case by simp
next
  case (Cons skb skbs seq seqs)
  obtain r st' v' where S: "vmac_rx_data env st skb enc = Inr (r, st')" "rx_step env enc st v' st'" "rx_inv v'"
    and C: "case rx_data_window (refreshed env v) seq of None \<Rightarrow> r = None \<and> v' = refreshed env v \<and> effects st' = effects st @ [Kfree_skb (skb_id skb)]
     | Some w \<Rightarrow> r = Some (skb_pull skb 2, seq) \<and> rx_received v' = rx_received w \<and> latest v' = latest w \<and> lastin v' = seq"
    using vmac_rx_data_spec [OF Cons.hyps(1) Cons.prems(1,2,3)] by blast
  have wf: "wf_rx (refreshed env v)" using Cons.prems(2) by (simp add: rx_inv_def)
  have W: "rx_data_window (refreshed env v) seq = None \<longleftrightarrow> unat seq \<in> rx_received v"
    "\<And>w. rx_data_window (refreshed env v) seq = Some w \<Longrightarrow> latest w = max (latest v) seq \<and>
      rx_received w = insert (unat seq) {s \<in> rx_received v. in_window (max (latest v) seq) s}"
    using rx_data_window_set [OF wf, of seq] Cons.prems(4) by auto
  show ?case
  proof (cases "rx_data_window (refreshed env v) seq")
    case None
    then have r: "r = None" "v' = refreshed env v" and m: "unat seq \<in> rx_received v" using C W(1) by auto
    then have "recent (latest v') seqs"
      using Cons.prems(4) by (simp add: rx_received_def in_window_def max_absorb1 word_le_nat_alt)
    then obtain out where "rx_run env st' enc skbs = Inr out" "distinct out" "set out = {s \<in> set seqs. unat s \<notin> rx_received v'}"
      using Cons.IH [OF rx_step_found [OF S(2)] S(3) Cons.prems(3)] by blast
    then show ?thesis using S(1) r m by auto
  next
    case (Some w)
    let ?M = "max (latest v) seq"
    have r: "r = Some (skb_pull skb 2, seq)" and v': "latest v' = ?M"
      "rx_received v' = insert (unat seq) {s \<in> rx_received v. in_window ?M s}" and m: "unat seq \<notin> rx_received v"
      using C W Some by auto
    have rec: "recent ?M seqs" using Cons.prems(4) by simp
    then obtain out where o: "rx_run env st' enc skbs = Inr out" "distinct out" "set out = {s \<in> set seqs. unat s \<notin> rx_received v'}"
      using Cons.IH [OF rx_step_found [OF S(2)] S(3) Cons.prems(3)] v'(1) by auto
    have "unat s \<in> rx_received v \<Longrightarrow> in_window ?M (unat s)" if "s \<in> set seqs" for s
      using recent_mem [OF rec that]
      by (auto simp: rx_received_def in_window_def WINDOW_def le_max_iff_disj simp flip: word_le_nat_alt)
    then have "set (seq # out) = {s \<in> set (seq # seqs). unat s \<notin> rx_received v}"
      using m unfolding list.set o(3) v'(2) by (auto dest: unsigned_word_eqI)
    moreover have "distinct (seq # out)" using o(2,3) v'(2) by simp
    ultimately show ?thesis using S(1) r o(1) by (intro exI [of _ "seq # out"]) simp
  qed
qed

definition data_skb :: "u16 \<Rightarrow> sk_buff" where
  "data_skb seq = \<lparr>skb_id = 3, headroom = 64, skb_data = vmac_data_bytes seq @ [1, 2, 3, 4], tailroom = 0\<rparr>"

lemma example_rx_inv: "rx_inv example_rx" "latest example_rx = 0" "rx_received example_rx = {}" "rx_env_ok example_env"
  by (simp_all add: rx_inv_def wf_rx_def example_rx_def WINDOW_def rx_received_def rx_env_ok_def example_env_def)

theorem rx_exactly_once_witness:
  "\<exists>out. rx_run example_env example_state 7 (map data_skb [4, 2, 4, 2, 9]) = Inr out \<and> distinct out \<and> set out = {2, 4, 9}"
proof -
  have "list_all2 (\<lambda>skb seq. read_vmac_data (skb_data skb) = Inr seq) (map data_skb [4, 2, 4, 2, 9]) [4, 2, 4, 2, 9]"
    by (simp add: data_skb_def)
  from rx_exactly_once [OF this example_tables(2) example_rx_inv(1) example_rx_inv(4)]
  show ?thesis by (auto simp: example_rx_inv max_def)
qed

text \<open>
  C38: A frame that is too old is not always recognised: when the newest number is seven hundred or more
  and its remainder by seven hundred exceeds the number, the slot is not marked, so that the frame goes
  to user space as often as it arrives.
\<close>
theorem rx_stale_repeats:
  assumes "seq \<le> latest v" and "700 \<le> unat (latest v)" and "unat seq < unat (latest v) mod 700"
    and "rx_window v ! (unat seq mod 700) \<noteq> 1"
  shows "rx_data_window v seq = Some v"
  using assms leD [OF assms(1)] by (simp add: rx_data_window_def WINDOW_def)

theorem rx_stale_repeats_witness: "rx_data_window (example_rx\<lparr>latest := 1399\<rparr>) 500 = Some (example_rx\<lparr>latest := 1399\<rparr>)"
  by (rule rx_stale_repeats) (simp_all add: example_rx_def)

section \<open>To user space\<close>

definition rx_message :: "kenv \<Rightarrow> vmac \<Rightarrow> nat \<Rightarrow> u64 \<Rightarrow> u8 \<Rightarrow> u16 \<Rightarrow> bytes \<Rightarrow> nl_message" where
  "rx_message env st n enc type seq payload =
     \<lparr>nm_skb = n, nm_pid = pidt st, nm_len = of_nat (length payload + 100),
      nm_control = (stack_ctl env)\<lparr>ct_enc := enc, ct_seq := seq, ct_type := type\<rparr>, nm_payload = payload\<rparr>"

lemma nl_send_ok:
  assumes "pidt st \<noteq> -1" and "alloc_ok env (next_skb st)" and "skb_data skb = payload @ fcs" and "length fcs = 4"
    and "length payload < 2 ^ 31"
  shows "\<exists>st'. nl_send env st skb enc type seq = Inr st' \<and> rx_enc st' = rx_enc st \<and> tx_enc st' = tx_enc st \<and>
    pidt st' = pidt st \<and> effects st' = effects st @
      [Nlmsg_unicast (rx_message env st (next_skb st) enc type seq payload), Kfree_skb (skb_id skb), Kfree_skb (next_skb st)]"
proof -
  have "unat (of_nat (length payload + 100) :: u32) = length payload + 100"
    using assms(5) by (simp add: unat_of_nat take_bit_eq_mod del: of_nat_add)
  then have l: "\<not> of_nat (length (skb_data skb)) - 4 + 100 < (100 :: u32)"
    using assms(3,4) by (simp add: word_less_nat_alt)
  have e: "of_nat (length (skb_data skb)) - 4 + 100 = (of_nat (length payload + 100) :: u32)"
    using assms(3,4) by simp
  show ?thesis
    using assms(1-4) l e by (simp add: nl_send_def Let_def rx_message_def)
qed

lemma nl_send_total:
  "pidt st \<noteq> -1 \<Longrightarrow> 4 \<le> length (skb_data skb) \<Longrightarrow> \<exists>st'. nl_send env st skb enc type seq = Inr st'"
  by (simp add: nl_send_def Let_def)

text \<open>
  C31: Without a registered process the handler of a frame for user space ends in freeing a pointer that
  was never set: any interest, announcement or injected frame on the air does it.
\<close>
theorem vmac_rx_without_process:
  assumes "pidt st = -1" and "11 \<le> length (skb_data skb)"
    and "skb_data skb ! 8 \<in> {VMAC_HDR_INTEREST, VMAC_HDR_ANOUNCMENT, VMAC_HDR_INJECTED}"
  shows "vmac_rx env st skb = Inl Bad_free"
  using assms
  by (auto simp: vmac_rx_def read_vmac_hdr_def Let_def nl_send_def frame_types skb_pull_def read_vmac_data_def)

theorem vmac_rx_without_process_witness:
  "vmac_rx example_env (example_state\<lparr>pidt := -1\<rparr>) (example_skb\<lparr>skb_data := replicate 20 0\<rparr>) = Inl Bad_free"
  by (rule vmac_rx_without_process) (simp_all add: frame_types)

lemma vmac_rx_total:
  assumes "pidt st \<noteq> -1" and "15 \<le> length (skb_data skb)" and "skb_data skb ! 8 \<noteq> VMAC_HDR_DACK"
    and "\<forall>k v. find_rx env st k = Some v \<longrightarrow> rx_inv v" and "rx_env_ok env"
  shows "\<exists>st'. vmac_rx env st skb = Inr st'"
proof -
  obtain enc where h: "read_vmac_hdr (skb_data skb) = Inr \<lparr>vh_enc = enc, vh_type = skb_data skb ! 8\<rparr>"
    using assms(2) by (simp add: read_vmac_hdr_def)
  let ?skb = "skb_pull skb 9"
  have len: "6 \<le> length (skb_data ?skb)" "4 \<le> length (skb_data (skb_pull ?skb 2))"
    using assms(2) by (auto simp: skb_pull_def)
  then obtain seq where d: "read_vmac_data (skb_data ?skb) = Inr seq" by (simp add: read_vmac_data_def)
  have D: "\<exists>st'. rbind (vmac_rx_data env st ?skb enc) (\<lambda>(r, st). case r of None \<Rightarrow> Inr st
      | Some (skb, seq) \<Rightarrow> nl_send env st skb enc type seq) = Inr st'" for type
  proof (cases "find_rx env st enc")
    case None
    then show ?thesis by (simp add: vmac_rx_data_def d)
  next
    case (Some v)
    obtain r st' v' where "vmac_rx_data env st ?skb enc = Inr (r, st')" "rx_step env enc st v' st'"
      "r = None \<or> r = Some (skb_pull ?skb 2, seq)"
      using vmac_rx_data_spec [OF d Some _ assms(5)] assms(4) Some by (fastforce split: option.splits)
    then show ?thesis
      using nl_send_total [OF _ len(2), of st'] assms(1) by (auto simp: rx_step_def)
  qed
  show ?thesis
    using assms(1,3) len D nl_send_total [of st ?skb env enc] nl_send_total [of st "skb_pull ?skb 2" env enc]
    by (auto simp: vmac_rx_def h d Let_def)
qed

text \<open>
  With a registered process no frame but a DACK faults the kernel, as long as it is fifteen bytes
  long and the entry of its encoding satisfies the invariant; known or unknown encoding, duplicate or
  not, and whatever the allocations do.
\<close>
theorem vmac_rx_no_fault:
  assumes "pidt st \<noteq> -1" and "15 \<le> length (skb_data skb)" and "skb_data skb ! 8 \<noteq> VMAC_HDR_DACK"
    and "\<forall>k v. find_rx env st k = Some v \<longrightarrow> rx_inv v" and "rx_env_ok env"
  shows "\<exists>st'. vmac_rx env st skb = Inr st'"
  using vmac_rx_total [OF assms] .

theorem vmac_rx_no_fault_witness:
  "\<exists>st'. vmac_rx example_env example_state (example_skb\<lparr>skb_data := data_frame 7 3 [1, 2, 3, 4]\<rparr>) = Inr st'"
proof (rule vmac_rx_no_fault)
  show "\<forall>k v. find_rx example_env example_state k = Some v \<longrightarrow> rx_inv v"
    by (auto simp: find_rx_def example_state_def example_rx_inv split: if_splits)
  show "skb_data (example_skb\<lparr>skb_data := data_frame 7 3 [1, 2, 3, 4]\<rparr>) ! 8 \<noteq> VMAC_HDR_DACK"
    by (simp add: data_frame_def vmac_hdr_bytes_def nth_append frame_types)
qed (simp_all add: example_rx_inv, simp add: example_state_def)
end
