(* ===== verification/Radiotap.thy ===== *)
theory Radiotap
  imports Vmac_Rx
begin

text \<open>
  The way of a received frame from the driver to V-MAC (\<^verbatim>\<open>kernel/core/rtw_recv.c\<close>):
  \<open>fill_radiotap_hdr\<close> assembles a radiotap header in an array of 64 bytes on the stack and puts it in
  front of the frame; \<open>recv_frame_monitor\<close> hands the frame to \<open>vmac_override\<close>. The header is built by
  one definition per part, in the order of the code. The lemmas show that it fits, states its own
  length, and has the layout the radiotap format prescribes.
\<close>

section \<open>The header under construction\<close>

text \<open>
  \<open>hdr_buf\<close>, \<open>rt_len\<close> and the field \<open>it_present\<close> of the structure laid over the first eight bytes of
  the array, which nothing else writes to. \<open>rx_attrib\<close> has the attributes of the received frame that
  are read (the dBm values as their bytes), \<open>rtap_hal\<close> the fields of the adapter.
\<close>

record rtap =
  rt_buf :: bytes
  rt_len :: nat
  rt_present :: u32

record rx_attrib =
  ra_physt :: u8
  ra_tsfl :: u32
  ra_encrypt :: u8
  ra_mfrag :: u8
  ra_crc_err :: u8
  ra_sgi :: u8
  ra_data_rate :: u8
  ra_bw :: u8
  ra_stbc :: u8
  ra_ldpc :: u8
  ra_recv_signal_power :: u8
  ra_signal_quality :: u8
  ra_rx_pwr :: bytes

record rtap_hal =
  NumTotalRFPath :: u8
  current_band_type :: nat
  oper_ch :: u8

definition rt_memcpy :: "bytes \<Rightarrow> rtap \<Rightarrow> rtap res" where
  "rt_memcpy bs s = rbind (memcpy_at (rt_buf s) (rt_len s) bs) (\<lambda>b. Inr (s\<lparr>rt_buf := b\<rparr>))"

text \<open>\<open>hdr_buf[rt_len + k] |= v\<close> and \<open>hdr_buf[rt_len + k] = v\<close>.\<close>

definition rt_or :: "nat \<Rightarrow> u8 \<Rightarrow> rtap \<Rightarrow> rtap res" where
  "rt_or k v s =
     (if rt_len s + k < length (rt_buf s)
      then Inr (s\<lparr>rt_buf := (rt_buf s)[rt_len s + k := rt_buf s ! (rt_len s + k) OR v]\<rparr>)
      else Inl Buffer_overflow)"

definition rt_set :: "nat \<Rightarrow> u8 \<Rightarrow> rtap \<Rightarrow> rtap res" where
  "rt_set k v s =
     (if rt_len s + k < length (rt_buf s)
      then Inr (s\<lparr>rt_buf := (rt_buf s)[rt_len s + k := v]\<rparr>) else Inl Buffer_overflow)"

definition rt_adv :: "nat \<Rightarrow> rtap \<Rightarrow> rtap" where
  "rt_adv n s = s\<lparr>rt_len := rt_len s + n\<rparr>"

text \<open>\<open>rtap_hdr->it_present |= (1 << b)\<close>.\<close>

definition rt_mark :: "nat \<Rightarrow> rtap \<Rightarrow> rtap" where
  "rt_mark b s = s\<lparr>rt_present := rt_present s OR push_bit b 1\<rparr>"

section \<open>The parts of the header\<close>

definition data_rate :: bytes where
  "data_rate = [2, 4, 11, 22, 12, 18, 24, 36, 48, 72, 93, 108] @ map of_nat [0..<16] @
     map of_nat [16..<32] @ map of_nat [0..<10] @ map of_nat [0..<10] @ map of_nat [0..<10] @
     map of_nat [0..<10]"

definition CHAN2FREQ :: "int \<Rightarrow> int" where
  "CHAN2FREQ a = (if a < 14 then 2407 + 5 * a else 5000 + 5 * a)"

text \<open>The words of the further presence bitmaps, one for each antenna.\<close>

fun rt_ext_words :: "nat \<Rightarrow> rtap \<Rightarrow> rtap res" where
  "rt_ext_words 0 s = Inr s"
| "rt_ext_words (Suc n) s =
     rbind (rt_memcpy (le_bytes 4 (push_bit 11 1 OR push_bit 5 1 OR push_bit 31 1 OR push_bit 29 1 :: u32)) s)
       (\<lambda>s. rt_ext_words n (rt_adv 4 s))"

definition rt_namespaces :: "rtap_hal \<Rightarrow> rx_attrib \<Rightarrow> rtap \<Rightarrow> rtap res" where
  "rt_namespaces hal a s =
     (if 0 < NumTotalRFPath hal \<and> ra_physt a \<noteq> 0 then
        (let s = rt_mark 29 (rt_mark 31 s)
         in rbind (if 1 < NumTotalRFPath hal then rt_ext_words (unat (NumTotalRFPath hal) - 1) s else Inr s)
              (\<lambda>s. rbind (rt_memcpy (le_bytes 4 (push_bit 11 1 OR push_bit 5 1 :: u32)) s)
              (\<lambda>s. Inr (rt_adv 4 s))))
      else Inr s)"

definition rt_tsft :: "rx_attrib \<Rightarrow> rtap \<Rightarrow> rtap res" where
  "rt_tsft a s =
     (if ra_tsfl a \<noteq> 0 then
        rbind (rt_memcpy (le_bytes 8 (ucast (ra_tsfl a) :: u64)) (rt_mark 0 s)) (\<lambda>s. Inr (rt_adv 8 s))
      else Inr s)"

definition rt_flags :: "rx_attrib \<Rightarrow> rtap \<Rightarrow> rtap res" where
  "rt_flags a s =
     (let s = rt_mark 1 s
      in rbind (if ra_encrypt a = 1 \<or> ra_encrypt a = 5 then rt_or 0 0x04 s else Inr s) (\<lambda>s.
         rbind (if ra_mfrag a \<noteq> 0 then rt_or 0 0x08 s else Inr s) (\<lambda>s.
         rbind (rt_or 0 0x10 s) (\<lambda>s.
         rbind (if ra_crc_err a \<noteq> 0 then rt_or 0 0x40 s else Inr s) (\<lambda>s.
         rbind (if ra_sgi a \<noteq> 0 then rt_or 0 0x80 s else Inr s) (\<lambda>s.
         Inr (rt_adv 1 s)))))))"

definition rt_rate :: "rx_attrib \<Rightarrow> rtap \<Rightarrow> rtap res" where
  "rt_rate a s =
     rbind (if ra_data_rate a < 12 then
              rbind (array_get data_rate (unat (ra_data_rate a))) (\<lambda>v. rt_set 0 v (rt_mark 2 s))
            else Inr s) (\<lambda>s. Inr (rt_adv 1 s))"

definition channel_flags :: "rtap_hal \<Rightarrow> rx_attrib \<Rightarrow> u16" where
  "channel_flags hal a =
     (if current_band_type hal = 0 then 0x0080 else 0x0100) OR
     (if ra_data_rate a < 12 then if ra_data_rate a < 4 then 0x0020 else 0x0040 else 0x0400)"

definition rt_channel :: "rtap_hal \<Rightarrow> rx_attrib \<Rightarrow> rtap \<Rightarrow> rtap res" where
  "rt_channel hal a s =
     rbind (rt_memcpy (le_bytes 2 (of_int (CHAN2FREQ (uint (oper_ch hal))) :: u16)) (rt_mark 3 s)) (\<lambda>s.
     rbind (rt_memcpy (le_bytes 2 (channel_flags hal a)) (rt_adv 2 s)) (\<lambda>s. Inr (rt_adv 2 s)))"

definition rt_signal :: "rx_attrib \<Rightarrow> rtap \<Rightarrow> rtap res" where
  "rt_signal a s =
     (if ra_physt a \<noteq> 0 then
        rbind (rt_set 0 (ra_recv_signal_power a) (rt_mark 5 s)) (\<lambda>s. Inr (rt_adv 1 (rt_adv 1 s)))
      else Inr s)"

definition rt_quality :: "rx_attrib \<Rightarrow> rtap \<Rightarrow> rtap res" where
  "rt_quality a s =
     rbind (rt_memcpy (le_bytes 2 (ucast (ra_signal_quality a) :: u16)) (rt_mark 7 s)) (\<lambda>s.
     Inr (rt_adv 2 (rt_mark 14 (rt_adv 2 s))))"

definition rt_mcs :: "rx_attrib \<Rightarrow> rtap \<Rightarrow> rtap res" where
  "rt_mcs a s =
     (if 12 \<le> ra_data_rate a \<and> ra_data_rate a < 44 then
        rbind (rt_or 0 0x02 (rt_mark 19 s)) (\<lambda>s.
        rbind (rt_or 0 0x01 s) (\<lambda>s.
        rbind (rt_or 1 (ra_bw a AND 0x03) s) (\<lambda>s.
        rbind (rt_or 0 0x04 s) (\<lambda>s.
        rbind (rt_or 1 (push_bit 2 (ra_sgi a AND 0x01)) s) (\<lambda>s.
        rbind (rt_or 0 0x20 s) (\<lambda>s.
        rbind (rt_or 1 (push_bit 5 (ra_stbc a AND 0x03)) s) (\<lambda>s.
        rbind (array_get data_rate (unat (ra_data_rate a))) (\<lambda>v.
        rbind (rt_set 0 v (rt_adv 2 s)) (\<lambda>s. Inr (rt_adv 1 s))))))))))
      else Inr s)"

definition vht_bw :: "u8 \<Rightarrow> u8" where
  "vht_bw bw = (if bw = 0 then 0 else if bw = 1 then 1 else if bw = 2 then 4 else if bw = 3 then 11 else 0)"

text \<open>The position and the number of streams of the four ranges of VHT rates.\<close>

definition vht_nss :: "u8 \<Rightarrow> nat" where
  "vht_nss rate = (if rate < 54 then 0 else if rate < 64 then 1 else if rate < 74 then 2 else 3)"

definition rt_vht :: "rx_attrib \<Rightarrow> rtap \<Rightarrow> rtap res" where
  "rt_vht a s =
     (if 44 \<le> ra_data_rate a \<and> ra_data_rate a < 84 then
        rbind (rt_or 2 (ra_stbc a AND 0x01) (rt_mark 21 s)) (\<lambda>s.
        rbind (rt_or 2 (push_bit 2 (ra_sgi a AND 0x01)) s) (\<lambda>s.
        rbind (rt_or 2 (push_bit 4 (ra_ldpc a AND 0x01)) s) (\<lambda>s.
        rbind (rt_memcpy (le_bytes 2 (0x40 OR 0x80 OR 0x100 OR 0x01 OR 0x04 OR 0x10 :: u16)) s) (\<lambda>s.
        rbind (rt_or 0 (vht_bw (ra_bw a)) (rt_adv 3 s)) (\<lambda>s.
        (let s = rt_adv 1 s; n = vht_nss (ra_data_rate a)
         in rbind (rt_or n (of_nat (n + 1)) s) (\<lambda>s.
            rbind (array_get data_rate (unat (ra_data_rate a))) (\<lambda>v.
            rbind (rt_or n (push_bit 4 v) s) (\<lambda>s.
            rbind (rt_set 0 0 (rt_adv 4 s)) (\<lambda>s.
            rbind (rt_set 0 0 (rt_adv 1 s)) (\<lambda>s.
            rbind (rt_memcpy (le_bytes 2 (0 :: u16)) (rt_adv 1 s)) (\<lambda>s.
            Inr (rt_adv 2 s)))))))))))))
      else Inr s)"

text \<open>The fields of the further bitmaps: \<open>todo\<close> antennas from number \<open>i\<close> on.\<close>

fun rt_antennas :: "bytes \<Rightarrow> nat \<Rightarrow> nat \<Rightarrow> rtap \<Rightarrow> rtap res" where
  "rt_antennas pwr i 0 s = Inr s"
| "rt_antennas pwr i (Suc todo) s =
     rbind (array_get pwr i) (\<lambda>p.
     rbind (rt_set 0 p s) (\<lambda>s.
     rbind (rt_set 0 (of_nat i) (rt_adv 1 s)) (\<lambda>s.
     rt_antennas pwr (Suc i) todo (rt_adv 1 s))))"

definition rt_build :: "rtap_hal \<Rightarrow> rx_attrib \<Rightarrow> rtap res" where
  "rt_build hal a =
     rbind (rt_namespaces hal a \<lparr>rt_buf = replicate 64 0, rt_len = 8, rt_present = 0\<rparr>) (\<lambda>s.
     rbind (rt_tsft a s) (\<lambda>s. rbind (rt_flags a s) (\<lambda>s. rbind (rt_rate a s) (\<lambda>s.
     rbind (rt_channel hal a s) (\<lambda>s. rbind (rt_signal a s) (\<lambda>s. rbind (rt_quality a s) (\<lambda>s.
     rbind (rt_mcs a s) (\<lambda>s. rbind (rt_vht a s) (\<lambda>s.
     if ra_physt a \<noteq> 0 then rt_antennas (ra_rx_pwr a) 0 (unat (NumTotalRFPath hal)) s
     else Inr s)))))))))"

text \<open>The bytes that are copied in front of the frame: version and padding zero, \<open>it_len\<close>, \<open>it_present\<close>.\<close>

definition rt_header :: "rtap \<Rightarrow> bytes" where
  "rt_header s = [0, 0] @ le_bytes 2 (of_nat (rt_len s) :: u16) @ le_bytes 4 (rt_present s) @
     take (rt_len s - 8) (drop 8 (rt_buf s))"

text \<open>
  \<open>skb_realloc_headroom\<close>: a copy with at least the headroom asked for, or a null pointer. The code
  drops its pointer to the original without giving it back.
\<close>

definition skb_realloc_headroom :: "kenv \<Rightarrow> sk_buff \<Rightarrow> nat \<Rightarrow> vmac \<Rightarrow> sk_buff option \<times> vmac" where
  "skb_realloc_headroom env s n st =
     (if alloc_ok env (next_skb st) then Some (s\<lparr>skb_id := next_skb st, headroom := n\<rparr>) else None,
      st\<lparr>next_skb := Suc (next_skb st)\<rparr>)"

definition fill_radiotap_hdr ::
  "rtap_hal \<Rightarrow> rx_attrib \<Rightarrow> kenv \<Rightarrow> vmac \<Rightarrow> recv_frame \<Rightarrow> (recv_frame option \<times> vmac) res" where
  "fill_radiotap_hdr hal a env st rf =
     rbind (rt_build hal a) (\<lambda>s.
     case rf_pkt rf of
       None \<Rightarrow> Inl Null_deref
     | Some skb \<Rightarrow>
         (let skb = skb\<lparr>skb_data := rf_data rf\<rparr>
          in case (if headroom skb < rt_len s then skb_realloc_headroom env skb (rt_len s) st
                   else (Some skb, st)) of
               (None, st) \<Rightarrow> Inr (None, st)
             | (Some skb, st) \<Rightarrow>
                 rbind (require (rt_len s \<le> 64) Read_past_end) (\<lambda>_.
                 rbind (skb_push skb (rt_header s)) (\<lambda>skb.
                 Inr (Some (rf\<lparr>rf_data := skb_data skb, rf_pkt := Some skb\<rparr>), st)))))"

text \<open>
  \<open>recv_frame_monitor\<close>: a frame whose header cannot be put in front of it, or that arrives when the
  adapter is going down (\<open>cannot_run\<close>), goes back to the pool.
\<close>

definition recv_frame_monitor ::
  "rtap_hal \<Rightarrow> rx_attrib \<Rightarrow> bool \<Rightarrow> kenv \<Rightarrow> vmac \<Rightarrow> recv_frame \<Rightarrow> (nat \<times> vmac) res" where
  "recv_frame_monitor hal a cannot_run env st rframe =
     rbind (fill_radiotap_hdr hal a env st rframe) (\<lambda>(filled, st).
     case filled of
       None \<Rightarrow> Inr (0, vmac_free_recvframe rframe st)
     | Some rframe \<Rightarrow>
         if \<not> cannot_run then
           rbind (vmac_override env st rframe) (\<lambda>(ret, st).
           if ret \<noteq> 1 then Inr (0, vmac_free_recvframe rframe st) else Inr (ret, st))
         else Inr (0, vmac_free_recvframe rframe st))"

section \<open>What the parts write\<close>

text \<open>The array split at \<open>rt_len\<close>: what is written and the zeros behind it.\<close>

definition rt_st :: "u32 \<Rightarrow> bytes \<Rightarrow> bytes \<Rightarrow> rtap" where
  "rt_st pres p z = \<lparr>rt_buf = p @ z, rt_len = length p, rt_present = pres\<rparr>"

named_theorems rt_steps

lemma rt_or_st [rt_steps]: "k < length z \<Longrightarrow> rt_or k v (rt_st pres p z) = Inr (rt_st pres p (z[k := z ! k OR v]))"
  by (simp add: rt_or_def rt_st_def list_update_append nth_append)

lemma rt_set_st [rt_steps]: "k < length z \<Longrightarrow> rt_set k v (rt_st pres p z) = Inr (rt_st pres p (z[k := v]))"
  by (simp add: rt_set_def rt_st_def list_update_append)

lemma rt_memcpy_st [rt_steps]:
  "length bs \<le> length z \<Longrightarrow> rt_memcpy bs (rt_st pres p z) = Inr (rt_st pres p (bs @ drop (length bs) z))"
  by (simp add: rt_memcpy_def rt_st_def memcpy_at_def)

lemma rt_adv_st [rt_steps]: "n \<le> length z \<Longrightarrow> rt_adv n (rt_st pres p z) = rt_st pres (p @ take n z) (drop n z)"
  by (simp add: rt_adv_def rt_st_def)

lemma rt_mark_st [rt_steps]: "rt_mark b (rt_st pres p z) = rt_st (pres OR push_bit b 1) p z"
  by (simp add: rt_mark_def rt_st_def)

lemma zeros_split: "k \<le> n \<Longrightarrow> replicate n (0 :: u8) = replicate k 0 @ replicate (n - k) 0"
  by (simp flip: replicate_add)

text \<open>The fields of a header in the order of their bits, each with its bit, its alignment and its bytes.\<close>

type_synonym rt_field = "nat \<times> nat \<times> bytes"

definition flags_byte :: "rx_attrib \<Rightarrow> u8" where
  "flags_byte a = ((((if ra_encrypt a = 1 \<or> ra_encrypt a = 5 then 0x04 else 0) OR
     (if ra_mfrag a \<noteq> 0 then 0x08 else 0)) OR 0x10) OR (if ra_crc_err a \<noteq> 0 then 0x40 else 0)) OR
     (if ra_sgi a \<noteq> 0 then 0x80 else 0)"

lemma rt_flags_st:
  assumes "1 \<le> n"
  shows "rt_flags a (rt_st pres p (replicate n 0)) =
    Inr (rt_st (pres OR push_bit 1 1) (p @ [flags_byte a]) (replicate (n - 1) 0))"
  unfolding zeros_split [OF assms]
  by (simp add: rt_flags_def rt_steps Let_def flags_byte_def)

lemma rt_tsft_st:
  assumes "8 \<le> n"
  shows "rt_tsft a (rt_st pres p (replicate n 0)) =
    (if ra_tsfl a = 0 then Inr (rt_st pres p (replicate n 0))
     else Inr (rt_st (pres OR push_bit 0 1) (p @ le_bytes 8 (ucast (ra_tsfl a) :: u64)) (replicate (n - 8) 0)))"
  unfolding zeros_split [OF assms]
  by (simp add: rt_tsft_def rt_steps)

lemma length_data_rate: "length data_rate = 84"
  by (simp add: data_rate_def)

definition rate_byte :: "rx_attrib \<Rightarrow> u8" where
  "rate_byte a = (if ra_data_rate a < 12 then data_rate ! unat (ra_data_rate a) else 0)"

lemma rt_rate_st:
  assumes "1 \<le> n"
  shows "rt_rate a (rt_st pres p (replicate n 0)) =
    Inr (rt_st (if ra_data_rate a < 12 then pres OR push_bit 2 1 else pres) (p @ [rate_byte a]) (replicate (n - 1) 0))"
proof -
  have "ra_data_rate a < 12 \<Longrightarrow> unat (ra_data_rate a) < length data_rate"
    by (simp add: length_data_rate word_less_nat_alt)
  then show ?thesis
  unfolding zeros_split [OF assms]
  by (simp add: rt_rate_def rt_steps rate_byte_def)
qed

lemma rt_channel_st:
  assumes "4 \<le> n"
  shows "rt_channel hal a (rt_st pres p (replicate n 0)) =
    Inr (rt_st (pres OR push_bit 3 1) (p @ le_bytes 2 (of_int (CHAN2FREQ (uint (oper_ch hal))) :: u16) @
      le_bytes 2 (channel_flags hal a)) (replicate (n - 4) 0))"
  unfolding zeros_split [OF assms]
  by (simp add: rt_channel_def rt_steps drop_append)

lemma rt_signal_st:
  assumes "2 \<le> n"
  shows "rt_signal a (rt_st pres p (replicate n 0)) =
    (if ra_physt a = 0 then Inr (rt_st pres p (replicate n 0))
     else Inr (rt_st (pres OR push_bit 5 1) (p @ [ra_recv_signal_power a, 0]) (replicate (n - 2) 0)))"
  unfolding zeros_split [OF assms]
  by (simp add: rt_signal_def rt_steps numeral_2_eq_2)

lemma rt_quality_st:
  assumes "4 \<le> n"
  shows "rt_quality a (rt_st pres p (replicate n 0)) =
    Inr (rt_st (pres OR push_bit 7 1 OR push_bit 14 1) (p @ le_bytes 2 (ucast (ra_signal_quality a) :: u16) @ [0, 0]) (replicate (n - 4) 0))"
  unfolding zeros_split [OF assms]
  by (simp add: rt_quality_def rt_steps numeral_eq_Suc or.assoc)

definition mcs_bytes :: "rx_attrib \<Rightarrow> bytes" where
  "mcs_bytes a = [0x27, ((ra_bw a AND 0x03) OR push_bit 2 (ra_sgi a AND 0x01)) OR push_bit 5 (ra_stbc a AND 0x03),
     data_rate ! unat (ra_data_rate a)]"

lemma rt_mcs_st:
  assumes "3 \<le> n"
  shows "rt_mcs a (rt_st pres p (replicate n 0)) =
    (if 12 \<le> ra_data_rate a \<and> ra_data_rate a < 44
     then Inr (rt_st (pres OR push_bit 19 1) (p @ mcs_bytes a) (replicate (n - 3) 0))
     else Inr (rt_st pres p (replicate n 0)))"
proof -
  have "ra_data_rate a < 44 \<Longrightarrow> unat (ra_data_rate a) < length data_rate"
    by (simp add: length_data_rate word_less_nat_alt)
  then show ?thesis
  unfolding zeros_split [OF assms]
  by (simp add: rt_mcs_def rt_steps numeral_3_eq_3 mcs_bytes_def or.assoc)
qed

definition vht_bytes :: "rx_attrib \<Rightarrow> bytes" where
  "vht_bytes a = [0xd5, 0x01, ((ra_stbc a AND 0x01) OR push_bit 2 (ra_sgi a AND 0x01)) OR push_bit 4 (ra_ldpc a AND 0x01),
     vht_bw (ra_bw a)] @
     (replicate 4 0)[vht_nss (ra_data_rate a) := of_nat (vht_nss (ra_data_rate a) + 1) OR
        push_bit 4 (data_rate ! unat (ra_data_rate a))] @ [0, 0, 0, 0]"

lemma vht_nss_cases: "vht_nss r = 0 \<or> vht_nss r = 1 \<or> vht_nss r = 2 \<or> vht_nss r = 3"
  by (simp add: vht_nss_def)

lemma rt_vht_st:
  assumes "12 \<le> n"
  shows "rt_vht a (rt_st pres p (replicate n 0)) =
    (if 44 \<le> ra_data_rate a \<and> ra_data_rate a < 84
     then Inr (rt_st (pres OR push_bit 21 1) (p @ vht_bytes a) (replicate (n - 12) 0))
     else Inr (rt_st pres p (replicate n 0)))"
proof -
  have r: "ra_data_rate a < 84 \<Longrightarrow> unat (ra_data_rate a) < length data_rate"
    by (simp add: length_data_rate word_less_nat_alt)
  have b: "le_bytes 2 (0x1D5 :: u16) = [0xd5, 0x01]" "le_bytes 2 (0 :: u16) = [0, 0]"
    by (simp_all add: le_bytes_def upt_rec)
  have z: "replicate 12 (0 :: u8) = [0, 0, 0, 0, 0, 0, 0, 0, 0, 0, 0, 0]" "replicate 4 (0 :: u8) = [0, 0, 0, 0]"
    by (simp_all add: numeral_eq_Suc)
  show ?thesis
  unfolding zeros_split [OF assms] z using r vht_nss_cases [of "ra_data_rate a"]
  by (auto simp: rt_vht_def rt_steps numeral_2_eq_2 numeral_3_eq_3 vht_bytes_def Let_def b b [unfolded numeral_2_eq_2] z)
qed

definition more_antennas :: u32 where
  "more_antennas = push_bit 11 1 OR push_bit 5 1 OR push_bit 31 1 OR push_bit 29 1"

lemma rt_ext_words_st:
  "4 * k \<le> n \<Longrightarrow> rt_ext_words k (rt_st pres p (replicate n 0)) =
    Inr (rt_st pres (p @ concat (replicate k (le_bytes 4 more_antennas))) (replicate (n - 4 * k) 0))"
proof (induction k arbitrary: p n)
  case (Suc k)
  have n: "replicate n 0 = replicate 4 0 @ replicate (n - 4) (0 :: u8)"
    using Suc.prems by (intro zeros_split) simp
  have m: "n - 4 * Suc k = n - 4 - 4 * k" by simp
  have "rt_ext_words (Suc k) (rt_st pres p (replicate n 0)) =
      rt_ext_words k (rt_st pres (p @ le_bytes 4 more_antennas) (replicate (n - 4) 0))"
    unfolding n rt_ext_words.simps more_antennas_def [symmetric] by (simp add: rt_steps)
  also have "\<dots> = Inr (rt_st pres (p @ concat (replicate (Suc k) (le_bytes 4 more_antennas))) (replicate (n - 4 * Suc k) 0))"
    unfolding m using Suc.prems by (subst Suc.IH) simp_all
  finally show ?case .
qed simp

lemma rt_antennas_st:
  "i + k \<le> length pwr \<Longrightarrow> 2 * k \<le> n \<Longrightarrow> rt_antennas pwr i k (rt_st pres p (replicate n 0)) =
    Inr (rt_st pres (p @ concat (map (\<lambda>j. [pwr ! j, of_nat j]) [i..<i + k])) (replicate (n - 2 * k) 0))"
proof (induction k arbitrary: i p n)
  case (Suc k)
  have n: "replicate n 0 = 0 # 0 # replicate (n - 2) (0 :: u8)"
    using Suc.prems zeros_split [of 2 n] by (simp add: numeral_2_eq_2)
  have m: "n - 2 * Suc k = n - 2 - 2 * k" by simp
  have u: "[i..<i + Suc k] = i # [Suc i..<Suc i + k]"
    by (simp add: upt_rec [of i])
  have "rt_antennas pwr i (Suc k) (rt_st pres p (replicate n 0)) =
      rt_antennas pwr (Suc i) k (rt_st pres (p @ [pwr ! i, of_nat i]) (replicate (n - 2) 0))"
    using Suc.prems(1) unfolding n by (simp add: rt_steps)
  also have "\<dots> = Inr (rt_st pres (p @ concat (map (\<lambda>j. [pwr ! j, of_nat j]) [i..<i + Suc k])) (replicate (n - 2 * Suc k) 0))"
    unfolding u m using Suc.prems by (subst Suc.IH) simp_all
  finally show ?case .
qed simp

section \<open>The layout the format prescribes\<close>

text \<open>Every field stands at the next multiple of its alignment, counted from the start of the header.\<close>

fun rt_layout :: "nat \<Rightarrow> rt_field list \<Rightarrow> bytes" where
  "rt_layout off [] = []"
| "rt_layout off ((b, al, bs) # fs) =
     (let pad = (al - off mod al) mod al
      in replicate pad 0 @ bs @ rt_layout (off + pad + length bs) fs)"

definition common_fields :: "rtap_hal \<Rightarrow> rx_attrib \<Rightarrow> rt_field list" where
  "common_fields hal a = [(1, 1, [flags_byte a])] @
     (if ra_data_rate a < 12 then [(2, 1, [rate_byte a])] else []) @
     [(3, 2, le_bytes 2 (of_int (CHAN2FREQ (uint (oper_ch hal))) :: u16) @ le_bytes 2 (channel_flags hal a))] @
     (if ra_physt a = 0 then [] else [(5, 1, [ra_recv_signal_power a])]) @
     [(7, 2, le_bytes 2 (ucast (ra_signal_quality a) :: u16)), (14, 2, [0, 0])] @
     (if 12 \<le> ra_data_rate a \<and> ra_data_rate a < 44 then [(19, 1, mcs_bytes a)] else []) @
     (if 44 \<le> ra_data_rate a \<and> ra_data_rate a < 84 then [(21, 2, vht_bytes a)] else [])"

definition rt_fields :: "rtap_hal \<Rightarrow> rx_attrib \<Rightarrow> rt_field list" where
  "rt_fields hal a =
     (if ra_tsfl a = 0 then [] else [(0, 8, le_bytes 8 (ucast (ra_tsfl a) :: u64))]) @ common_fields hal a"

definition antennas :: "rtap_hal \<Rightarrow> rx_attrib \<Rightarrow> nat" where
  "antennas hal a = (if ra_physt a = 0 then 0 else unat (NumTotalRFPath hal))"

definition antenna_fields :: "rtap_hal \<Rightarrow> rx_attrib \<Rightarrow> rt_field list" where
  "antenna_fields hal a = concat (map (\<lambda>j. [(5, 1, [ra_rx_pwr a ! j]), (11, 1, [of_nat j])]) [0..<antennas hal a])"

definition rt_bitmaps :: "rtap_hal \<Rightarrow> rx_attrib \<Rightarrow> bytes" where
  "rt_bitmaps hal a = (if antennas hal a = 0 then []
     else concat (replicate (antennas hal a - 1) (le_bytes 4 more_antennas)) @ le_bytes 4 (push_bit 11 1 OR push_bit 5 1 :: u32))"

definition rt_bits :: "rtap_hal \<Rightarrow> rx_attrib \<Rightarrow> u32" where
  "rt_bits hal a = fold (\<lambda>(b, _, _) w. w OR push_bit b 1) (rt_fields hal a)
     (if antennas hal a = 0 then 0 else push_bit 31 1 OR push_bit 29 1)"

definition rt_spec :: "rtap_hal \<Rightarrow> rx_attrib \<Rightarrow> bytes" where
  "rt_spec hal a =
     (let body = rt_bitmaps hal a @ rt_layout (8 + length (rt_bitmaps hal a)) (rt_fields hal a @ antenna_fields hal a)
      in [0, 0] @ le_bytes 2 (of_nat (8 + length body) :: u16) @ le_bytes 4 (rt_bits hal a) @ body)"

text \<open>What the code writes behind the first eight bytes.\<close>

definition common_bytes :: "rtap_hal \<Rightarrow> rx_attrib \<Rightarrow> bytes" where
  "common_bytes hal a = [flags_byte a, rate_byte a] @
     le_bytes 2 (of_int (CHAN2FREQ (uint (oper_ch hal))) :: u16) @ le_bytes 2 (channel_flags hal a) @
     (if ra_physt a = 0 then [] else [ra_recv_signal_power a, 0]) @
     le_bytes 2 (ucast (ra_signal_quality a) :: u16) @ [0, 0] @
     (if 12 \<le> ra_data_rate a \<and> ra_data_rate a < 44 then mcs_bytes a else []) @
     (if 44 \<le> ra_data_rate a \<and> ra_data_rate a < 84 then vht_bytes a else [])"

definition rt_body :: "rtap_hal \<Rightarrow> rx_attrib \<Rightarrow> bytes" where
  "rt_body hal a = rt_bitmaps hal a @
     (if ra_tsfl a = 0 then [] else le_bytes 8 (ucast (ra_tsfl a) :: u64)) @ common_bytes hal a @
     concat (map (\<lambda>j. [ra_rx_pwr a ! j, of_nat j]) [0..<antennas hal a])"

lemma length_parts [simp]: "length (mcs_bytes a) = 3" "length (vht_bytes a) = 12"
  "length (concat (map (\<lambda>j. [f j, g j]) [0..<n])) = 2 * n" "length (concat (replicate n (le_bytes 4 w))) = 4 * n"
  by (simp_all add: mcs_bytes_def vht_bytes_def) (induction n, simp_all)+

lemma length_rt_bitmaps [simp]: "length (rt_bitmaps hal a) = 4 * antennas hal a"
  by (cases "antennas hal a") (simp_all add: rt_bitmaps_def)

lemma rt_namespaces_st:
  assumes "4 * antennas hal a \<le> n"
  shows "rt_namespaces hal a (rt_st 0 p (replicate n 0)) =
    Inr (rt_st (if antennas hal a = 0 then 0 else push_bit 31 1 OR push_bit 29 1) (p @ rt_bitmaps hal a)
      (replicate (n - 4 * antennas hal a) 0))"
proof (cases "antennas hal a")
  case 0
  then show ?thesis
    by (auto simp: rt_namespaces_def antennas_def rt_bitmaps_def word_less_nat_alt split: if_splits)
next
  case (Suc k)
  then have N: "unat (NumTotalRFPath hal) = Suc k" "ra_physt a \<noteq> 0"
    by (auto simp: antennas_def split: if_splits)
  have k: "4 * k \<le> n" "4 \<le> n - 4 * k" using assms Suc by simp_all
  have "(if 1 < NumTotalRFPath hal then rt_ext_words k s else Inr s) = rt_ext_words k s" for s
    using N(1) by (cases k) (auto simp: word_less_nat_alt)
  then show ?thesis
    using N k assms Suc zeros_split [OF k(2)]
    by (simp add: rt_namespaces_def rt_steps rt_ext_words_st word_less_nat_alt rt_bitmaps_def Let_def add.commute)
qed

lemma rt_build_body:
  assumes "NumTotalRFPath hal \<le> 4" and "length (ra_rx_pwr a) = 4"
  shows "rt_build hal a = Inr (rt_st (rt_bits hal a) (replicate 8 0 @ rt_body hal a) (replicate (56 - length (rt_body hal a)) 0))"
    and "length (rt_body hal a) \<le> 56"
proof -
  have n: "antennas hal a \<le> 4"
    using assms(1) by (simp add: antennas_def word_le_nat_alt)
  then show "length (rt_body hal a) \<le> 56"
    by (auto simp: rt_body_def common_bytes_def word_less_nat_alt word_le_nat_alt antennas_def)
  have i: "\<lparr>rt_buf = replicate 64 0, rt_len = 8, rt_present = 0\<rparr> = rt_st 0 (replicate 8 0) (replicate 56 0)"
    by (simp add: rt_st_def flip: replicate_add)
  have l: "2 * unat (NumTotalRFPath hal) \<le> 8"
    using assms(1) by (simp add: word_le_nat_alt)
  note st = rt_namespaces_st rt_tsft_st rt_flags_st rt_rate_st rt_channel_st rt_signal_st rt_quality_st rt_mcs_st rt_vht_st
  consider (legacy) "ra_data_rate a < 12" | (ht) "12 \<le> ra_data_rate a" "ra_data_rate a < 44"
    | (vht) "44 \<le> ra_data_rate a" "ra_data_rate a < 84" | (other) "84 \<le> ra_data_rate a"
    by fastforce
  note rates = this
  show "rt_build hal a = Inr (rt_st (rt_bits hal a) (replicate 8 0 @ rt_body hal a) (replicate (56 - length (rt_body hal a)) 0))"
  proof (cases "ra_physt a = 0")
    case True
    then have z: "antennas hal a = 0" by (simp add: antennas_def)
    show ?thesis
      using True rates unfolding rt_build_def i
      by cases (auto simp: st z rt_body_def rt_bits_def rt_fields_def common_fields_def common_bytes_def rt_bitmaps_def word_less_nat_alt word_le_nat_alt)
  next
    case False
    define n where "n = unat (NumTotalRFPath hal)"
    have z: "antennas hal a = n" "unat (NumTotalRFPath hal) = n"
      using False by (simp_all add: antennas_def n_def)
    have n: "n \<le> length (ra_rx_pwr a)" "n \<le> 4"
      using assms by (simp_all add: word_le_nat_alt n_def)
    note an = rt_antennas_st [of 0 n, unfolded add_0]
    show ?thesis
      using False rates n unfolding rt_build_def i
      by (cases "ra_tsfl a = 0"; cases)
        (simp_all add: st an z rt_body_def rt_bits_def rt_fields_def common_fields_def common_bytes_def word_less_nat_alt word_le_nat_alt del: upt_Suc)
  qed
qed

lemma rt_layout_append_ones:
  "list_all (\<lambda>(b, al, bs). al = 1) gs \<Longrightarrow> rt_layout off (fs @ gs) = rt_layout off fs @ concat (map (\<lambda>(b, al, bs). bs) gs)"
proof (induction off fs rule: rt_layout.induct)
  case (1 off)
  then show ?case
    by (induction gs arbitrary: off) (auto simp: Let_def)
qed (simp add: Let_def)

lemma antenna_fields_ones: "list_all (\<lambda>(b, al, bs). al = 1) (antenna_fields hal a)"
  "concat (map (\<lambda>(b, al, bs). bs) (antenna_fields hal a)) = concat (map (\<lambda>j. [ra_rx_pwr a ! j, of_nat j]) [0..<antennas hal a])"
proof -
  have 1: "list_all (\<lambda>(b, al, bs). al = 1) (concat (map (\<lambda>j. [(5 :: nat, 1, f j), (11, 1, g j)]) js))"
    for f g :: "nat \<Rightarrow> bytes" and js :: "nat list"
    by (induction js) simp_all
  show "list_all (\<lambda>(b, al, bs). al = 1) (antenna_fields hal a)"
    unfolding antenna_fields_def by (rule 1)
  have 2: "concat (map (\<lambda>(b, al, bs). bs) (concat (map (\<lambda>j. [(5 :: nat, 1 :: nat, [f j]), (11, 1, [g j])]) js))) = concat (map (\<lambda>j. [f j, g j]) js)"
    for f g :: "nat \<Rightarrow> u8" and js :: "nat list"
    by (induction js) simp_all
  show "concat (map (\<lambda>(b, al, bs). bs) (antenna_fields hal a)) = concat (map (\<lambda>j. [ra_rx_pwr a ! j, of_nat j]) [0..<antennas hal a])"
    unfolding antenna_fields_def by (rule 2)
qed

lemma rt_layout_aligned:
  "rt_layout off ((b, Suc 0, bs) # fs) = bs @ rt_layout (off + length bs) fs"
  "even off \<Longrightarrow> rt_layout off ((b, 2, bs) # fs) = bs @ rt_layout (off + length bs) fs"
  "odd off \<Longrightarrow> rt_layout off ((b, 2, bs) # fs) = 0 # bs @ rt_layout (Suc (off + length bs)) fs"
  by (simp_all add: Let_def odd_iff_mod_2_eq_one)

lemma rt_layout_even:
  assumes "even off"
  shows "rt_layout off (common_fields hal a) = common_bytes hal a"
proof -
  consider (legacy) "ra_data_rate a < 12" | (ht) "\<not> ra_data_rate a < 12" "12 \<le> ra_data_rate a" "ra_data_rate a < 44" "\<not> 44 \<le> ra_data_rate a"
    | (vht) "\<not> ra_data_rate a < 12" "44 \<le> ra_data_rate a" "ra_data_rate a < 84" "\<not> ra_data_rate a < 44"
    | (other) "\<not> ra_data_rate a < 12" "\<not> ra_data_rate a < 44" "\<not> ra_data_rate a < 84"
    by fastforce
  then show ?thesis
  proof cases
    case legacy
    then have "\<not> 12 \<le> ra_data_rate a" "\<not> 44 \<le> ra_data_rate a" 
      by (auto simp: word_less_nat_alt word_le_nat_alt)
    then show ?thesis using legacy assms
      by (simp add: common_fields_def common_bytes_def rt_layout_aligned del: rt_layout.simps(2))
  qed (use assms in \<open>simp_all add: common_fields_def common_bytes_def rt_layout_aligned rate_byte_def del: rt_layout.simps(2)\<close>)
qed

text \<open>The layout has padding in front of the time stamp when the bitmaps end at an odd multiple of four.\<close>

definition tsft_pad :: "rtap_hal \<Rightarrow> rx_attrib \<Rightarrow> nat" where
  "tsft_pad hal a = (if ra_tsfl a = 0 \<or> even (antennas hal a) then 0 else 4)"

lemma rt_layout_fields:
  "rt_layout (8 + 4 * antennas hal a) (rt_fields hal a @ antenna_fields hal a) =
    replicate (tsft_pad hal a) 0 @ drop (4 * antennas hal a) (rt_body hal a)"
proof -
  have "(8 + 4 * n) mod 8 = (if even n then 0 else 4)" for n :: nat
    by (cases "even n") (auto elim!: evenE oddE simp: mod_add_eq [symmetric])
  then have "(8 - (8 + 4 * antennas hal a) mod 8) mod 8 = (if even (antennas hal a) then 0 else 4)"
    by simp
  then show ?thesis
    unfolding rt_layout_append_ones [OF antenna_fields_ones(1)] antenna_fields_ones(2) rt_fields_def rt_body_def tsft_pad_def
    by (cases "ra_tsfl a = 0") (simp_all add: Let_def rt_layout_even)
qed

section \<open>The header fits and states its length\<close>

text \<open>What the driver hands to \<open>vmac_override\<close>: a radiotap header that states its own length, then the frame.\<close>

definition radiotap :: "bytes \<Rightarrow> bool" where
  "radiotap rt \<longleftrightarrow> 4 \<le> length rt \<and> unat (of_le_bytes (take 2 (drop 2 rt)) :: u16) = length rt"

definition rtap_ok :: "rtap_hal \<Rightarrow> rx_attrib \<Rightarrow> bool" where
  "rtap_ok hal a \<longleftrightarrow> NumTotalRFPath hal \<le> 4 \<and> length (ra_rx_pwr a) = 4"

lemma rt_header_st:
  "rt_header (rt_st pres (replicate 8 0 @ body) z) =
    [0, 0] @ le_bytes 2 (of_nat (8 + length body) :: u16) @ le_bytes 4 pres @ body"
  by (simp add: rt_header_def rt_st_def)

lemma rt_built:
  assumes "rtap_ok hal a"
  obtains s where "rt_build hal a = Inr s" "rt_len s = 8 + length (rt_body hal a)" "rt_len s \<le> 64"
    "rt_header s = [0, 0] @ le_bytes 2 (of_nat (8 + length (rt_body hal a)) :: u16) @ le_bytes 4 (rt_bits hal a) @ rt_body hal a"
    "length (rt_header s) = rt_len s" "radiotap (rt_header s)"
proof -
  let ?s = "rt_st (rt_bits hal a) (replicate 8 0 @ rt_body hal a) (replicate (56 - length (rt_body hal a)) 0)"
  have b: "rt_build hal a = Inr ?s" "length (rt_body hal a) \<le> 56"
    using rt_build_body assms by (simp_all add: rtap_ok_def)
  have l: "rt_len ?s = 8 + length (rt_body hal a)" by (simp add: rt_st_def)
  have "unat (of_nat (8 + length (rt_body hal a)) :: u16) = 8 + length (rt_body hal a)"
    using b(2) by (intro unat_of_nat_u16) simp
  then have "radiotap (rt_header ?s)" "length (rt_header ?s) = rt_len ?s"
    by (simp_all add: rt_header_st radiotap_def of_le_bytes_le_bytes l)
  then show thesis
    using b l rt_header_st by (intro that [of ?s]) auto
qed

text \<open>
  C21: Whatever was received, with up to four antennas: the header stays within the 64 bytes of its array,
  as many bytes are put in front of the frame as were written, the length field states exactly that
  number, and the header is the one the radiotap format prescribes for its fields, each at its
  alignment - unless there is a time stamp and the number of antennas is odd: then the time stamp
  stands four bytes too early.
\<close>
theorem radiotap_header:
  assumes "rtap_ok hal a"
  shows "\<exists>s. rt_build hal a = Inr s \<and> rt_len s \<le> 64 \<and> length (rt_header s) = rt_len s \<and> radiotap (rt_header s) \<and>
    (rt_header s = rt_spec hal a \<longleftrightarrow> ra_tsfl a = 0 \<or> even (antennas hal a))"
proof -
  obtain s where s: "rt_build hal a = Inr s" "rt_len s = 8 + length (rt_body hal a)" "rt_len s \<le> 64"
    "rt_header s = [0, 0] @ le_bytes 2 (of_nat (8 + length (rt_body hal a)) :: u16) @ le_bytes 4 (rt_bits hal a) @ rt_body hal a"
    "length (rt_header s) = rt_len s" "radiotap (rt_header s)"
    using rt_built [OF assms] by metis
  have t: "rt_bitmaps hal a @ drop (4 * antennas hal a) (rt_body hal a) = rt_body hal a"
    by (simp add: rt_body_def)
  have "length (rt_spec hal a) = rt_len s + tsft_pad hal a"
    using arg_cong [OF t, of length] by (simp add: rt_spec_def Let_def rt_layout_fields s(2))
  moreover have "rt_header s = rt_spec hal a" if "tsft_pad hal a = 0"
    using that t by (simp add: rt_spec_def Let_def rt_layout_fields s(4))
  ultimately have "rt_header s = rt_spec hal a \<longleftrightarrow> tsft_pad hal a = 0"
    using s(5) by auto
  then show ?thesis
    using s by (auto simp: tsft_pad_def)
qed

definition full_attrib :: rx_attrib where
  "full_attrib = \<lparr>ra_physt = 1, ra_tsfl = 7, ra_encrypt = 0, ra_mfrag = 0, ra_crc_err = 0, ra_sgi = 1, ra_data_rate = 60,
     ra_bw = 2, ra_stbc = 0, ra_ldpc = 1, ra_recv_signal_power = 0xc4, ra_signal_quality = 80, ra_rx_pwr = [1, 2, 3, 4]\<rparr>"

theorem radiotap_header_witness:
  "\<exists>s. rt_build \<lparr>NumTotalRFPath = 4, current_band_type = 1, oper_ch = 36\<rparr> full_attrib = Inr s \<and> rt_len s \<le> 64 \<and>
    rt_header s = rt_spec \<lparr>NumTotalRFPath = 4, current_band_type = 1, oper_ch = 36\<rparr> full_attrib"
  using radiotap_header [of "\<lparr>NumTotalRFPath = 4, current_band_type = 1, oper_ch = 36\<rparr>" full_attrib]
  by (auto simp: rtap_ok_def full_attrib_def antennas_def)

section \<open>From the driver to V-MAC\<close>

lemma fill_radiotap_hdr_ok:
  assumes "rtap_ok hal a" and "rf_pkt rf = Some skb" and "64 \<le> headroom skb"
  shows "\<exists>rt skb'. radiotap rt \<and> skb_id skb' = skb_id skb \<and>
    fill_radiotap_hdr hal a env st rf = Inr (Some (rf\<lparr>rf_data := rt @ rf_data rf, rf_pkt := Some skb'\<rparr>), st)"
proof -
  obtain s where s: "rt_build hal a = Inr s" "rt_len s \<le> 64" "length (rt_header s) = rt_len s" "radiotap (rt_header s)"
    using rt_built [OF assms(1)] by metis
  then show ?thesis
    using assms(2,3)
    by (intro exI [of _ "rt_header s"] exI [of _ "skb\<lparr>headroom := headroom skb - rt_len s, skb_data := rt_header s @ rf_data rf\<rparr>"])
      (simp add: fill_radiotap_hdr_def Let_def)
qed

text \<open>With too little headroom the frame gets a new buffer and nobody gives the old one back.\<close>

lemma fill_radiotap_hdr_leak:
  assumes "rtap_ok hal a" and "rf_pkt rf = Some skb" and "headroom skb < 18" and "alloc_ok env (next_skb st)"
  shows "\<exists>rt skb' st'. radiotap rt \<and> skb_id skb' = next_skb st \<and> effects st' = effects st \<and>
    fill_radiotap_hdr hal a env st rf = Inr (Some (rf\<lparr>rf_data := rt @ rf_data rf, rf_pkt := Some skb'\<rparr>), st')"
proof -
  obtain s where s: "rt_build hal a = Inr s" "rt_len s \<le> 64" "length (rt_header s) = rt_len s" "radiotap (rt_header s)"
    "rt_len s = 8 + length (rt_body hal a)"
    using rt_built [OF assms(1)] by metis
  have "18 \<le> rt_len s"
    by (simp add: s(5) rt_body_def common_bytes_def trans_le_add2)
  then show ?thesis
    using s(1-4) assms(2-4)
    by (intro exI [of _ "rt_header s"] exI [of _ "skb\<lparr>skb_id := next_skb st, headroom := 0, skb_data := rt_header s @ rf_data rf\<rparr>"]
        exI [of _ "st\<lparr>next_skb := Suc (next_skb st)\<rparr>"])
      (simp add: fill_radiotap_hdr_def skb_realloc_headroom_def Let_def)
qed

end
