(* ===== verification/Rx_Deliver.thy ===== *)
theory Rx_Deliver
  imports Rx_Window Radiotap
begin

text \<open>
  A frame through the air: what one node's \<open>vmac_tx\<close> hands to its driver reaches the process registered
  at another node, through \<open>vmac_override\<close>, \<open>vmac_rx\<close> and \<open>nl_send\<close>.
\<close>

section \<open>One frame through the air\<close>

lemma wh_addr3_at:
  assumes "wf_ieee80211_hdr (stack_hdr env)"
  shows "take 3 (drop 16 (air_frame env data)) = [0xfe, 0xfe, 0xfe]"
  using assms
  by (simp add: air_frame_def ieee80211_hdr_bytes_def low_tx_hdr_def wf_ieee80211_hdr_def vmac_dest_def vmac_src_def vmac_bssid_def)

lemma vmac_override_air:
  assumes "radiotap rt" and "wf_ieee80211_hdr (stack_hdr env0)" and "rf_pkt rf = Some skb"
    and "rf_data rf = rt @ air_frame env0 data @ fcs"
  shows "\<exists>skb'. skb_id skb' = skb_id skb \<and> skb_data skb' = data @ fcs \<and>
    vmac_override env st rf = rbind (vmac_rx env st skb') (\<lambda>st. Inr (1, vmac_free_recvframe rf st))"
proof -
  define d where "d = rt @ air_frame env0 data @ fcs"
  have it: "unat (of_le_bytes (take 2 (drop 2 d)) :: u16) = length rt" and l: "4 \<le> length rt"
    using assms(1) by (simp_all add: radiotap_def d_def)
  have la: "length (air_frame env0 data) = 30 + length data" using assms(2) by simp
  have "take 3 (drop (length rt + 16) d) = take 3 (drop 16 (air_frame env0 data))"
    by (simp add: la d_def)
  then have m: "take 3 (drop (length rt + 16) d) = [0xfe, 0xfe, 0xfe]"
    using wh_addr3_at [OF assms(2)] by simp
  have len: "4 \<le> length d" "length rt + 19 \<le> length d" using l la by (simp_all add: d_def)
  define s where "s = skb_pull (skb_pull (skb\<lparr>skb_data := d\<rparr>) (length rt)) 30"
  have "skb_data s = data @ fcs"
    using la unfolding s_def by (simp add: skb_pull_def d_def) (simp add: air_frame_def assms(2))
  moreover have "skb_id s = skb_id skb" by (simp add: s_def)
  moreover have "vmac_override env st rf = rbind (vmac_rx env st s) (\<lambda>st. Inr (1, vmac_free_recvframe rf st))"
    using len by (simp add: vmac_override_def assms(3) assms(4) [folded d_def] it m s_def)
  ultimately show ?thesis by blast
qed

lemma monitor_air:
  assumes "rtap_ok hal a" and "wf_ieee80211_hdr (stack_hdr env0)" and "rf_pkt rf = Some skb" and "64 \<le> headroom skb"
    and "rf_data rf = air_frame env0 data @ fcs"
  shows "\<exists>skb'. skb_id skb' = skb_id skb \<and> skb_data skb' = data @ fcs \<and>
    recv_frame_monitor hal a False env st rf = rbind (vmac_rx env st skb') (\<lambda>st. Inr (1, vmac_free_recvframe rf st))"
proof -
  obtain rt s where f: "radiotap rt" "skb_id s = skb_id skb"
    "fill_radiotap_hdr hal a env st rf = Inr (Some (rf\<lparr>rf_data := rt @ rf_data rf, rf_pkt := Some s\<rparr>), st)"
    using fill_radiotap_hdr_ok [OF assms(1,3,4)] by blast
  let ?rf = "rf\<lparr>rf_data := rt @ rf_data rf, rf_pkt := Some s\<rparr>"
  obtain s' where o: "skb_id s' = skb_id s" "skb_data s' = data @ fcs"
    "vmac_override env st ?rf = rbind (vmac_rx env st s') (\<lambda>st. Inr (1, vmac_free_recvframe ?rf st))"
    using vmac_override_air [OF f(1) assms(2), of ?rf s data fcs env st] assms(5) by auto
  have "recv_frame_monitor hal a False env st rf = rbind (vmac_rx env st s') (\<lambda>st. Inr (1, vmac_free_recvframe rf st))"
    by (simp add: recv_frame_monitor_def f(3) o(3)) (simp add: rbind_def vmac_free_recvframe_def split: sum.split)
  then show ?thesis using o f(2) by auto
qed

lemma vmac_rx_data_delivers:
  assumes "skb_data skb = data_frame enc seq (payload @ fcs)" and "length fcs = 4" and "length payload < 2 ^ 31"
    and "find_rx env st enc = Some v" and "rx_inv v" and "rx_env_ok env" and "pidt st \<noteq> -1" and "\<forall>n. alloc_ok env n"
    and "unat (latest v) < unat seq + 700" and "unat seq \<notin> rx_received v"
  shows "\<exists>st' v' ids n. vmac_rx env st skb = Inr st' \<and> find_rx env st' enc = Some v' \<and> rx_inv v' \<and>
    latest v' = max (latest v) seq \<and>
    rx_received v' = insert (unat seq) {s \<in> rx_received v. in_window (max (latest v) seq) s} \<and>
    effects st' = effects st @ map Kfree_skb ids @
      [Nlmsg_unicast (rx_message env st n enc VMAC_HDR_DATA seq payload), Kfree_skb (skb_id skb), Kfree_skb n]"
proof -
  have h: "read_vmac_hdr (skb_data skb) = Inr \<lparr>vh_enc = enc, vh_type = VMAC_HDR_DATA\<rparr>"
    by (simp add: assms(1) data_frame_def)
  let ?skb = "skb_pull skb 9"
  have d1: "skb_data ?skb = vmac_data_bytes seq @ payload @ fcs"
    by (simp add: skb_pull_def assms(1) data_frame_def)
  then have d2: "skb_data (skb_pull ?skb 2) = payload @ fcs" by (simp add: skb_pull_def [of ?skb])
  have d: "read_vmac_data (skb_data ?skb) = Inr seq" by (simp add: d1)
  have wf: "wf_rx (refreshed env v)" using assms(5) by (simp add: rx_inv_def)
  obtain w where w: "rx_data_window (refreshed env v) seq = Some w" "latest w = max (latest v) seq"
    "rx_received w = insert (unat seq) {s \<in> rx_received v. in_window (max (latest v) seq) s}"
    using rx_data_window_set [OF wf, of seq] assms(9,10) by auto
  obtain st1 v' where s: "vmac_rx_data env st ?skb enc = Inr (Some (skb_pull ?skb 2, seq), st1)" "rx_step env enc st v' st1"
    "rx_inv v'" "latest v' = latest w" "rx_received v' = rx_received w"
    using vmac_rx_data_spec [OF d assms(4-6)] w(1) by auto
  then obtain ids where ids: "effects st1 = effects st @ map Kfree_skb ids" "pidt st1 = pidt st"
    by (auto simp: rx_step_def)
  obtain st2 where n: "nl_send env st1 (skb_pull ?skb 2) enc VMAC_HDR_DATA seq = Inr st2" "rx_enc st2 = rx_enc st1"
    "effects st2 = effects st1 @ [Nlmsg_unicast (rx_message env st1 (next_skb st1) enc VMAC_HDR_DATA seq payload),
       Kfree_skb (skb_id skb), Kfree_skb (next_skb st1)]"
    using nl_send_ok [of st1 env "skb_pull ?skb 2" payload fcs enc VMAC_HDR_DATA seq] assms d2 ids by auto
  have "vmac_rx env st skb = Inr st2"
    using h s(1) n(1) by (simp add: vmac_rx_def frame_types)
  moreover have "find_rx env st2 enc = Some v'"
    using rx_step_found [OF s(2)] find_rx_cong [OF n(2)] by simp
  moreover have "rx_message env st1 (next_skb st1) enc VMAC_HDR_DATA seq payload = rx_message env st (next_skb st1) enc VMAC_HDR_DATA seq payload"
    by (simp add: rx_message_def ids)
  ultimately show ?thesis
    using s(3-5) w(2,3) n(3) ids(1) by (intro exI [of _ st2] exI [of _ v'] exI [of _ ids] exI [of _ "next_skb st1"]) simp
qed

text \<open>
  C10: From the antenna to user space. The frame that \<open>vmac_tx\<close> of one node hands to its driver, received
  by another node with a check sequence behind, gets its radiotap header, is recognised, goes to
  the registered process as one message with its encoding, its sequence number and exactly its
  payload, and its number joins the received ones; the receive frame goes back to the driver's pool
  once. The socket buffer of the message is freed once more after it was handed over.
\<close>
theorem data_through_the_air:
  assumes "rtap_ok hal a" and "wf_ieee80211_hdr (stack_hdr env0)" and "rf_pkt rf = Some skb" and "64 \<le> headroom skb"
    and "rf_data rf = air_frame env0 (data_frame enc seq payload) @ fcs" and "length fcs = 4"
    and "length payload < 2 ^ 31"
    and "find_rx env st enc = Some v" and "rx_inv v" and "rx_env_ok env" and "pidt st \<noteq> -1" and "\<forall>n. alloc_ok env n"
    and "unat (latest v) < unat seq + 700" and "unat seq \<notin> rx_received v"
  shows "\<exists>st' v' ids n. recv_frame_monitor hal a False env st rf = Inr (1, st') \<and> find_rx env st' enc = Some v' \<and>
    rx_received v' = insert (unat seq) {s \<in> rx_received v. in_window (max (latest v) seq) s} \<and>
    effects st' = effects st @ map Kfree_skb ids @
      [Nlmsg_unicast (rx_message env st n enc VMAC_HDR_DATA seq payload), Kfree_skb (skb_id skb), Kfree_skb n,
       Free_recvframe (rf_id rf)]"
proof -
  obtain skb' where skb': "skb_id skb' = skb_id skb" "skb_data skb' = data_frame enc seq payload @ fcs"
    "recv_frame_monitor hal a False env st rf = rbind (vmac_rx env st skb') (\<lambda>st. Inr (1, vmac_free_recvframe rf st))"
    using monitor_air [OF assms(1-5)] by blast
  have d: "skb_data skb' = data_frame enc seq (payload @ fcs)"
    using skb'(2) by (simp add: data_frame_def)
  have f: "find_rx env (emit e st') k = find_rx env st' k" for e st' k
    by (rule find_rx_cong) simp
  from vmac_rx_data_delivers [OF d assms(6-14)] show ?thesis
    unfolding skb'(3) by (elim exE conjE) (simp add: f skb'(1) vmac_free_recvframe_def, blast)
qed

definition example_rf :: recv_frame where
  "example_rf = \<lparr>rf_id = 5, rf_data = air_frame example_env (data_frame 7 3 [1, 2, 3]) @ [9, 9, 9, 9],
     rf_pkt = Some example_skb\<rparr>"

definition example_hal :: rtap_hal where
  "example_hal = \<lparr>NumTotalRFPath = 4, current_band_type = 1, oper_ch = 36\<rparr>"

lemma example_rtap: "rtap_ok example_hal full_attrib" "64 \<le> headroom example_skb"
  by (simp_all add: rtap_ok_def example_hal_def full_attrib_def example_skb_def)

theorem data_through_the_air_witness:
  "\<exists>st' n. recv_frame_monitor example_hal full_attrib False example_env example_state example_rf = Inr (1, st') \<and>
     Nlmsg_unicast (rx_message example_env example_state n 7 VMAC_HDR_DATA 3 [1, 2, 3]) \<in> set (effects st')"
  using data_through_the_air [OF example_rtap(1), of example_env example_rf example_skb 7 3 "[1, 2, 3]" "[9, 9, 9, 9]"
      example_env example_state example_rx] example_rtap(2)
  by (auto simp: example_env_simps example_rf_def example_rx_inv example_state_def [THEN arg_cong, of pidt])

end
