(* ===== verification/Dack_Answer.thy ===== *)
theory Dack_Answer
  imports Rx_Deliver
begin

text \<open>
  What the sender does with a DACK: the loops of \<open>vmac_rx\<close> over the holes against an abstract answer
  (which numbers are sent again, and which timers are set), and the two ways in which they go wrong.
\<close>

section \<open>The frames a hole asks for\<close>

text \<open>
  The abstract answer to a DACK. Of the numbers of a hole below the next one to be sent, those are sent
  again that are among the last five hundred and whose timer has run out at this round; at most
  \<open>budget\<close> of them; and their timers are set. \<open>tm\<close> is the array of timers.
\<close>

definition dack_due :: "u8 list \<Rightarrow> u16 \<Rightarrow> u16 \<Rightarrow> nat \<Rightarrow> bool" where
  "dack_due tm rnd seq s \<longleftrightarrow> unat (tm ! (s mod 500)) \<le> unat rnd \<and> unat seq \<le> s + 500"

definition dack_wanted :: "u8 list \<Rightarrow> u16 \<Rightarrow> u16 \<Rightarrow> nat \<Rightarrow> nat \<Rightarrow> nat list" where
  "dack_wanted tm rnd seq le re = filter (dack_due tm rnd seq) [le..<min re (unat seq)]"

definition set_timers :: "u16 \<Rightarrow> nat list \<Rightarrow> u8 list \<Rightarrow> u8 list" where
  "set_timers rnd ss tm = foldl (\<lambda>tm s. tm[s mod 500 := ucast (rnd + 6)]) tm ss"

fun dack_answer :: "u16 \<Rightarrow> u16 \<Rightarrow> nat \<Rightarrow> vmac_hole list \<Rightarrow> u8 list \<Rightarrow> nat list \<times> u8 list" where
  "dack_answer rnd seq budget [] tm = ([], tm)"
| "dack_answer rnd seq budget (h # hs) tm =
     (let ss = take budget (dack_wanted tm rnd seq (unat (ho_le h)) (unat (ho_re h)));
          (ss', tm') = dack_answer rnd seq (budget - length ss) hs (set_timers rnd ss tm)
      in (ss @ ss', tm'))"

lemma length_dack_answer: "length (fst (dack_answer rnd seq budget hs tm)) \<le> budget"
proof (induction hs arbitrary: budget tm)
  case (Cons h hs)
  let ?ss = "take budget (dack_wanted tm rnd seq (unat (ho_le h)) (unat (ho_re h)))"
  obtain ss' tm' where r: "dack_answer rnd seq (budget - length ?ss) hs (set_timers rnd ?ss tm) = (ss', tm')" by fastforce
  have "length ss' \<le> budget - length ?ss"
    using Cons.IH [of "budget - length ?ss" "set_timers rnd ?ss tm"] unfolding r by simp
  moreover have "length ?ss \<le> budget" by simp
  moreover have "fst (dack_answer rnd seq budget (h # hs) tm) = ?ss @ ss'"
    using r by (simp add: Let_def)
  ultimately show ?case by simp
qed simp

lemma dack_wanted_end: "re \<le> le \<or> unat seq \<le> le \<Longrightarrow> dack_wanted tm rnd seq le re = []"
  by (auto simp: dack_wanted_def)

lemma dack_wanted_step:
  "le < re \<Longrightarrow> le < unat seq \<Longrightarrow> dack_wanted tm rnd seq le re =
     (if dack_due tm rnd seq le then le # dack_wanted tm rnd seq (Suc le) re else dack_wanted tm rnd seq (Suc le) re)"
  by (simp add: dack_wanted_def upt_conv_Cons)

text \<open>Setting the timer of a number that is due changes nothing for the later ones.\<close>

lemma dack_wanted_timer:
  assumes "dack_due tm rnd seq le" and "length tm = 500"
  shows "dack_wanted (tm[le mod 500 := x]) rnd seq (Suc le) re = dack_wanted tm rnd seq (Suc le) re"
  unfolding dack_wanted_def
proof (rule filter_cong [OF refl])
  fix s assume "s \<in> set [Suc le..<min re (unat seq)]"
  then have "le < s" "s < unat seq" by auto
  then have "s mod 500 \<noteq> le mod 500"
    using mod_eq_close [of s 500 le] assms(1) by (auto simp: dack_due_def)
  then show "dack_due (tm[le mod 500 := x]) rnd seq s = dack_due tm rnd seq s"
    by (simp add: dack_due_def)
qed

lemma set_timers_simps [simp]:
  "set_timers rnd [] tm = tm" "set_timers rnd (s # ss) tm = set_timers rnd ss (tm[s mod 500 := ucast (rnd + 6)])"
  "length (set_timers rnd ss tm) = length tm"
  by (simp_all add: set_timers_def) (induction ss arbitrary: tm; simp)

section \<open>The code answers so\<close>

text \<open>A buffered copy that can be sent: not the number five hundred, which the code looks up outside the buffer.\<close>

definition resendable :: "kenv \<Rightarrow> encoding_tx \<Rightarrow> nat \<Rightarrow> bool" where
  "resendable env e s \<longleftrightarrow> s \<noteq> 500 \<and> (\<exists>c. retransmission_buffer e ! (s mod 500) = Some c \<and> 30 \<le> headroom c \<and>
     tx_ready env (length (skb_data c)))"

definition resent :: "kenv \<Rightarrow> encoding_tx \<Rightarrow> nat \<Rightarrow> bytes" where
  "resent env e s = air_frame env (skb_data (the (retransmission_buffer e ! (s mod 500))))"

text \<open>The frames a list of effects hands to the driver.\<close>

fun dumped :: "effect list \<Rightarrow> bytes list" where
  "dumped [] = []"
| "dumped (Dump_mgntframe pa f # es) = f # dumped es"
| "dumped (_ # es) = dumped es"

lemma dumped_append [simp]: "dumped (xs @ ys) = dumped xs @ dumped ys"
  by (induction xs rule: dumped.induct) simp_all

text \<open>What the loops keep of the state.\<close>

definition dl_same :: "dack_loop \<Rightarrow> dack_loop \<Rightarrow> bool" where
  "dl_same dl dl' \<longleftrightarrow> retransmission_buffer (dl_vmact dl') = retransmission_buffer (dl_vmact dl) \<and>
     tx_seq (dl_vmact dl') = tx_seq (dl_vmact dl) \<and> tx_key (dl_vmact dl') = tx_key (dl_vmact dl) \<and>
     rx_enc (dl_st dl') = rx_enc (dl_st dl) \<and> tx_enc (dl_st dl') = tx_enc (dl_st dl) \<and> pidt (dl_st dl') = pidt (dl_st dl)"

lemma dl_same_refl [simp]: "dl_same dl dl" by (simp add: dl_same_def)
lemma dl_same_trans: "dl_same a b \<Longrightarrow> dl_same b c \<Longrightarrow> dl_same a c" by (simp add: dl_same_def)

lemma dack_one_sends:
  assumes "wf_tx (dl_vmact dl)" and "resendable env (dl_vmact dl) (unat le)" and "\<forall>n. alloc_ok env n"
  shows "\<exists>dl'. dack_one env rnd le dl = Inr dl' \<and> dl_same dl dl' \<and> dl_counter dl' = dl_counter dl + 1 \<and>
    tx_timer (dl_vmact dl') = (tx_timer (dl_vmact dl))[unat le mod 500 := ucast (rnd + 6)] \<and>
    dumped (effects (dl_st dl')) = dumped (effects (dl_st dl)) @ [resent env (dl_vmact dl) (unat le)]"
proof -
  let ?e = "dl_vmact dl" and ?slot = "unat le mod 500"
  obtain c where c: "retransmission_buffer ?e ! ?slot = Some c" "30 \<le> headroom c" "tx_ready env (length (skb_data c))"
    and n: "unat le \<noteq> 500"
    using assms(2) by (auto simp: resendable_def)
  have len: "length (retransmission_buffer ?e) = 500" using assms(1) by (simp add: wf_tx_def WINDOW_TX_def)
  have idx: "(if WINDOW_TX < unat le then unat le mod WINDOW_TX else unat le) = ?slot"
    using n by (auto simp: WINDOW_TX_def)
  have get: "array_get (retransmission_buffer ?e) ?slot = Inr (Some c)" using len c(1) by simp
  define st1 where "st1 = (dl_st dl)\<lparr>next_skb := Suc (next_skb (dl_st dl))\<rparr>"
  define s2 where "s2 = c\<lparr>skb_id := next_skb (dl_st dl)\<rparr>"
  have copy: "skb_copy env c (dl_st dl) = (Some s2, st1)"
    using assms(3) by (simp add: skb_copy_def st1_def s2_def)
  have send: "vmac_send_hack env st1 s2 = Inr (tx_sent env st1 s2 1 0 1 0)"
    using c by (simp add: vmac_send_hack_def s2_def vmac_low_tx_sent)
  have s2: "skb_data s2 = skb_data c" "headroom s2 = headroom c" by (simp_all add: s2_def)
  have wf: "wf_ieee80211_hdr (low_tx_hdr env)" using c(3) by (simp add: tx_ready_def)
  have st1: "rx_enc st1 = rx_enc (dl_st dl)" "tx_enc st1 = tx_enc (dl_st dl)" "pidt st1 = pidt (dl_st dl)" "effects st1 = effects (dl_st dl)"
    by (simp_all add: st1_def)
  show ?thesis
    unfolding dack_one_def Let_def idx get rbind_Inr
    using c(1,2) wf
    by (simp add: WINDOW_TX_def copy dack_resend_def send dl_same_def st1 resent_def s2)
qed

lemma unat_ucast_u8_u16 [simp]: "unat (ucast (b :: u8) :: u16) = unat b"
  by (simp add: unsigned_ucast_eq take_bit_nat_eq_self_iff order_less_trans [OF unat_u8_less])

lemma dack_due_code:
  "(ucast (tx_timer e ! (unat le mod WINDOW_TX)) \<le> rnd \<and>
      (if unat seq < WINDOW_TX then 0 else unat seq - WINDOW_TX) \<le> unat le) \<longleftrightarrow>
   dack_due (tx_timer e) rnd seq (unat le)"
  by (auto simp: dack_due_def WINDOW_TX_def word_le_nat_alt)

lemma dack_hole_stop: "\<not> (le < re \<and> le < seq) \<Longrightarrow> dack_hole env rnd seq re le dl = Inr dl"
  by (subst dack_hole.simps) (rule if_not_P)

lemma dack_hole_skip:
  "le < re \<Longrightarrow> le < seq \<Longrightarrow> \<not> dack_due (tx_timer (dl_vmact dl)) rnd seq (unat le) \<Longrightarrow>
   dack_hole env rnd seq re le dl = dack_hole env rnd seq re (le + 1) dl"
  by (subst dack_hole.simps) (simp only: dack_due_code, simp)

lemma dack_hole_due:
  "le < re \<Longrightarrow> le < seq \<Longrightarrow> dack_due (tx_timer (dl_vmact dl)) rnd seq (unat le) \<Longrightarrow>
   dack_hole env rnd seq re le dl = (if 20 \<le> dl_counter dl then Inr dl
     else rbind (dack_one env rnd le dl) (\<lambda>dl. dack_hole env rnd seq re (le + 1) dl))"
  by (subst dack_hole.simps) (simp only: dack_due_code, simp add: maxretx_def)

definition answered :: "kenv \<Rightarrow> u16 \<Rightarrow> nat list \<Rightarrow> dack_loop \<Rightarrow> dack_loop \<Rightarrow> bool" where
  "answered env rnd ss dl dl' \<longleftrightarrow> dl_same dl dl' \<and> dl_counter dl' = dl_counter dl + length ss \<and>
     tx_timer (dl_vmact dl') = set_timers rnd ss (tx_timer (dl_vmact dl)) \<and>
     dumped (effects (dl_st dl')) = dumped (effects (dl_st dl)) @ map (resent env (dl_vmact dl)) ss"

lemma answered_Nil [simp]: "answered env rnd [] dl dl" by (simp add: answered_def)

lemma resent_same: "dl_same dl dl' \<Longrightarrow> resent env (dl_vmact dl') = resent env (dl_vmact dl)"
  by (simp add: resent_def dl_same_def fun_eq_iff)

lemma resendable_same: "dl_same dl dl' \<Longrightarrow> resendable env (dl_vmact dl') = resendable env (dl_vmact dl)"
  by (simp add: resendable_def dl_same_def fun_eq_iff)

lemma answered_append: "answered env rnd ss dl dl1 \<Longrightarrow> answered env rnd ss' dl1 dl2 \<Longrightarrow> answered env rnd (ss @ ss') dl dl2"
  by (auto simp: answered_def set_timers_def resent_same intro: dl_same_trans)

lemma answered_wf: "answered env rnd ss dl dl' \<Longrightarrow> wf_tx (dl_vmact dl) \<Longrightarrow> wf_tx (dl_vmact dl')"
  by (simp add: answered_def wf_tx_def dl_same_def)

lemma dack_hole_answer:
  assumes "wf_tx (dl_vmact dl)" and "\<forall>n. alloc_ok env n"
    and "\<forall>s \<in> set (dack_wanted (tx_timer (dl_vmact dl)) rnd seq (unat le) (unat re)). resendable env (dl_vmact dl) s"
  shows "\<exists>dl'. dack_hole env rnd seq re le dl = Inr dl' \<and>
    answered env rnd (take (20 - dl_counter dl) (dack_wanted (tx_timer (dl_vmact dl)) rnd seq (unat le) (unat re))) dl dl'"
  using assms(1,3)
proof (induction "unat re - unat le" arbitrary: le dl rule: less_induct)
  case less
  let ?tm = "tx_timer (dl_vmact dl)" and ?c = "20 - dl_counter dl"
  let ?w = "\<lambda>tm le. dack_wanted tm rnd seq le (unat re)"
  show ?case
  proof (cases "le < re \<and> le < seq")
    case False
    then have "?w ?tm (unat le) = []"
      by (intro dack_wanted_end) (auto simp: word_less_nat_alt)
    then show ?thesis using False by (simp add: dack_hole_stop)
  next
    case True
    then have lt: "unat re - unat (le + 1) < unat re - unat le" and u: "unat (le + 1) = Suc (unat le)"
      using word_measure_less [of le re] unat_plus_one [of le re] by simp_all
    have w: "?w ?tm (unat le) = (if dack_due ?tm rnd seq (unat le) then unat le # ?w ?tm (Suc (unat le)) else ?w ?tm (Suc (unat le)))"
      using True by (intro dack_wanted_step) (simp_all add: word_less_nat_alt)
    show ?thesis
    proof (cases "dack_due ?tm rnd seq (unat le)")
      case False
      then show ?thesis
        using less.hyps [OF lt less.prems(1)] less.prems(2) True w by (simp add: dack_hole_skip u)
    next
      case due: True
      show ?thesis
      proof (cases "20 \<le> dl_counter dl")
        case True
        then show ?thesis using \<open>le < re \<and> le < seq\<close> due by (simp add: dack_hole_due)
      next
        case False
        have len: "length ?tm = 500" using less.prems(1) by (simp add: wf_tx_def WINDOW_TX_def)
        obtain dl1 where one: "dack_one env rnd le dl = Inr dl1" "answered env rnd [unat le] dl dl1"
          using dack_one_sends [OF less.prems(1) _ assms(2), of le rnd] less.prems(2) due w by (auto simp: answered_def)
        have tm: "?w (tx_timer (dl_vmact dl1)) (Suc (unat le)) = ?w ?tm (Suc (unat le))"
          using one(2) dack_wanted_timer [OF due len] by (simp add: answered_def)
        have "\<forall>s \<in> set (?w (tx_timer (dl_vmact dl1)) (unat (le + 1))). resendable env (dl_vmact dl1) s"
          using less.prems(2) due w tm resendable_same [of dl dl1 env] one(2) by (simp add: u answered_def)
        then obtain dl' where "dack_hole env rnd seq re (le + 1) dl1 = Inr dl'"
          "answered env rnd (take (20 - dl_counter dl1) (?w ?tm (Suc (unat le)))) dl1 dl'"
          using less.hyps [OF lt answered_wf [OF one(2) less.prems(1)]] tm by (auto simp: u)
        moreover from this(2) have "answered env rnd ([unat le] @ take (20 - dl_counter dl1) (?w ?tm (Suc (unat le)))) dl dl'"
          by (rule answered_append [OF one(2)])
        moreover have "take ?c (?w ?tm (unat le)) = [unat le] @ take (20 - dl_counter dl1) (?w ?tm (Suc (unat le)))"
          using False due w one(2) by (simp add: answered_def take_Cons' Suc_diff_le)
        ultimately show ?thesis
          using False \<open>le < re \<and> le < seq\<close> due one(1) by (simp add: dack_hole_due)
      qed
    qed
  qed
qed

text \<open>The numbers of the holes that are still buffered.\<close>

definition asked :: "vmac_hole list \<Rightarrow> u16 \<Rightarrow> nat \<Rightarrow> bool" where
  "asked hs seq s \<longleftrightarrow> (\<exists>h \<in> set hs. hole_covers h s) \<and> s < unat seq \<and> unat seq \<le> s + 500"

lemma dack_holes_answer:
  assumes "wf_tx (dl_vmact dl)" and "\<forall>n. alloc_ok env n" and "\<forall>s. asked hs seq s \<longrightarrow> resendable env (dl_vmact dl) s"
    and "skb_data skb = concat (map vmac_hole_bytes hs) @ rest"
  shows "\<exists>skb' dl'. dack_holes env rnd seq (length hs) skb dl = Inr (skb', dl') \<and> skb_id skb' = skb_id skb \<and>
    (case dack_answer rnd seq (20 - dl_counter dl) hs (tx_timer (dl_vmact dl)) of
      (ss, tm) \<Rightarrow> answered env rnd ss dl dl' \<and> tx_timer (dl_vmact dl') = tm)"
  using assms(1,3,4)
proof (induction hs arbitrary: skb dl)
  case Nil
  then show ?case by simp
next
  case (Cons h hs)
  let ?ss = "take (20 - dl_counter dl) (dack_wanted (tx_timer (dl_vmact dl)) rnd seq (unat (ho_le h)) (unat (ho_re h)))"
  have "\<forall>s \<in> set (dack_wanted (tx_timer (dl_vmact dl)) rnd seq (unat (ho_le h)) (unat (ho_re h))). resendable env (dl_vmact dl) s"
    using Cons.prems(2) by (auto simp: dack_wanted_def dack_due_def asked_def hole_covers_def)
  then obtain dl1 where one: "dack_hole env rnd seq (ho_re h) (ho_le h) dl = Inr dl1" "answered env rnd ?ss dl dl1"
    using dack_hole_answer [OF Cons.prems(1) assms(2)] by blast
  have read: "read_vmac_hole (skb_data skb) = Inr h" using Cons.prems(3) by simp
  have data: "skb_data (skb_pull skb 4) = concat (map vmac_hole_bytes hs) @ rest"
    using Cons.prems(3) by (simp add: skb_pull_def)
  have "\<forall>s. asked hs seq s \<longrightarrow> resendable env (dl_vmact dl1) s"
    using Cons.prems(2) resendable_same [of dl dl1 env] one(2) by (simp add: answered_def asked_def)
  then obtain skb' dl' where two: "dack_holes env rnd seq (length hs) (skb_pull skb 4) dl1 = Inr (skb', dl')" "skb_id skb' = skb_id skb"
    "case dack_answer rnd seq (20 - dl_counter dl1) hs (tx_timer (dl_vmact dl1)) of
      (ss, tm) \<Rightarrow> answered env rnd ss dl1 dl' \<and> tx_timer (dl_vmact dl') = tm"
    using Cons.IH [OF answered_wf [OF one(2) Cons.prems(1)] _ data] by auto
  have b: "20 - dl_counter dl - length ?ss = 20 - dl_counter dl1" "set_timers rnd ?ss (tx_timer (dl_vmact dl)) = tx_timer (dl_vmact dl1)"
    using one(2) unfolding answered_def by simp_all
  obtain ss' tm' where r: "dack_answer rnd seq (20 - dl_counter dl1) hs (tx_timer (dl_vmact dl1)) = (ss', tm')" by fastforce
  have "dack_answer rnd seq (20 - dl_counter dl) (h # hs) (tx_timer (dl_vmact dl)) = (?ss @ ss', tm')"
    unfolding dack_answer.simps Let_def b r prod.case ..
  moreover have "answered env rnd (?ss @ ss') dl dl'" "tx_timer (dl_vmact dl') = tm'"
    using two(3) answered_append [OF one(2)] by (simp_all add: r)
  ultimately show ?case
    using two(1,2) by (intro exI [of _ skb'] exI [of _ dl']) (simp add: read one(1))
qed

text \<open>
  C4: What a DACK makes the sender do: for the holes of the frame, in their order, the buffered copies
  of the numbers that are due (asked for, already sent, among the last five hundred, timer run out) go
  to the driver again, each exactly as it was sent first, at most twenty in all; their timers are set,
  and the DACK is given back. This needs a copy of every number that is asked for and still buffered,
  and that the number five hundred is not among them.
\<close>
theorem vmac_rx_DACK_answer:
  assumes "skb_data skb = dack_air enc rnd hs @ fcs" and "length hs < 65536"
    and "find_tx env st enc = Some e" and "wf_tx e" and "\<forall>s. asked hs (tx_seq e) s \<longrightarrow> resendable env e s" and "\<forall>n. alloc_ok env n"
  shows "\<exists>st' e'. vmac_rx env st skb = Inr st' \<and> find_tx env st' enc = Some e' \<and> wf_tx e' \<and>
    retransmission_buffer e' = retransmission_buffer e \<and> tx_seq e' = tx_seq e \<and>
    (case dack_answer rnd (tx_seq e) 20 hs (tx_timer e) of (ss, tm) \<Rightarrow> tx_timer e' = tm \<and> length ss \<le> 20 \<and>
       dumped (effects st') = dumped (effects st) @ map (resent env e) ss) \<and>
    last (effects st') = Kfree_skb (skb_id skb)"
proof -
  have h: "read_vmac_hdr (skb_data skb) = Inr \<lparr>vh_enc = enc, vh_type = VMAC_HDR_DACK\<rparr>"
    by (simp add: assms(1) dack_air_def)
  let ?skb = "skb_pull skb 9"
  have d1: "skb_data ?skb = vmac_DACK_bytes \<lparr>dk_holes = of_nat (length hs), dk_round = rnd\<rparr> @ concat (map vmac_hole_bytes hs) @ fcs"
    by (simp add: skb_pull_def assms(1) dack_air_def dack_frame_def)
  then have d: "read_vmac_DACK (skb_data ?skb) = Inr \<lparr>dk_holes = of_nat (length hs), dk_round = rnd\<rparr>" by simp
  have d2: "skb_data (skb_pull ?skb 4) = concat (map vmac_hole_bytes hs) @ fcs"
    by (simp add: skb_pull_def [of ?skb] d1)
  have n: "unat (of_nat (length hs) :: u16) = length hs" using assms(2) by (rule unat_of_nat_u16)
  define e1 where "e1 = e\<lparr>dackcounter := dackcounter e + 1\<rparr>"
  define dl where "dl = \<lparr>dl_st = st, dl_vmact = e1, dl_counter = 0, dl_skb2 = None\<rparr>"
  have e1: "wf_tx e1" "\<forall>s. asked hs (tx_seq e) s \<longrightarrow> resendable env e1 s" "resent env e1 = resent env e" "tx_timer e1 = tx_timer e"
    "tx_seq e1 = tx_seq e" "retransmission_buffer e1 = retransmission_buffer e"
    using assms(4,5) by (simp_all add: e1_def wf_tx_def resendable_def resent_def fun_eq_iff)
  obtain ss tm where r: "dack_answer rnd (tx_seq e) 20 hs (tx_timer e) = (ss, tm)" by fastforce
  have "\<exists>skb' dl'. dack_holes env rnd (tx_seq e) (length hs) (skb_pull ?skb 4) dl = Inr (skb', dl') \<and>
      skb_id skb' = skb_id (skb_pull ?skb 4) \<and>
      (case dack_answer rnd (tx_seq e) (20 - dl_counter dl) hs (tx_timer (dl_vmact dl)) of
        (ss, tm) \<Rightarrow> answered env rnd ss dl dl' \<and> tx_timer (dl_vmact dl') = tm)"
    using e1 by (intro dack_holes_answer [OF _ assms(6) _ d2]) (simp_all add: dl_def)
  then obtain skb' dl' where A: "dack_holes env rnd (tx_seq e) (length hs) (skb_pull ?skb 4) dl = Inr (skb', dl')"
    "skb_id skb' = skb_id skb" "answered env rnd ss dl dl'" "tx_timer (dl_vmact dl') = tm"
    by (auto simp: dl_def e1 r)
  have "vmac_rx env st skb = Inr (kfree_skb skb' (put_tx env (dl_st dl') enc (dl_vmact dl')))"
    using A(1) h d n
    by (simp add: vmac_rx_def frame_types vmac_rx_DACK_def assms(3) Let_def e1_def dl_def)
  moreover have "find_tx env (kfree_skb skb' (put_tx env (dl_st dl') enc (dl_vmact dl'))) enc = Some (dl_vmact dl')"
    using find_tx_cong [of "kfree_skb skb' (put_tx env (dl_st dl') enc (dl_vmact dl'))" "put_tx env (dl_st dl') enc (dl_vmact dl')"]
    by (simp add: txtab.find_put)
  moreover have "length ss \<le> 20"
    using length_dack_answer [of rnd "tx_seq e" 20 hs "tx_timer e"] r by simp
  moreover have "wf_tx (dl_vmact dl')" using answered_wf [OF A(3)] e1(1) by (simp add: dl_def)
  ultimately show ?thesis
    using A(2-4) r e1(3,5,6)
    by (intro exI [of _ "kfree_skb skb' (put_tx env (dl_st dl') enc (dl_vmact dl'))"] exI [of _ "dl_vmact dl'"])
      (simp add: answered_def dl_same_def dl_def)
qed

definition example_copy :: "nat \<Rightarrow> sk_buff" where
  "example_copy n = \<lparr>skb_id = n, headroom = 64, skb_data = data_frame 7 (of_nat n) [1, 2, 3], tailroom = 0\<rparr>"

definition example_dack :: sk_buff where
  "example_dack = \<lparr>skb_id = 8, headroom = 64, skb_data = dack_air 7 2 [\<lparr>ho_le = 1, ho_re = 3\<rparr>] @ [9, 9, 9, 9], tailroom = 0\<rparr>"

definition example_sender :: encoding_tx where
  "example_sender = example_tx\<lparr>retransmission_buffer := map (\<lambda>n. Some (example_copy n)) [0..<500]\<rparr>"

theorem vmac_rx_DACK_answer_witness:
  "\<exists>st'. vmac_rx example_env (put_tx example_env example_state 7 example_sender) example_dack = Inr st' \<and>
     dumped (effects st') = [air_frame example_env (data_frame 7 1 [1, 2, 3]), air_frame example_env (data_frame 7 2 [1, 2, 3])]"
proof -
  let ?hs = "[\<lparr>ho_le = 1, ho_re = 3\<rparr>] :: vmac_hole list"
  have buf: "retransmission_buffer example_sender ! s = Some (example_copy s)" if "s < 500" for s
    using that by (simp add: example_sender_def)
  have e: "tx_seq example_sender = 3" "tx_timer example_sender = replicate 500 0" "wf_tx example_sender"
    by (simp_all add: example_sender_def example_tx_def wf_tx_def WINDOW_TX_def)
  have "asked ?hs 3 s \<longrightarrow> resendable example_env example_sender s" for s
    using buf [of s] by (auto simp: asked_def resendable_def example_copy_def)
  moreover have "dack_answer 2 3 20 ?hs (replicate 500 0) = ([1, 2], (replicate 500 0)[1 := 8, 2 := 8])"
  proof -
    have "[1..<3] = [1, 2 :: nat]" by (simp add: upt_rec)
    then show ?thesis by (simp add: dack_wanted_def dack_due_def)
  qed
  ultimately show ?thesis
    using vmac_rx_DACK_answer [of example_dack 7 2 ?hs "[9, 9, 9, 9]" example_env "put_tx example_env example_state 7 example_sender" example_sender]
      buf [of 1] buf [of 2]
    by (auto simp: example_dack_def txtab.find_put e example_env_simps resent_def example_copy_def example_state_def [THEN arg_cong, of effects])
qed

section \<open>Where it goes wrong\<close>

text \<open>
  C32: The number five hundred is looked up at index 500 of a buffer of 500: a DACK that asks for it makes
  the kernel read behind the array (the test before the copy says \<open>>\<close> where the copy says \<open>>=\<close>).
\<close>
theorem dack_index_500:
  assumes "wf_tx (dl_vmact dl)" and "500 < re" and "500 < seq" and "dack_due (tx_timer (dl_vmact dl)) rnd seq 500"
    and "dl_counter dl < 20"
  shows "dack_hole env rnd seq re 500 dl = Inl Index_out_of_bounds"
  using assms dack_hole_due [of 500 re seq dl rnd env]
  by (simp add: dack_one_def Let_def array_get_def wf_tx_def WINDOW_TX_def)

theorem dack_index_500_witness:
  "dack_hole example_env 2 501 502 500 \<lparr>dl_st = example_state, dl_vmact = example_tx\<lparr>tx_seq := 501\<rparr>, dl_counter = 0, dl_skb2 = None\<rparr> =
     Inl Index_out_of_bounds"
  by (rule dack_index_500) (simp_all add: wf_tx_def WINDOW_TX_def dack_due_def, simp_all add: example_tx_def)

text \<open>
  C33: The pointer to the copy keeps its value from one number to the next. When the slot of a number is
  empty after a copy was sent, the copy, which the driver has given back, is written to and sent again.
\<close>
theorem dack_stale_copy:
  assumes "wf_tx (dl_vmact dl)" and "le + 1 < re" and "le + 1 < seq" and "le < le + 1" and "unat le + 1 \<noteq> 500"
    and "resendable env (dl_vmact dl) (unat le)" and "retransmission_buffer (dl_vmact dl) ! ((unat le + 1) mod 500) = None"
    and "dack_due (tx_timer (dl_vmact dl)) rnd seq (unat le)" and "dack_due (tx_timer (dl_vmact dl)) rnd seq (unat le + 1)"
    and "dl_counter dl < 19" and "\<forall>n. alloc_ok env n"
  shows "dack_hole env rnd seq re le dl = Inl Use_after_free"
proof -
  have lt: "le < re" "le < seq" and u: "unat (le + 1) = Suc (unat le)"
    using assms(2-4) unat_plus_one [of le "le + 1"] by (auto intro: less_trans)
  let ?e = "dl_vmact dl" and ?slot = "unat le mod 500"
  obtain c where c: "retransmission_buffer ?e ! ?slot = Some c" "30 \<le> headroom c" "tx_ready env (length (skb_data c))"
    and n: "unat le \<noteq> 500"
    using assms(6) by (auto simp: resendable_def)
  have len: "length (retransmission_buffer ?e) = 500" "length (tx_timer ?e) = 500" using assms(1) by (simp_all add: wf_tx_def WINDOW_TX_def)
  define s2 where "s2 = c\<lparr>skb_id := next_skb (dl_st dl)\<rparr>"
  define st1 where "st1 = (dl_st dl)\<lparr>next_skb := Suc (next_skb (dl_st dl))\<rparr>"
  have copy: "skb_copy env c (dl_st dl) = (Some s2, st1)"
    using assms(11) by (simp add: skb_copy_def st1_def s2_def)
  have s2: "skb_data s2 = skb_data c" "headroom s2 = headroom c" by (simp_all add: s2_def)
  have send: "vmac_send_hack env st1 s2 = Inr (tx_sent env st1 s2 1 0 1 0)"
    using c by (simp add: vmac_send_hack_def s2 vmac_low_tx_sent)
  have wf: "wf_ieee80211_hdr (low_tx_hdr env)" "fst (monitor_alloc_mgtxmitframe env)" using c(3) by (simp_all add: tx_ready_def)
  have idx: "(if WINDOW_TX < unat x then unat x mod WINDOW_TX else unat x) = unat x mod 500" if "unat x \<noteq> 500" for x :: u16
    using that by (auto simp: WINDOW_TX_def)
  have "\<exists>dl1 p. dack_one env rnd le dl = Inr dl1 \<and> dl_skb2 dl1 = Some (p, True) \<and> dl_counter dl1 = Suc (dl_counter dl) \<and>
      retransmission_buffer (dl_vmact dl1) = retransmission_buffer ?e \<and>
      tx_timer (dl_vmact dl1) = (tx_timer ?e)[?slot := ucast (rnd + 6)]"
    unfolding dack_one_def Let_def idx [OF n]
    using c(1,2) wf len
    by (simp add: WINDOW_TX_def copy dack_resend_def send s2)
  then obtain dl1 p where one: "dack_one env rnd le dl = Inr dl1" "dl_skb2 dl1 = Some (p, True)" "dl_counter dl1 = Suc (dl_counter dl)"
    "retransmission_buffer (dl_vmact dl1) = retransmission_buffer ?e" "tx_timer (dl_vmact dl1) = (tx_timer ?e)[?slot := ucast (rnd + 6)]"
    by blast
  have "Suc (unat le) mod 500 \<noteq> ?slot" using mod_eq_close [of "Suc (unat le)" 500 "unat le"] by auto
  then have due: "dack_due (tx_timer (dl_vmact dl1)) rnd seq (unat (le + 1))"
    using assms(9) one(5) by (simp add: dack_due_def u)
  have "dack_one env rnd (le + 1) dl1 = Inl Use_after_free"
  proof -
    have n2: "unat (le + 1) \<noteq> 500" using assms(5) by (simp add: u)
    show ?thesis
      unfolding dack_one_def Let_def idx [OF n2]
      using assms(7) len(1) one(2,4) by (simp add: u dack_resend_def)
  qed
  then show ?thesis
    using dack_hole_due [OF lt assms(8), of env] dack_hole_due [OF assms(2,3) due, of env] assms(10) one(1,3) by simp
qed

theorem dack_stale_copy_witness:
  "dack_hole example_env 2 3 3 1 \<lparr>dl_st = example_state,
     dl_vmact = example_sender\<lparr>retransmission_buffer := (retransmission_buffer example_sender)[2 := None]\<rparr>, dl_counter = 0, dl_skb2 = None\<rparr> =
   Inl Use_after_free"
proof (rule dack_stale_copy)
  have "retransmission_buffer example_sender ! 1 = Some (example_copy 1)" by (simp add: example_sender_def)
  then show "resendable example_env (dl_vmact \<lparr>dl_st = example_state,
     dl_vmact = example_sender\<lparr>retransmission_buffer := (retransmission_buffer example_sender)[2 := None]\<rparr>, dl_counter = 0, dl_skb2 = None\<rparr>) (unat 1)"
    by (simp add: resendable_def example_copy_def)
  have "(retransmission_buffer example_sender)[2 := None] ! 2 = None" by (simp add: example_sender_def)
  then show "retransmission_buffer (dl_vmact \<lparr>dl_st = example_state,
     dl_vmact = example_sender\<lparr>retransmission_buffer := (retransmission_buffer example_sender)[2 := None]\<rparr>, dl_counter = 0,
     dl_skb2 = None\<rparr>) ! ((unat (1 :: u16) + 1) mod 500) = None"
    by (simp add: numeral_2_eq_2 [symmetric] del: nth_list_update_eq)
qed (simp_all add: wf_tx_def WINDOW_TX_def dack_due_def example_env_simps, simp_all add: example_sender_def example_tx_def)
end
