(* ===== verification/Process.thy ===== *)
theory Process
  imports Userspace Dack_Answer
begin

text \<open>
  The user-space library's promises, and the whole way of a data frame: \<open>send_vmac\<close>, \<open>nl_recv\<close>, \<open>vmac_tx\<close>,
  the air, \<open>vmac_override\<close>, \<open>vmac_rx\<close>, \<open>nl_send\<close>, \<open>recvvmac\<close>.
\<close>

section \<open>What the library promises\<close>

text \<open>
  The table is searched to its end: the index is that of the last row with the rate, zero when there
  is none. Rates that occur in several rows therefore get the index of another bandwidth or number of
  streams: 13 Mbps gets 0, the index it has with two streams, although its first row says 1.
\<close>
theorem getrix_last:
  "getrix rate = (case find (\<lambda>row. fst row = rate) (rev rates) of None \<Rightarrow> 0 | Some (r, rix, bw) \<Rightarrow> rix) \<and>
   getrix 130 = 0 \<and> (130, 1, 0, 0, 0) \<in> set rates"
proof -
  have loop: "getrix_loop rs rate ret = (case find (\<lambda>row. fst row = rate) (rev rs) of None \<Rightarrow> ret | Some (r, rix, bw) \<Rightarrow> rix)"
    for rs ret
  proof (induction rs arbitrary: ret)
    case (Cons row rs)
    obtain r rix bw sgi stream where row: "row = (r, rix, bw, sgi, stream)" by (cases row) auto
    have find_snoc: "find P (xs @ [x]) = (case find P xs of None \<Rightarrow> if P x then Some x else None | Some y \<Rightarrow> Some y)"
      for P and xs :: "(nat \<times> u8 \<times> u8 \<times> u8 \<times> u8) list" and x
      by (induction xs) auto
    show ?case
      by (simp add: row Cons.IH find_snoc split: option.splits)
  qed simp
  have "getrix 130 = 0" "(130, 1, 0, 0, 0) \<in> set rates"
    by (simp_all add: getrix_def rates_def)
  then show ?thesis by (simp add: getrix_def loop)
qed

text \<open>
  The name table: a new name can be found under its encoding, adding it again changes nothing, and
  deleting it restores the table; a name whose encoding is taken is silently not added.
\<close>
theorem names_roundtrip:
  assumes "n \<le> length name" and "length (up_key p) = 16" and "unat nlen = n"
  shows "\<exists>p1 p2. add_name p name nlen = Inr p1 \<and> add_name p1 name nlen = Inr p1 \<and> del_name p1 name nlen = Inr p2 \<and>
    (let enc = sip_spec (up_key p) (take n name)
     in case up_names p enc of
          None \<Rightarrow> up_names p1 enc = Some (take n name) \<and> up_names p2 = up_names p
        | Some other \<Rightarrow> up_names p1 = up_names p \<and> up_names p2 = (up_names p)(enc := None))"
proof -
  let ?enc = "sip_spec (up_key p) (take n name)" and ?p = "p\<lparr>up_digest64 := sip_spec (up_key p) (take n name)\<rparr>"
  have sip: "siphash24 name n (up_key p) = Inr ?enc"
    using siphash24_is_spec [OF assms(2), of "take n name" "drop n name"] assms(1) by simp
  show ?thesis
  proof (cases "up_names p ?enc")
    case None
    then show ?thesis
      by (intro exI [of _ "?p\<lparr>up_names := (up_names p)(?enc \<mapsto> take n name)\<rparr>"] exI [of _ "?p\<lparr>up_names := (up_names p)(?enc := None)\<rparr>"])
        (simp add: add_name_def del_name_def sip assms(3) fun_upd_idem)
  next
    case (Some other)
    then show ?thesis
      by (intro exI [of _ ?p] exI [of _ "?p\<lparr>up_names := (up_names p)(?enc := None)\<rparr>"])
        (simp add: add_name_def del_name_def sip assms(3))
  qed
qed

definition example_lib :: vmac_lib_priv where
  "example_lib = \<lparr>up_names = Map.empty, up_digest64 = 0, up_key = [0, 1, 2, 3, 4, 5, 6, 7, 8, 9, 10, 11, 12, 13, 14, 15], up_pid = 42,
     up_area = replicate 1984 0\<rparr>"

theorem names_roundtrip_witness:
  "\<exists>p1 p2. add_name example_lib [97, 98] 2 = Inr p1 \<and> del_name p1 [97, 98] 2 = Inr p2 \<and> up_names p2 = Map.empty"
  using names_roundtrip [of 2 "[97, 98]" example_lib 2] by (auto simp: example_lib_def Let_def)

section \<open>From process to process\<close>

text \<open>What \<open>send_vmac\<close> hands to the kernel.\<close>

lemma send_vmac_message:
  fixes p :: vmac_lib_priv and frame :: vmac_frame and meta :: meta_data
  assumes "length (up_area p) = 1984" and "length (up_key p) = 16" and "unat (fr_len frame) \<le> 1900"
    and "unat (fr_len frame) \<le> length (fr_buf frame)" and "unat (fr_name_len frame) \<le> length (fr_InterestName frame)"
  defines "len \<equiv> unat (fr_len frame)"
    and "enc \<equiv> sip_spec (up_key p) (take (unat (fr_name_len frame)) (fr_InterestName frame))"
    and "txc \<equiv> \<lparr>ct_type = md_type meta, ct_enc = sip_spec (up_key p) (take (unat (fr_name_len frame)) (fr_InterestName frame)),
       ct_seq = md_seq meta, ct_rate = md_rate meta, ct_bw = md_bw meta, ct_sgi = md_sgi meta, ct_stream = md_stream meta\<rparr>"
  shows "\<exists>p' m rest. send_vmac p frame meta = Inr (p', m) \<and> nl_type m = ucast (md_type meta) \<and> nl_len m = of_nat (len + 100) \<and>
    nl_data m = control_bytes txc @ take len (fr_buf frame) @ rest \<and> length rest = 69 \<and> length (up_area p') = 1984 \<and> up_key p' = up_key p"
proof -
  have sip: "siphash24 (fr_InterestName frame) (unat (fr_name_len frame)) (up_key p) = Inr enc"
    using siphash24_is_spec [OF assms(2), of "take (unat (fr_name_len frame)) (fr_InterestName frame)" "drop (unat (fr_name_len frame)) (fr_InterestName frame)"]
      assms(5) by (simp add: enc_def)
  define area where "area = control_bytes txc @ take len (fr_buf frame) @ drop (15 + len) (up_area p)"
  have l: "len \<le> 1900" "len \<le> length (fr_buf frame)" using assms(3,4) by (simp_all add: len_def)
  have m1: "memcpy_at (up_area p) 0 (control_bytes txc) = Inr (control_bytes txc @ drop 15 (up_area p))"
    using assms(1) by (simp add: memcpy_at_def)
  have m2: "memcpy_at (control_bytes txc @ drop 15 (up_area p)) 15 (take len (fr_buf frame)) = Inr area"
    using assms(1) l by (simp add: memcpy_at_def area_def ac_simps)
  have la: "length area = 1984" using assms(1) l by (simp add: area_def)
  have "take (84 + len) area = control_bytes txc @ take len (fr_buf frame) @ take 69 (drop (15 + len) (up_area p))"
    "length (take 69 (drop (15 + len) (up_area p))) = 69"
    using l assms(1) by (simp_all add: area_def)
  then have "\<exists>rest. take (84 + len) area = control_bytes txc @ take len (fr_buf frame) @ rest \<and> length rest = 69" by blast
  moreover have "\<lparr>ct_type = md_type meta, ct_enc = enc, ct_seq = md_seq meta, ct_rate = md_rate meta, ct_bw = md_bw meta,
      ct_sgi = md_sgi meta, ct_stream = md_stream meta\<rparr> = txc"
    by (simp add: txc_def enc_def)
  ultimately show ?thesis
    using assms(1) l la by (simp add: send_vmac_def sip Let_def m1 m2 len_def [symmetric])
qed

lemma nl_recv_data:
  assumes "nl_type m = ucast VMAC_HDR_DATA" and "nl_len m = of_nat (length payload + 100)" and "length payload \<le> 1900"
    and "nl_data m = control_bytes txc @ payload @ rest" and "\<forall>n. alloc_ok env n"
  shows "\<exists>st1 skb. nl_recv env st m = vmac_tx env st1 skb (ct_enc txc) VMAC_HDR_DATA (stack_seq_addr env)
      (ct_rate txc) (ct_bw txc) (ct_sgi txc) (ct_stream txc) \<and>
    skb_data skb = payload \<and> 100 \<le> headroom skb \<and> tx_enc st1 = tx_enc st \<and> effects st1 = effects st"
proof -
  let ?len = "length payload"
  have "unat (nl_len m) = ?len + 100"
    using assms(2,3) by (simp add: unat_of_nat take_bit_eq_mod del: of_nat_add)
  then have u: "unat (nl_len m - 100) = ?len" "unat (nl_len m + 100) = ?len + 200"
    using assms(3) by (simp_all add: unat_sub word_le_nat_alt unat_word_ariths)
  define st1 where "st1 = (if pidt st \<noteq> nl_pid m then st\<lparr>pidt := nl_pid m\<rparr> else st)"
  define st2 where "st2 = st1\<lparr>next_skb := Suc (next_skb st1)\<rparr>"
  define skb where "skb = \<lparr>skb_id = next_skb st1, headroom = NET_SKB_PAD env + 100, skb_data = payload, tailroom = 100\<rparr>"
  have type: "(ucast (nl_type m) :: u8) = VMAC_HDR_DATA"
    by (simp add: assms(1) frame_types)
  have "nl_recv env st m = vmac_tx env st2 skb (ct_enc txc) VMAC_HDR_DATA (stack_seq_addr env)
      (ct_rate txc) (ct_bw txc) (ct_sgi txc) (ct_stream txc)"
    unfolding nl_recv_def Let_def st1_def [symmetric] type
    using assms(4,5) u by (simp add: frame_types dev_alloc_skb_def skb_reserve_def st2_def skb_def)
  then show ?thesis
    by (intro exI [of _ st2] exI [of _ skb]) (simp add: skb_def st2_def st1_def)
qed

lemma recvvmac_message:
  assumes "length payload \<le> 1900"
  shows "recvvmac frame0 meta0 junk (rx_message env st n enc type seq payload) =
    Inr (frame0\<lparr>fr_buf := payload, fr_len := of_nat (length payload)\<rparr>, meta0\<lparr>md_type := type, md_seq := seq, md_enc := enc\<rparr>)"
proof -
  have "unat (of_nat (length payload + 100) :: u32) = length payload + 100"
    using assms by (simp add: unat_of_nat take_bit_eq_mod del: of_nat_add)
  then have u: "unat (of_nat (length payload + 100) - 100 :: u32) = length payload" "\<not> of_nat (length payload + 100) < (100 :: u32)"
    by (simp_all add: unat_sub word_le_nat_alt word_less_nat_alt del: of_nat_add)
  show ?thesis
    using assms u by (simp add: recvvmac_def rx_message_def MAX_PAYLOAD_def Let_def del: of_nat_add)
qed

text \<open>
  C1: A data frame from process to process. What one process gives to \<open>send_vmac\<close> as the data of a name
  that its kernel knows leaves that kernel as one frame; received anywhere by a kernel that knows the
  name too and has not received the number, it reaches the callback of the process there with the same
  bytes, the encoding of the name and the number the sender's kernel gave it.
\<close>
theorem process_to_process:
  fixes p :: vmac_lib_priv and frame :: vmac_frame and meta :: meta_data
  assumes "length (up_area p) = 1984" and "length (up_key p) = 16" and "unat (fr_len frame) \<le> 1900"
    and "unat (fr_len frame) \<le> length (fr_buf frame)" and "unat (fr_name_len frame) \<le> length (fr_InterestName frame)"
    and "md_type meta = VMAC_HDR_DATA" and "enc = sip_spec (up_key p) (take (unat (fr_name_len frame)) (fr_InterestName frame))"
    and "find_tx env0 st0 enc = Some e" and "wf_tx e" and "tx_ready env0 (11 + unat (fr_len frame))" and "\<forall>n. alloc_ok env0 n"
    and "find_rx env st enc = Some v" and "rx_inv v" and "rx_env_ok env" and "pidt st \<noteq> -1" and "\<forall>n. alloc_ok env n"
    and "unat (latest v) < unat (tx_seq e) + 700" and "unat (tx_seq e) \<notin> rx_received v"
    and "rtap_ok hal a" and "64 \<le> headroom skb" and "length fcs = 4"
  shows "\<exists>p' m st0' pa f st' msg. send_vmac p frame meta = Inr (p', m) \<and> nl_recv env0 st0 m = Inr st0' \<and>
    Dump_mgntframe pa f \<in> set (effects st0') \<and>
    recv_frame_monitor hal a False env st \<lparr>rf_id = i, rf_data = f @ fcs, rf_pkt = Some skb\<rparr> = Inr (1, st') \<and>
    Nlmsg_unicast msg \<in> set (effects st') \<and> nm_pid msg = pidt st \<and>
    recvvmac frame0 meta0 junk msg =
      Inr (frame0\<lparr>fr_buf := take (unat (fr_len frame)) (fr_buf frame), fr_len := fr_len frame\<rparr>,
           meta0\<lparr>md_type := VMAC_HDR_DATA, md_seq := tx_seq e, md_enc := enc\<rparr>)"
proof -
  let ?data = "take (unat (fr_len frame)) (fr_buf frame)"
  have len: "length ?data = unat (fr_len frame)" using assms(4) by simp
  obtain p' m rest txc where m: "send_vmac p frame meta = Inr (p', m)" "nl_type m = ucast VMAC_HDR_DATA"
    "nl_len m = of_nat (length ?data + 100)" "nl_data m = control_bytes txc @ ?data @ rest" "ct_enc txc = enc"
    using send_vmac_message [OF assms(1-5), of meta] assms(6,7) len by (metis control.select_convs(2))
  obtain st1 skb1 where r: "nl_recv env0 st0 m = vmac_tx env0 st1 skb1 enc VMAC_HDR_DATA (stack_seq_addr env0)
      (ct_rate txc) (ct_bw txc) (ct_sgi txc) (ct_stream txc)" "skb_data skb1 = ?data" "100 \<le> headroom skb1" "tx_enc st1 = tx_enc st0"
    using nl_recv_data [OF m(2,3) _ m(4) assms(11), of st0] assms(3) len m(5) by auto
  have f1: "find_tx env0 st1 enc = Some e" using find_tx_cong [OF r(4)] assms(8) by simp
  have "\<exists>st0' pa. nl_recv env0 st0 m = Inr st0' \<and>
      Dump_mgntframe pa (air_frame env0 (data_frame enc (tx_seq e) ?data)) \<in> set (effects st0')"
    using vmac_tx_data_run [OF f1 assms(9), of skb1 "stack_seq_addr env0" "ct_rate txc" "ct_bw txc" "ct_sgi txc" "ct_stream txc"]
      r assms(10,11) len by fastforce
  then obtain st0' pa where s: "nl_recv env0 st0 m = Inr st0'"
    "Dump_mgntframe pa (air_frame env0 (data_frame enc (tx_seq e) ?data)) \<in> set (effects st0')" by blast
  let ?rf = "\<lparr>rf_id = i, rf_data = air_frame env0 (data_frame enc (tx_seq e) ?data) @ fcs, rf_pkt = Some skb\<rparr>"
  have wf: "wf_ieee80211_hdr (stack_hdr env0)" using assms(10) by (simp add: tx_ready_def)
  obtain skb' where o: "skb_data skb' = data_frame enc (tx_seq e) ?data @ fcs"
    "recv_frame_monitor hal a False env st ?rf = rbind (vmac_rx env st skb') (\<lambda>st. Inr (1, vmac_free_recvframe ?rf st))"
    using monitor_air [OF assms(19) wf, of ?rf skb "data_frame enc (tx_seq e) ?data" fcs env st] assms(20) by auto
  have d: "skb_data skb' = data_frame enc (tx_seq e) (?data @ fcs)" using o(1) by (simp add: data_frame_def)
  have small: "length ?data < 2 ^ 31" using assms(3) len by simp
  have "\<exists>st2 n. vmac_rx env st skb' = Inr st2 \<and>
      Nlmsg_unicast (rx_message env st n enc VMAC_HDR_DATA (tx_seq e) ?data) \<in> set (effects st2)"
    using vmac_rx_data_delivers [OF d assms(21) small assms(12-18)] by fastforce
  then obtain st2 n where t: "vmac_rx env st skb' = Inr st2"
    "Nlmsg_unicast (rx_message env st n enc VMAC_HDR_DATA (tx_seq e) ?data) \<in> set (effects st2)" by blast
  have "recvvmac frame0 meta0 junk (rx_message env st n enc VMAC_HDR_DATA (tx_seq e) ?data) =
      Inr (frame0\<lparr>fr_buf := ?data, fr_len := fr_len frame\<rparr>, meta0\<lparr>md_type := VMAC_HDR_DATA, md_seq := tx_seq e, md_enc := enc\<rparr>)"
    using recvvmac_message [of ?data] assms(3) len by simp
  moreover have "nm_pid (rx_message env st n enc VMAC_HDR_DATA (tx_seq e) ?data) = pidt st" by (simp add: rx_message_def)
  ultimately show ?thesis
    using m(1) s o(2) t by (intro exI conjI) (assumption | simp add: vmac_free_recvframe_def)+
qed

text \<open>A name known to both kernels; the sender's next number is 3.\<close>

definition example_frame :: vmac_frame where
  "example_frame = \<lparr>fr_buf = [104, 105], fr_len = 2, fr_InterestName = [97, 98], fr_name_len = 2\<rparr>"

definition example_meta :: meta_data where
  "example_meta = \<lparr>md_type = VMAC_HDR_DATA, md_seq = 0, md_rate = 1, md_bw = 0, md_sgi = 1, md_stream = 0, md_enc = 0\<rparr>"

definition example_kernel :: "u64 \<Rightarrow> vmac" where
  "example_kernel enc = example_state\<lparr>tx_enc := (\<lambda>b. if b = ucast enc then [example_tx\<lparr>tx_key := enc\<rparr>] else []),
     rx_enc := (\<lambda>b. if b = ucast enc then [example_rx\<lparr>rx_key := enc\<rparr>] else [])\<rparr>"

definition example_enc :: u64 where
  "example_enc = sip_spec (up_key example_lib) [97, 98]"

theorem process_to_process_witness:
  "\<exists>p' m st0' pa f st' msg. send_vmac example_lib example_frame example_meta = Inr (p', m) \<and>
    nl_recv example_env (example_kernel example_enc) m = Inr st0' \<and> Dump_mgntframe pa f \<in> set (effects st0') \<and>
    recv_frame_monitor example_hal full_attrib False example_env (example_kernel example_enc) \<lparr>rf_id = 5, rf_data = f @ [9, 9, 9, 9], rf_pkt = Some example_skb\<rparr> = Inr (1, st') \<and>
    Nlmsg_unicast msg \<in> set (effects st') \<and>
    (\<exists>frame meta. recvvmac example_frame example_meta [] msg = Inr (frame, meta) \<and> fr_buf frame = [104, 105] \<and> md_seq meta = 3)"
proof -
  let ?e = "example_tx\<lparr>tx_key := example_enc\<rparr>" and ?v = "example_rx\<lparr>rx_key := example_enc\<rparr>"
  have h: "hash example_env = ucast" by (simp add: example_env_def fun_eq_iff)
  have t: "find_tx example_env (example_kernel example_enc) example_enc = Some ?e" "find_rx example_env (example_kernel example_enc) example_enc = Some ?v"
    by (simp_all add: find_tx_def find_rx_def example_kernel_def h)
  have w: "wf_tx ?e" "rx_inv ?v" "rx_received ?v = {}" "latest ?v = 0" "tx_seq ?e = 3"
    by (simp_all add: wf_tx_def example_tx_def WINDOW_TX_def)
      (simp_all add: rx_inv_def wf_rx_def rx_received_def example_rx_def WINDOW_def)
  have "pidt (example_kernel example_enc) \<noteq> -1"
    by (simp add: example_kernel_def example_state_def)
  then show ?thesis
    using process_to_process [where p = example_lib and frame = example_frame and meta = example_meta and enc = example_enc and
        env0 = example_env and ?st0.0 = "example_kernel example_enc" and e = ?e and env = example_env and st = "example_kernel example_enc" and v = ?v and
        hal = example_hal and a = full_attrib and fcs = "[9, 9, 9, 9]" and i = 5 and skb = example_skb and ?frame0.0 = example_frame and
        ?meta0.0 = example_meta and junk = "[]"] t w
    by (fastforce simp: example_lib_def example_frame_def example_meta_def example_enc_def example_env_simps example_rx_inv example_rtap)
qed
end
