(* ===== verification/Clean.thy ===== *)
theory Clean
  imports Vmac_Rx
begin

text \<open>
  The end of an entry, \<^verbatim>\<open>kernel/core/clean.c\<close>: thirty seconds after the last use of an encoding its
  timer runs \<open>__cleanup_rx\<close> or \<open>__cleanup_tx\<close>, which call \<open>process\<close>. The receive branch gives back
  neither the pending DACK nor the timer of the entry; the sending branch gives back the frames
  of the retransmission buffer.
\<close>

text \<open>The loop over the retransmission buffer, from slot \<open>i\<close> for \<open>n\<close> slots.\<close>

fun free_buffer :: "sk_buff option list \<Rightarrow> nat \<Rightarrow> nat \<Rightarrow> vmac \<Rightarrow> vmac" where
  "free_buffer buf i 0 st = st"
| "free_buffer buf i (Suc n) st =
     free_buffer buf (Suc i) n
       (case buf ! i of None \<Rightarrow> st | Some skb \<Rightarrow> kfree_skb skb st)"

definition process :: "kenv \<Rightarrow> vmac \<Rightarrow> enc_cleanup \<Rightarrow> vmac" where
  "process env st clean =
     (if cl_type clean = CLEAN_ENC_RX then
        (case find_rx env st (cl_enc clean) of
           None \<Rightarrow> st
         | Some vmacr \<Rightarrow> del_rx env st (cl_enc clean))
      else
        (case find_tx env st (cl_enc clean) of
           None \<Rightarrow> st
         | Some vmact \<Rightarrow>
             del_tx env
               (free_buffer (retransmission_buffer vmact) 0
                 (if unat (tx_seq vmact) < WINDOW_TX then unat (tx_seq vmact) else WINDOW_TX) st)
               (cl_enc clean)))"

text \<open>The timers of the entries found under \<open>enc\<close>.\<close>

definition cleanup_rx :: "kenv \<Rightarrow> vmac \<Rightarrow> u64 \<Rightarrow> vmac" where
  "cleanup_rx env st enc =
     (case find_rx env st enc of
        None \<Rightarrow> st
      | Some vmacr \<Rightarrow>
          (let vmacr = vmacr\<lparr>rx_enc_timeout := None,
                             rx_clean := (rx_clean vmacr)\<lparr>cl_type := CLEAN_ENC_RX\<rparr>\<rparr>
           in process env (put_rx env st enc vmacr) (rx_clean vmacr)))"

definition cleanup_tx :: "kenv \<Rightarrow> vmac \<Rightarrow> u64 \<Rightarrow> vmac" where
  "cleanup_tx env st enc =
     (case find_tx env st enc of
        None \<Rightarrow> st
      | Some vmact \<Rightarrow>
          (let vmact = vmact\<lparr>tx_enc_timeout := None,
                             tx_clean := (tx_clean vmact)\<lparr>cl_type := CLEAN_ENC_TX\<rparr>\<rparr>
           in process env (put_tx env st enc vmact) (tx_clean vmact)))"

section \<open>What is given back\<close>

definition buffered :: "sk_buff option list \<Rightarrow> effect list" where
  "buffered buf = map (\<lambda>s. Kfree_skb (skb_id s)) (List.map_filter id buf)"

lemma buffered_simps [simp]:
  "buffered [] = []" "buffered (None # bs) = buffered bs"
  "buffered (Some s # bs) = Kfree_skb (skb_id s) # buffered bs"
  by (simp_all add: buffered_def List.map_filter_simps)

lemma free_buffer_effects:
  "i + n \<le> length buf \<Longrightarrow>
   effects (free_buffer buf i n st) = effects st @ buffered (take n (drop i buf))"
proof (induction n arbitrary: i st)
  case (Suc n)
  then have "drop i buf = buf ! i # drop (Suc i) buf"
    by (simp add: Cons_nth_drop_Suc)
  then show ?case
    using Suc by (cases "buf ! i") simp_all
qed simp

lemma free_buffer_tables [simp]:
  "rx_enc (free_buffer buf i n st) = rx_enc st" "tx_enc (free_buffer buf i n st) = tx_enc st"
  by (induction n arbitrary: i st) (simp_all split: option.splits)


lemma free_buffer_find [simp]: "find_tx env (free_buffer buf i n st) k = find_tx env st k"
  by (rule find_tx_cong) simp

text \<open>
  C22: When the time-out of a sending entry fires, the entry is gone, and what is given back is exactly
  this: of the first slots of its buffer, as many as its sequence number says and at most five hundred,
  every copy they hold, once, in the order of the slots; entries of other buckets stay. The copies in the
  slots above are not given back. As long as the number has not wrapped no frame was put into those slots; it is
  16 bits wide, so after 65536 frames it starts at zero again with every slot filled, and a time-out then
  leaks up to five hundred copies.
\<close>
theorem cleanup_tx_frees:
  assumes "find_tx env st enc = Some e" and "cl_enc (tx_clean e) = enc" and "wf_tx e" and "txtab.single st"
  shows "find_tx env (cleanup_tx env st enc) enc = None \<and>
    effects (cleanup_tx env st enc) = effects st @ buffered (take (min (unat (tx_seq e)) 500) (retransmission_buffer e)) \<and>
    rx_enc (cleanup_tx env st enc) = rx_enc st \<and>
    (\<forall>k. hash env k \<noteq> hash env enc \<longrightarrow> find_tx env (cleanup_tx env st enc) k = find_tx env st k)"
proof -
  define e' where "e' = e\<lparr>tx_enc_timeout := None, tx_clean := (tx_clean e)\<lparr>cl_type := CLEAN_ENC_TX\<rparr>\<rparr>"
  define st1 where "st1 = put_tx env st enc e'"
  define n where "n = (if unat (tx_seq e) < 500 then unat (tx_seq e) else 500)"
  have n_min: "min (unat (tx_seq e)) 500 = n" by (simp add: n_def)
  have f: "find_tx env st1 k = (if hash env k = hash env enc then Some e' else find_tx env st k)" for k
    by (simp add: st1_def txtab.find_put)
  have s: "txtab.single (free_buffer (retransmission_buffer e') 0 n st1)"
    using txtab.single_put [OF assms(4)] by (simp add: st1_def txtab.single_def)
  have run: "cleanup_tx env st enc = del_tx env (free_buffer (retransmission_buffer e') 0 n st1) enc"
    using assms(1,2) f [of enc]
    by (simp add: cleanup_tx_def process_def st1_def e'_def n_def Let_def WINDOW_TX_def)
  have eff: "effects (free_buffer (retransmission_buffer e') 0 n st1) = effects st @ buffered (take n (retransmission_buffer e))"
    using assms(3) by (subst free_buffer_effects) (simp_all add: e'_def wf_tx_def WINDOW_TX_def n_def st1_def)
  show ?thesis
    using txtab.find_del [OF s, of env enc] eff by (simp add: run f n_min) (simp add: st1_def)
qed

text \<open>
  C34: When the time-out of a receive entry fires, the entry is gone, and nothing else happens: a DACK that
  waits in it is not given back (no effect follows, and nothing in the tables points to it any more),
  and its timer is not stopped: when that timer runs it reads the memory that was freed.
\<close>
theorem cleanup_rx_leaks:
  assumes "find_rx env st enc = Some v" and "cl_enc (rx_clean v) = enc" and "rxtab.single st"
  shows "find_rx env (cleanup_rx env st enc) enc = None \<and> effects (cleanup_rx env st enc) = effects st \<and>
    tx_enc (cleanup_rx env st enc) = tx_enc st \<and>
    (\<forall>k. hash env k \<noteq> hash env enc \<longrightarrow> find_rx env (cleanup_rx env st enc) k = find_rx env st k) \<and>
    (dack_timer v \<noteq> None \<longrightarrow> sendDACK env (cleanup_rx env st enc) enc = Inl Use_after_free)"
proof -
  define v' where "v' = v\<lparr>rx_enc_timeout := None, rx_clean := (rx_clean v)\<lparr>cl_type := CLEAN_ENC_RX\<rparr>\<rparr>"
  have run: "cleanup_rx env st enc = del_rx env (put_rx env st enc v') enc"
    using assms(1,2) by (simp add: cleanup_rx_def process_def v'_def rxtab.find_put)
  show ?thesis
    by (simp add: run rxtab.find_del [OF rxtab.single_put [OF assms(3)]] rxtab.find_put sendDACK_def)
qed

lemma example_single: "txtab.single example_state" "rxtab.single example_state"
  using example_keyed by (auto simp: txtab.keyed_def rxtab.keyed_def)

text \<open>A sender whose number has wrapped and is two again, with copies in its first three slots.\<close>

definition wrapped_tx :: encoding_tx where
  "wrapped_tx = example_tx\<lparr>tx_seq := 2, retransmission_buffer := map (\<lambda>i. Some (example_skb\<lparr>skb_id := i\<rparr>)) [20, 21, 22] @ replicate 497 None\<rparr>"

theorem cleanup_tx_frees_witness:
  "find_tx example_env (cleanup_tx example_env (put_tx example_env example_state 7 wrapped_tx) 7) 7 = None \<and>
   effects (cleanup_tx example_env (put_tx example_env example_state 7 wrapped_tx) 7) = [Kfree_skb 20, Kfree_skb 21]"
proof -
  have f: "find_tx example_env (put_tx example_env example_state 7 wrapped_tx) 7 = Some wrapped_tx"
    by (simp add: txtab.find_put)
  have w: "cl_enc (tx_clean wrapped_tx) = 7" "wf_tx wrapped_tx"
    by (simp_all add: wrapped_tx_def example_tx_def wf_tx_def WINDOW_TX_def)
  have e: "effects (put_tx example_env example_state 7 wrapped_tx) = []" by (simp add: put_tx_def example_state_def)
  show ?thesis
    using cleanup_tx_frees [OF f w txtab.single_put [OF example_single(1)]] e by (simp add: wrapped_tx_def)
qed

text \<open>A receiver with a DACK waiting and its timer armed.\<close>

definition waiting_rx :: encoding_rx where
  "waiting_rx = example_rx\<lparr>dack_timer := Some 1100, dac_info := (dac_info example_rx)\<lparr>di_send := 1, di_dack := Some example_skb\<rparr>\<rparr>"

theorem cleanup_rx_leaks_witness:
  "find_rx example_env (cleanup_rx example_env (put_rx example_env example_state 7 waiting_rx) 7) 7 = None \<and>
   effects (cleanup_rx example_env (put_rx example_env example_state 7 waiting_rx) 7) = [] \<and>
   sendDACK example_env (cleanup_rx example_env (put_rx example_env example_state 7 waiting_rx) 7) 7 = Inl Use_after_free"
proof -
  have f: "find_rx example_env (put_rx example_env example_state 7 waiting_rx) 7 = Some waiting_rx"
    by (simp add: rxtab.find_put)
  have w: "cl_enc (rx_clean waiting_rx) = 7" "dack_timer waiting_rx \<noteq> None"
    by (simp_all add: waiting_rx_def example_rx_def)
  have e: "effects (put_rx example_env example_state 7 waiting_rx) = []" by (simp add: put_rx_def example_state_def)
  show ?thesis
    using cleanup_rx_leaks [OF f w(1) rxtab.single_put [OF example_single(2)]] e w(2) by simp
qed
end
