(* ===== verification/Vmac_System.thy ===== *)
theory Vmac_System
  imports Process Clean
begin

text \<open>
  The V-MAC module as a whole: a step relation over netlink messages, received frames and timers, the
  invariant of its state, and what follows for every state it can reach. The memory \<open>vmalloc\<close> returns
  may hold anything of the right shape.
\<close>

section \<open>What the operations leave alone\<close>

definition same_tables :: "vmac \<Rightarrow> vmac \<Rightarrow> bool" where
  "same_tables st st' \<longleftrightarrow> rx_enc st' = rx_enc st \<and> tx_enc st' = tx_enc st"

lemma same_tables_refl [simp]: "same_tables st st" by (simp add: same_tables_def)

lemma same_tables_trans: "same_tables a b \<Longrightarrow> same_tables b c \<Longrightarrow> same_tables a c"
  by (simp add: same_tables_def)

lemma xmit_mo_tables: "xmit_mo env st skb r b g s = Inr (x, st') \<Longrightarrow> same_tables st st' \<and> pidt st' = pidt st"
  by (auto simp: xmit_mo_def same_tables_def Let_def split: if_splits)

lemma vmac_low_tx_tables: "vmac_low_tx env st skb q r b g s = Inr st' \<Longrightarrow> same_tables st st' \<and> pidt st' = pidt st"
  by (auto simp: vmac_low_tx_def rbind_eq_Inr dest: xmit_mo_tables)

lemma nl_send_tables: "nl_send env st skb enc t q = Inr st' \<Longrightarrow> same_tables st st' \<and> pidt st' = pidt st"
  by (auto simp: nl_send_def same_tables_def Let_def split: if_splits)

text \<open>The loops over a DACK keep the tables; the entry they work on keeps its shape and key.\<close>

definition dl_keeps :: "dack_loop \<Rightarrow> dack_loop \<Rightarrow> bool" where
  "dl_keeps dl dl' \<longleftrightarrow> same_tables (dl_st dl) (dl_st dl') \<and> pidt (dl_st dl') = pidt (dl_st dl) \<and>
     (wf_tx (dl_vmact dl) \<longrightarrow> wf_tx (dl_vmact dl')) \<and> tx_key (dl_vmact dl') = tx_key (dl_vmact dl)"

lemma dl_keeps_refl [simp]: "dl_keeps dl dl" by (simp add: dl_keeps_def)

lemma dl_keeps_trans: "dl_keeps a b \<Longrightarrow> dl_keeps b c \<Longrightarrow> dl_keeps a c"
  by (auto simp: dl_keeps_def intro: same_tables_trans)

lemma dack_resend_keeps: "dack_resend env dl = Inr dl' \<Longrightarrow> dl_keeps dl dl'"
  by (auto simp: dack_resend_def rbind_eq_Inr vmac_send_hack_def dl_keeps_def wf_tx_def dest!: vmac_low_tx_tables
      split: option.splits if_splits)

lemma dack_one_keeps: "dack_one env rnd le dl = Inr dl' \<Longrightarrow> dl_keeps dl dl'"
proof -
  assume a: "dack_one env rnd le dl = Inr dl'"
  define copied where "copied b = (case b of None \<Rightarrow> dl | Some (_ :: sk_buff) \<Rightarrow>
      (case retransmission_buffer (dl_vmact dl) ! (unat le mod WINDOW_TX) of None \<Rightarrow> dl
       | Some c \<Rightarrow> (case skb_copy env c (dl_st dl) of (skb2, st) \<Rightarrow>
           dl\<lparr>dl_st := st, dl_counter := dl_counter dl + 1, dl_skb2 := map_option (\<lambda>s. (s, False)) skb2\<rparr>)))" for b
  obtain b where b: "array_get (retransmission_buffer (dl_vmact dl))
      (if WINDOW_TX < unat le then unat le mod WINDOW_TX else unat le) = Inr b"
    using a by (cases "array_get (retransmission_buffer (dl_vmact dl))
        (if WINDOW_TX < unat le then unat le mod WINDOW_TX else unat le)") (simp_all add: dack_one_def)
  define dl1 where "dl1 = copied b"
  have r: "dack_resend env (dl1\<lparr>dl_vmact := (dl_vmact dl1)\<lparr>tx_timer := (tx_timer (dl_vmact dl))[unat le mod WINDOW_TX := ucast (rnd + 6)]\<rparr>\<rparr>) = Inr dl'"
    using a unfolding dack_one_def Let_def b rbind_Inr dl1_def copied_def .
  have d: "dl1 = dl \<or> (\<exists>c skb2 st. skb_copy env c (dl_st dl) = (skb2, st) \<and>
       dl1 = dl\<lparr>dl_st := st, dl_counter := dl_counter dl + 1, dl_skb2 := map_option (\<lambda>s. (s, False)) skb2\<rparr>)"
  proof (cases "b = None \<or> retransmission_buffer (dl_vmact dl) ! (unat le mod WINDOW_TX) = None")
    case True
    then have "dl1 = dl" by (auto simp: dl1_def copied_def split: option.splits)
    then show ?thesis by blast
  next
    case False
    then obtain c s where c: "b = Some s" "retransmission_buffer (dl_vmact dl) ! (unat le mod WINDOW_TX) = Some c" by auto
    obtain skb2 st where "skb_copy env c (dl_st dl) = (skb2, st)" by fastforce
    moreover from this c have "dl1 = dl\<lparr>dl_st := st, dl_counter := dl_counter dl + 1, dl_skb2 := map_option (\<lambda>s. (s, False)) skb2\<rparr>"
      by (simp add: dl1_def copied_def)
    ultimately show ?thesis by blast
  qed
  have "dl_keeps dl (dl1\<lparr>dl_vmact := (dl_vmact dl1)\<lparr>tx_timer := (tx_timer (dl_vmact dl))[unat le mod WINDOW_TX := ucast (rnd + 6)]\<rparr>\<rparr>)"
  proof -
    have "dl_vmact dl1 = dl_vmact dl \<and> same_tables (dl_st dl) (dl_st dl1) \<and> pidt (dl_st dl1) = pidt (dl_st dl)"
      using d
    proof (elim disjE exE conjE)
      fix c skb2 st
      assume sk: "skb_copy env c (dl_st dl) = (skb2, st)"
        and dl1: "dl1 = dl\<lparr>dl_st := st, dl_counter := dl_counter dl + 1, dl_skb2 := map_option (\<lambda>s. (s, False)) skb2\<rparr>"
      have st: "st = (dl_st dl)\<lparr>next_skb := Suc (next_skb (dl_st dl))\<rparr>"
        using arg_cong [OF sk, of snd] by (simp add: skb_copy_def)
      show ?thesis unfolding dl1 st by (simp add: same_tables_def)
    qed simp
    then show ?thesis by (simp add: dl_keeps_def wf_tx_def)
  qed
  then show ?thesis using dack_resend_keeps [OF r] dl_keeps_trans by blast
qed

lemma dack_hole_keeps: "dack_hole env rnd seq re le dl = Inr dl' \<Longrightarrow> dl_keeps dl dl'"
proof (induction "unat re - unat le" arbitrary: le dl rule: less_induct)
  case less
  show ?case
  proof (cases "le < re \<and> le < seq")
    case False
    then show ?thesis using less.prems by (simp add: dack_hole_stop)
  next
    case True
    then have lt: "unat re - unat (le + 1) < unat re - unat le" using word_measure_less [of le re] by simp
    show ?thesis
    proof (cases "dack_due (tx_timer (dl_vmact dl)) rnd seq (unat le)")
      case due: True
      then have "dl' = dl \<or> (\<exists>dl1. dack_one env rnd le dl = Inr dl1 \<and> dack_hole env rnd seq re (le + 1) dl1 = Inr dl')"
        using less.prems True by (auto simp: dack_hole_due rbind_eq_Inr split: if_splits)
      then show ?thesis
        using less.hyps [OF lt] dack_one_keeps dl_keeps_trans dl_keeps_refl by blast
    next
      case False
      then show ?thesis using less.prems less.hyps [OF lt] True by (simp add: dack_hole_skip)
    qed
  qed
qed

lemma dack_holes_keeps: "dack_holes env rnd seq n skb dl = Inr (skb', dl') \<Longrightarrow> dl_keeps dl dl'"
proof (induction n arbitrary: skb dl)
  case (Suc n)
  then show ?case by (auto simp: rbind_eq_Inr dest!: dack_hole_keeps intro: dl_keeps_trans)
qed simp

section \<open>The invariant\<close>

text \<open>
  Every bucket of both tables holds at most one entry, in the bucket of its key; every receive entry
  satisfies the invariant of the window and has a buffer for a DACK that waits; every sending entry has
  arrays of the declared lengths.
\<close>

definition rx_good :: "encoding_rx \<Rightarrow> bool" where
  "rx_good v \<longleftrightarrow> rx_inv v \<and> dack_ok v"

definition in_bucket :: "(u64 \<Rightarrow> 5 word) \<Rightarrow> ('e \<Rightarrow> u64) \<Rightarrow> ('e \<Rightarrow> bool) \<Rightarrow> (5 word \<Rightarrow> 'e list) \<Rightarrow> bool" where
  "in_bucket h key P T \<longleftrightarrow> (\<forall>b. length (T b) \<le> 1 \<and> (\<forall>e \<in> set (T b). h (key e) = b \<and> P e))"

definition vmac_inv :: "(u64 \<Rightarrow> 5 word) \<Rightarrow> vmac \<Rightarrow> bool" where
  "vmac_inv h st \<longleftrightarrow> in_bucket h rx_key rx_good (rx_enc st) \<and> in_bucket h tx_key wf_tx (tx_enc st)"

lemma vmac_inv_same: "same_tables st st' \<Longrightarrow> vmac_inv h st' = vmac_inv h st"
  by (simp add: vmac_inv_def same_tables_def)

lemma in_bucket_single: "in_bucket h key P T \<Longrightarrow> butlast (T b) = []"
  by (cases "T b") (auto simp: in_bucket_def dest!: spec [of _ b])

lemma in_bucket_put:
  "in_bucket h key P T \<Longrightarrow> h (key e) = b \<Longrightarrow> P e \<Longrightarrow> in_bucket h key P (T(b := butlast (T b) @ [e]))"
  by (simp add: in_bucket_single) (simp add: in_bucket_def)

lemma in_bucket_add: "in_bucket h key P T \<Longrightarrow> T (h (key e)) = [] \<Longrightarrow> P e \<Longrightarrow> in_bucket h key P (T(h (key e) := [e]))"
  by (simp add: in_bucket_def)

lemma in_bucket_del: "in_bucket h key P T \<Longrightarrow> in_bucket h key P (T(b := butlast (T b)))"
  by (simp add: in_bucket_single) (simp add: in_bucket_def)

lemma find_rx_good:
  assumes "vmac_inv (hash env) st" and "find_rx env st k = Some v"
  shows "rx_good v" and "hash env (rx_key v) = hash env k"
proof -
  have "v \<in> set (rx_enc st (hash env k))"
    using assms(2) by (auto simp: rxtab.find_bucket split: if_splits)
  then show "rx_good v" "hash env (rx_key v) = hash env k"
    using assms(1) by (auto simp: vmac_inv_def in_bucket_def)
qed

lemma find_tx_good:
  assumes "vmac_inv (hash env) st" and "find_tx env st k = Some e"
  shows "wf_tx e" and "hash env (tx_key e) = hash env k"
proof -
  have "e \<in> set (tx_enc st (hash env k))"
    using assms(2) by (auto simp: txtab.find_bucket split: if_splits)
  then show "wf_tx e" "hash env (tx_key e) = hash env k"
    using assms(1) by (auto simp: vmac_inv_def in_bucket_def)
qed

lemma vmac_inv_put_rx:
  "vmac_inv (hash env) st \<Longrightarrow> hash env (rx_key v) = hash env k \<Longrightarrow> rx_good v \<Longrightarrow> vmac_inv (hash env) (put_rx env st k v)"
  by (simp add: vmac_inv_def rxtab.bucket_put in_bucket_put)

lemma vmac_inv_put_tx:
  "vmac_inv (hash env) st \<Longrightarrow> hash env (tx_key e) = hash env k \<Longrightarrow> wf_tx e \<Longrightarrow> vmac_inv (hash env) (put_tx env st k e)"
  by (simp add: vmac_inv_def txtab.bucket_put in_bucket_put)

lemma vmac_inv_add_rx:
  "vmac_inv (hash env) st \<Longrightarrow> find_rx env st (rx_key v) = None \<Longrightarrow> rx_good v \<Longrightarrow> vmac_inv (hash env) (add_rx env st v)"
  by (simp add: vmac_inv_def rxtab.bucket_add rxtab.find_None in_bucket_add)

lemma vmac_inv_add_tx:
  "vmac_inv (hash env) st \<Longrightarrow> find_tx env st (tx_key e) = None \<Longrightarrow> wf_tx e \<Longrightarrow> vmac_inv (hash env) (add_tx env st e)"
  by (simp add: vmac_inv_def txtab.bucket_add txtab.find_None in_bucket_add)

lemma vmac_inv_del:
  "vmac_inv (hash env) st \<Longrightarrow> vmac_inv (hash env) (del_rx env st k)"
  "vmac_inv (hash env) st \<Longrightarrow> vmac_inv (hash env) (del_tx env st k)"
  by (simp_all add: vmac_inv_def rxtab.bucket_del txtab.bucket_del in_bucket_del)

section \<open>Every operation keeps it\<close>

text \<open>
  What the theorems assume of the kernel around the code, at every step: memory from \<open>vmalloc\<close> has the
  shape of the structure, the low half of the clock is not zero when a frame arrives, and the headroom
  the kernel reserves in a new buffer suffices for the headers of a DACK.
\<close>

definition env_ok :: "kenv \<Rightarrow> bool" where
  "env_ok env \<longleftrightarrow> rx_env_ok env \<and> 39 \<le> NET_SKB_PAD env \<and> (\<exists>m. vmalloc_rx env = Some m \<and> wf_rx m) \<and>
     (\<exists>m. vmalloc_tx env = Some m \<and> wf_tx m)"

lemma init_encoding_rx_good: "wf_rx m \<Longrightarrow> rx_good (init_encoding_rx enc m)"
  by (simp add: rx_good_def rx_inv_def wf_rx_def dack_ok_def init_encoding_rx_def)

lemma rx_good_frame:
  assumes "rx_good v" and "rx_window v' = rx_window v" "latest v' = latest v" "lastin v' = lastin v" "firstFrame v' = firstFrame v"
    "SecondFrame v' = SecondFrame v" "dac_info v' = dac_info v" "dack_timer v \<noteq> None \<Longrightarrow> dack_timer v' \<noteq> None"
  shows "rx_good v'"
  using assms by (simp add: rx_good_def rx_inv_def wf_rx_def dack_ok_def)

lemma vmac_tx_interest_inv:
  assumes "vmac_tx_interest env st enc = Inr st'" and "vmac_inv (hash env) st" and "env_ok env"
  shows "vmac_inv (hash env) st'"
proof (cases "find_rx env st enc")
  case None
  obtain m where m: "vmalloc_rx env = Some m" "wf_rx m" using assms(3) by (auto simp: env_ok_def)
  define v where "v = (init_encoding_rx enc m)\<lparr>dack_timer := Some (jiffies env)\<rparr>"
  have v: "rx_good v" "rx_key v = enc"
    using init_encoding_rx_good [OF m(2), of enc] by (auto simp: v_def init_encoding_rx_def elim: rx_good_frame)
  define v' where "v' = v\<lparr>rx_enc_timeout := Some (jiffies env + msecs_to_jiffies env 30000)\<rparr>"
  have "rx_good v'" using v(1) by (rule rx_good_frame) (simp_all add: v'_def)
  moreover have "rx_key v' = enc" using v by (simp add: v'_def)
  moreover have "st' = put_rx env (add_rx env st v) enc v'"
    using assms(1) None m(1) by (simp add: vmac_tx_interest_def v_def v'_def Let_def)
  ultimately show ?thesis
    using vmac_inv_add_rx [OF assms(2) _ v(1)] None v(2) by (simp add: vmac_inv_put_rx)
next
  case (Some v)
  define v' where "v' = v\<lparr>rx_enc_timeout := Some (jiffies env + msecs_to_jiffies env 30000)\<rparr>"
  have "st' = put_rx env st enc v'"
    using assms(1) Some by (simp add: vmac_tx_interest_def v'_def)
  moreover have "rx_good v'" using find_rx_good(1) [OF assms(2) Some] by (rule rx_good_frame) (simp_all add: v'_def)
  moreover have "hash env (rx_key v') = hash env enc" using find_rx_good(2) [OF assms(2) Some] by (simp add: v'_def)
  ultimately show ?thesis using assms(2) by (simp add: vmac_inv_put_rx)
qed

lemma find_or_add_tx_inv:
  assumes "find_or_add_tx env st enc = Inr (e, st')" and "vmac_inv (hash env) st" and "env_ok env"
  shows "vmac_inv (hash env) st' \<and> find_tx env st' enc = Some e"
proof (cases "find_tx env st enc")
  case None
  obtain m where m: "vmalloc_tx env = Some m" "wf_tx m" using assms(3) by (auto simp: env_ok_def)
  have e: "wf_tx (init_encoding_tx enc m)" "tx_key (init_encoding_tx enc m) = enc"
    using m(2) by (simp_all add: wf_tx_def init_encoding_tx_def)
  show ?thesis
    using assms(1,2) None m(1) e vmac_inv_add_tx [OF assms(2), of "init_encoding_tx enc m"] txtab.find_add_new [OF None, of "init_encoding_tx enc m"]
    by (auto simp: find_or_add_tx_def Let_def)
next
  case (Some e')
  then show ?thesis using assms(1,2) by (simp add: find_or_add_tx_def)
qed

lemma vmac_tx_data_inv:
  assumes "vmac_tx_data env st skb enc = Inr (skb', st')" and "vmac_inv (hash env) st" and "env_ok env"
  shows "vmac_inv (hash env) st'"
proof -
  obtain e st1 where f: "find_or_add_tx env st enc = Inr (e, st1)"
    using assms(1) by (auto simp: vmac_tx_data_def rbind_eq_Inr)
  note F = find_or_add_tx_inv [OF f assms(2,3)]
  have e: "wf_tx e" "hash env (tx_key e) = hash env enc" using find_tx_good F by blast+
  have "11 \<le> headroom skb"
  proof (rule ccontr)
    assume "\<not> 11 \<le> headroom skb"
    then show False using assms(1) by (simp add: vmac_tx_data_def f Let_def skb_push_def split: if_splits)
  qed
  then obtain e' where e': "tx_timer e' = (tx_timer e)[unat (tx_seq e) mod WINDOW_TX := 0]" "tx_key e' = tx_key e"
    "length (retransmission_buffer e') = length (retransmission_buffer e)"
    "rx_enc st' = rx_enc st1" "tx_enc st' = tx_enc (put_tx env st1 enc e')"
    using vmac_tx_data_cases [OF f _, of skb] F assms(1) by auto
  have "vmac_inv (hash env) (put_tx env st1 enc e')"
    using F e e' by (simp add: vmac_inv_put_tx wf_tx_def)
  then show ?thesis
    using vmac_inv_same [of "put_tx env st1 enc e'" st'] e' by (simp add: same_tables_def)
qed

lemma vmac_tx_inv:
  assumes "vmac_tx env st skb enc type q r b g s = Inr st'" and "vmac_inv (hash env) st" and "env_ok env"
  shows "vmac_inv (hash env) st'"
proof -
  have "\<exists>st1 skb1. vmac_inv (hash env) st1 \<and> (vmac_low_tx env st1 skb1 0 r b g s = Inr st' \<or> st' = kfree_skb skb1 st1)"
    using assms
    by (auto simp: vmac_tx_def Let_def rbind_eq_Inr split: if_splits dest: vmac_tx_interest_inv vmac_tx_data_inv)
  then obtain st1 skb1 where "vmac_inv (hash env) st1" "same_tables st1 st'"
    by (auto dest: vmac_low_tx_tables simp: same_tables_def)
  then show ?thesis by (simp add: vmac_inv_same)
qed

lemma nl_recv_inv:
  assumes "nl_recv env st m = Inr st'" and "vmac_inv (hash env) st" and "env_ok env"
  shows "vmac_inv (hash env) st'"
proof -
  define st1 where "st1 = (if pidt st \<noteq> nl_pid m then st\<lparr>pidt := nl_pid m\<rparr> else st)"
  have "vmac_inv (hash env) (st1\<lparr>next_skb := n\<rparr>)" "vmac_inv (hash env) st1" for n
    using assms(2) by (simp_all add: st1_def vmac_inv_def)
  note inv = this
  show ?thesis
  proof (cases "(ucast (nl_type m) :: u8) \<in> {VMAC_HDR_INTEREST, VMAC_HDR_DATA, VMAC_HDR_ANOUNCMENT, VMAC_HDR_INJECTED}")
    case False
    then have "st' = exit_vmac st1 \<or> st' = st1"
      using assms(1) unfolding nl_recv_def Let_def st1_def [symmetric] by (auto split: if_splits)
    then show ?thesis
      using inv(2) vmac_inv_same [of st1 "exit_vmac st1"] by (auto simp: same_tables_def exit_vmac_def)
  next
    case True
    obtain skb2 st2 where a: "dev_alloc_skb env (unat (nl_len m + 100)) st1 = (skb2, st2)" by fastforce
    have st2: "vmac_inv (hash env) st2" using a inv(1) by (auto simp: dev_alloc_skb_def)
    have "st' = st2 \<or> (\<exists>skb enc t q r b g s. vmac_tx env st2 skb enc t q r b g s = Inr st')"
      using assms(1) True unfolding nl_recv_def Let_def st1_def [symmetric] a
      by (auto simp: rbind_eq_Inr split: option.splits if_splits)
    then show ?thesis using vmac_tx_inv st2 assms(3) by blast
  qed
qed

lemma rx_step_inv:
  "rx_step env enc st v' st' \<Longrightarrow> vmac_inv (hash env) st \<Longrightarrow> rx_good v' \<Longrightarrow> hash env (rx_key v') = hash env enc \<Longrightarrow> vmac_inv (hash env) st'"
  using vmac_inv_same [of "put_rx env st enc v'" st'] vmac_inv_put_rx
  by (simp add: rx_step_def same_tables_def)

lemma vmac_rx_data_inv:
  assumes "vmac_rx_data env st skb enc = Inr (r, st')" and "vmac_inv (hash env) st" and "env_ok env"
  shows "vmac_inv (hash env) st'"
proof (cases "find_rx env st enc")
  case None
  then show ?thesis
    using assms(1,2) vmac_inv_same [of st st'] by (auto simp: vmac_rx_data_def rbind_eq_Inr same_tables_def)
next
  case (Some v)
  have g: "rx_good v" "hash env (rx_key v) = hash env enc" using find_rx_good [OF assms(2) Some] by simp_all
  obtain seq where d: "read_vmac_data (skb_data skb) = Inr seq"
    using assms(1) by (auto simp: vmac_rx_data_def rbind_eq_Inr)
  obtain v' where "rx_step env enc st v' st'" "rx_inv v'" "rx_key v' = rx_key v" "keeps_dack env v v'"
    using vmac_rx_data_spec [OF d Some _ _] g(1) assms(1,3) by (auto simp: rx_good_def env_ok_def)
  then show ?thesis
    using rx_step_inv assms(2,3) g by (auto simp: rx_good_def keeps_dack_def env_ok_def)
qed

lemma vmac_inv_effects [simp]:
  "vmac_inv h (kfree_skb skb st) = vmac_inv h st" "vmac_inv h (emit e st) = vmac_inv h st"
  by (simp_all add: vmac_inv_def)

lemma vmac_rx_DACK_inv:
  assumes "vmac_rx_DACK env st skb enc = Inr st'" and "vmac_inv (hash env) st"
  shows "vmac_inv (hash env) st'"
proof (cases "find_tx env st enc")
  case None
  then show ?thesis using assms by (auto simp: vmac_rx_DACK_def rbind_eq_Inr)
next
  case (Some e)
  define e1 where "e1 = e\<lparr>dackcounter := dackcounter e + 1\<rparr>"
  have e1: "wf_tx e1" "hash env (tx_key e1) = hash env enc"
    using find_tx_good [OF assms(2) Some] by (simp_all add: e1_def wf_tx_def)
  obtain ddr where "read_vmac_DACK (skb_data skb) = Inr ddr"
    using assms(1) by (auto simp: vmac_rx_DACK_def rbind_eq_Inr)
  then obtain n s dl skb' where h: "dack_holes env (dk_round ddr) (tx_seq e) n s \<lparr>dl_st = st, dl_vmact = e1, dl_counter = 0, dl_skb2 = None\<rparr> = Inr (skb', dl)"
    and st': "st' = kfree_skb skb' (put_tx env (dl_st dl) enc (dl_vmact dl))"
    using assms(1) by (auto simp: vmac_rx_DACK_def rbind_eq_Inr Some Let_def e1_def)
  have "vmac_inv (hash env) (dl_st dl)" "wf_tx (dl_vmact dl)" "hash env (tx_key (dl_vmact dl)) = hash env enc"
    using dack_holes_keeps [OF h] assms(2) e1 by (auto simp: dl_keeps_def vmac_inv_same)
  then show ?thesis unfolding st' by (simp add: vmac_inv_put_tx)
qed

lemma nl_send_inv: "nl_send env st skb enc t q = Inr st' \<Longrightarrow> vmac_inv h st \<Longrightarrow> vmac_inv h st'"
  using nl_send_tables vmac_inv_same by blast

lemma vmac_rx_inv:
  assumes "vmac_rx env st skb = Inr st'" and "vmac_inv (hash env) st" and "env_ok env"
  shows "vmac_inv (hash env) st'"
  using assms
  by (auto simp: vmac_rx_def rbind_eq_Inr Let_def split: if_splits option.splits
      dest: vmac_rx_DACK_inv nl_send_inv vmac_rx_data_inv)

lemma vmac_override_inv:
  assumes "vmac_override env st rf = Inr (r, st')" and "vmac_inv (hash env) st" and "env_ok env"
  shows "vmac_inv (hash env) st'"
  using assms
  by (auto simp: vmac_override_def rbind_eq_Inr Let_def vmac_free_recvframe_def split: if_splits option.splits dest: vmac_rx_inv)

lemma fill_radiotap_hdr_tables:
  "fill_radiotap_hdr hal a env st rf = Inr (p, st') \<Longrightarrow> same_tables st st'"
  by (auto simp: fill_radiotap_hdr_def skb_realloc_headroom_def same_tables_def rbind_eq_Inr Let_def split: option.splits if_splits)

lemma recv_frame_monitor_inv:
  assumes "recv_frame_monitor hal a stopped env st rf = Inr (r, st')" and "vmac_inv (hash env) st" and "env_ok env"
  shows "vmac_inv (hash env) st'"
proof -
  obtain p st1 where f: "fill_radiotap_hdr hal a env st rf = Inr (p, st1)"
    using assms(1) by (auto simp: recv_frame_monitor_def rbind_eq_Inr)
  then have "vmac_inv (hash env) st1"
    using fill_radiotap_hdr_tables vmac_inv_same assms(2) by blast
  then show ?thesis
    using assms(1,3) f vmac_override_inv
    by (auto simp: recv_frame_monitor_def rbind_eq_Inr vmac_free_recvframe_def split: option.splits if_splits)
qed

lemma sendDACK_inv:
  assumes "sendDACK env st enc = Inr st'" and "vmac_inv (hash env) st"
  shows "vmac_inv (hash env) st'"
proof (cases "find_rx env st enc")
  case None
  then show ?thesis using assms by (simp add: sendDACK_def)
next
  case (Some v)
  note G = find_rx_good [OF assms(2) Some]
  have up: "vmac_inv (hash env) (put_rx env st enc v')"
    if "rx_key v' = rx_key v" "rx_window v' = rx_window v" "latest v' = latest v" "lastin v' = lastin v" "firstFrame v' = firstFrame v"
      "SecondFrame v' = SecondFrame v" "dack_ok v'" for v'
    using that G assms(2) by (intro vmac_inv_put_rx) (simp_all add: rx_good_def rx_inv_def wf_rx_def)
  have "\<exists>v'. vmac_inv (hash env) (put_rx env st enc v') \<and> same_tables (put_rx env st enc v') st'"
  proof (cases "dacklok_free env \<and> di_send (dac_info v) = 1")
    case True
    let ?v = "v\<lparr>dack_timer := None, dac_info := (dac_info v)\<lparr>di_send := 0, di_dack := None\<rparr>\<rparr>"
    have "vmac_inv (hash env) (put_rx env st enc ?v)" by (rule up) (simp_all add: dack_ok_def)
    moreover have "same_tables (put_rx env st enc ?v) st'"
      using assms(1) True by (auto simp: sendDACK_def Some Let_def vmac_send_hack_def split: option.splits dest!: vmac_low_tx_tables)
    ultimately show ?thesis by blast
  next
    case False
    let ?v = "v\<lparr>dack_timer := if dacklok_free env then None else Some (jiffies env + msecs_to_jiffies env 100)\<rparr>"
    have "vmac_inv (hash env) (put_rx env st enc ?v)" using G False by (intro up) (auto simp: rx_good_def dack_ok_def)
    moreover have "st' = put_rx env st enc ?v"
      using assms(1) False by (auto simp: sendDACK_def Some Let_def)
    ultimately show ?thesis using same_tables_refl by blast
  qed
  then show ?thesis using vmac_inv_same by blast
qed

lemma free_buffer_inv [simp]: "vmac_inv h (free_buffer buf i n st) = vmac_inv h st"
  by (simp add: vmac_inv_def)

lemma process_inv: "vmac_inv (hash env) st \<Longrightarrow> vmac_inv (hash env) (process env st c)"
  by (auto simp: process_def vmac_inv_del split: option.splits)

lemma cleanup_inv:
  assumes "vmac_inv (hash env) st"
  shows "vmac_inv (hash env) (cleanup_rx env st enc)" and "vmac_inv (hash env) (cleanup_tx env st enc)"
proof -
  show "vmac_inv (hash env) (cleanup_rx env st enc)"
  proof (cases "find_rx env st enc")
    case (Some v)
    have "vmac_inv (hash env) (put_rx env st enc (v\<lparr>rx_enc_timeout := None, rx_clean := c\<rparr>))" for c
      using find_rx_good [OF assms Some] assms by (intro vmac_inv_put_rx) (auto elim: rx_good_frame)
    then show ?thesis by (simp add: cleanup_rx_def Some Let_def process_inv)
  qed (simp add: cleanup_rx_def assms)
  show "vmac_inv (hash env) (cleanup_tx env st enc)"
  proof (cases "find_tx env st enc")
    case (Some e)
    have "vmac_inv (hash env) (put_tx env st enc (e\<lparr>tx_enc_timeout := None, tx_clean := c\<rparr>))" for c
      using find_tx_good [OF assms Some] assms by (intro vmac_inv_put_tx) (simp_all add: wf_tx_def)
    then show ?thesis by (simp add: cleanup_tx_def Some Let_def process_inv)
  qed (simp add: cleanup_tx_def assms)
qed

section \<open>The system\<close>

text \<open>
  The kernel module as a transition system: what can happen to it is a netlink message, a frame from the
  driver, and the timers that are armed. The environment may differ from step to step; the hash function
  of the tables is fixed. A step is an operation that ends without a fault.
\<close>

inductive vmac_step :: "(u64 \<Rightarrow> 5 word) \<Rightarrow> vmac \<Rightarrow> vmac \<Rightarrow> bool" for h where
  Netlink: "hash env = h \<Longrightarrow> env_ok env \<Longrightarrow> nl_recv env st m = Inr st' \<Longrightarrow> vmac_step h st st'"
| Receive: "hash env = h \<Longrightarrow> env_ok env \<Longrightarrow> recv_frame_monitor hal a stopped env st rf = Inr (r, st') \<Longrightarrow> vmac_step h st st'"
| Dack_timer: "hash env = h \<Longrightarrow> env_ok env \<Longrightarrow> find_rx env st enc = Some v \<Longrightarrow> dack_timer v \<noteq> None \<Longrightarrow>
    sendDACK env st enc = Inr st' \<Longrightarrow> vmac_step h st st'"
| Rx_timeout: "hash env = h \<Longrightarrow> find_rx env st enc = Some v \<Longrightarrow> rx_enc_timeout v \<noteq> None \<Longrightarrow> vmac_step h st (cleanup_rx env st enc)"
| Tx_timeout: "hash env = h \<Longrightarrow> find_tx env st enc = Some e \<Longrightarrow> tx_enc_timeout e \<noteq> None \<Longrightarrow> vmac_step h st (cleanup_tx env st enc)"

inductive_cases vmac_stepE: "vmac_step h st st'"

definition vmac_start :: "vmac \<Rightarrow> bool" where
  "vmac_start st \<longleftrightarrow> (\<forall>b. rx_enc st b = []) \<and> (\<forall>b. tx_enc st b = []) \<and> pidt st = -1"

inductive vmac_reachable :: "(u64 \<Rightarrow> 5 word) \<Rightarrow> vmac \<Rightarrow> bool" for h where
  start: "vmac_start st \<Longrightarrow> vmac_reachable h st"
| step: "vmac_reachable h st \<Longrightarrow> vmac_step h st st' \<Longrightarrow> vmac_reachable h st'"

lemma vmac_step_inv: "vmac_step h st st' \<Longrightarrow> vmac_inv h st \<Longrightarrow> vmac_inv h st'"
  by (induction rule: vmac_step.induct) (auto dest: nl_recv_inv recv_frame_monitor_inv sendDACK_inv cleanup_inv)

lemma vmac_reachable_inv: "vmac_reachable h st \<Longrightarrow> vmac_inv h st"
proof (induction rule: vmac_reachable.induct)
  case (start st)
  then show ?case by (simp add: vmac_start_def vmac_inv_def in_bucket_def)
next
  case (step st st')
  then show ?case using vmac_step_inv by blast
qed

text \<open>
  C2: Whatever messages, frames and timers arrive, in whatever order: each bucket of both tables holds at
  most one entry, in the bucket of its key; the last number of a receive entry that waits for its second
  time stamp is marked in the window; a DACK that is to be sent is there, with room for its headers and its timer set; all
  arrays keep their lengths.
\<close>
theorem vmac_invariant:
  assumes "vmac_reachable h st"
  shows "(\<forall>b. length (rx_enc st b) \<le> 1 \<and> length (tx_enc st b) \<le> 1) \<and>
    (\<forall>b. \<forall>v \<in> set (rx_enc st b). h (rx_key v) = b \<and> wf_rx v \<and>
       (SecondFrame v = 0 \<longrightarrow> firstFrame v \<noteq> 0 \<longrightarrow> rx_window v ! (unat (lastin v) mod 700) = 1) \<and>
       (di_send (dac_info v) = 1 \<longrightarrow> dack_timer v \<noteq> None \<and> (\<exists>s. di_dack (dac_info v) = Some s \<and> 30 \<le> headroom s))) \<and>
    (\<forall>b. \<forall>e \<in> set (tx_enc st b). h (tx_key e) = b \<and> wf_tx e)"
proof -
  have b: "in_bucket h rx_key rx_good (rx_enc st)" "in_bucket h tx_key wf_tx (tx_enc st)"
    using vmac_reachable_inv [OF assms] by (simp_all add: vmac_inv_def)
  have g: "wf_rx v \<and> (SecondFrame v = 0 \<longrightarrow> firstFrame v \<noteq> 0 \<longrightarrow> rx_window v ! (unat (lastin v) mod 700) = 1) \<and>
       (di_send (dac_info v) = 1 \<longrightarrow> dack_timer v \<noteq> None \<and> (\<exists>s. di_dack (dac_info v) = Some s \<and> 30 \<le> headroom s))" if "rx_good v" for v
    using that by (auto simp: rx_good_def rx_inv_def dack_ok_def)
  show ?thesis
    using b g by (simp add: in_bucket_def)
qed

text \<open>The timer of an entry running once for each environment: as long as the lock is not free it is set again.\<close>

fun dack_timer_runs :: "kenv list \<Rightarrow> vmac \<Rightarrow> u64 \<Rightarrow> vmac res" where
  "dack_timer_runs [] st enc = Inr st"
| "dack_timer_runs (env # envs) st enc = rbind (sendDACK env st enc) (\<lambda>st. dack_timer_runs envs st enc)"

lemma sendDACK_busy:
  assumes "find_rx env st enc = Some v" and "\<not> dacklok_free env"
  shows "\<exists>st'. sendDACK env st enc = Inr st' \<and> effects st' = effects st \<and>
    find_rx env st' enc = Some (v\<lparr>dack_timer := Some (jiffies env + msecs_to_jiffies env 100)\<rparr>)"
  using assms by (simp add: sendDACK_def rxtab.find_put)

lemma find_rx_hash: "hash env = hash env' \<Longrightarrow> find_rx env st enc = find_rx env' st enc"
  by (simp add: find_rx_def)

lemma dack_timer_runs_busy:
  assumes "find_rx env st enc = Some v" and "\<forall>e \<in> set busy. hash e = hash env \<and> \<not> dacklok_free e"
  shows "\<exists>st' t. dack_timer_runs busy st enc = Inr st' \<and> effects st' = effects st \<and>
    find_rx env st' enc = Some (v\<lparr>dack_timer := t\<rparr>) \<and> (busy \<noteq> [] \<longrightarrow> t \<noteq> None) \<and> (busy = [] \<longrightarrow> t = dack_timer v)"
  using assms
proof (induction busy arbitrary: st v)
  case Nil
  then show ?case by (intro exI [of _ st] exI [of _ "dack_timer v"]) simp
next
  case (Cons e busy)
  have h: "hash e = hash env" "\<not> dacklok_free e" using Cons.prems(2) by simp_all
  have f: "find_rx e st enc = Some v" using Cons.prems(1) unfolding find_rx_hash [OF h(1)] .
  obtain st1 where s: "sendDACK e st enc = Inr st1" "effects st1 = effects st"
    "find_rx env st1 enc = Some (v\<lparr>dack_timer := Some (jiffies e + msecs_to_jiffies e 100)\<rparr>)"
    using sendDACK_busy [OF f h(2)] unfolding find_rx_hash [OF h(1)] by blast
  have "\<forall>e \<in> set busy. hash e = hash env \<and> \<not> dacklok_free e" using Cons.prems(2) by simp
  moreover have u: "v\<lparr>dack_timer := x, dack_timer := t\<rparr> = v\<lparr>dack_timer := t\<rparr>" "dack_timer (v\<lparr>dack_timer := x\<rparr>) = x" for x t
    by simp_all
  ultimately obtain st' t where i: "dack_timer_runs busy st1 enc = Inr st'" "effects st' = effects st1"
    "find_rx env st' enc = Some (v\<lparr>dack_timer := t\<rparr>)" "busy \<noteq> [] \<longrightarrow> t \<noteq> None"
    "busy = [] \<longrightarrow> t = Some (jiffies e + msecs_to_jiffies e 100)"
    using Cons.IH [OF s(3)] unfolding u by blast
  then have "t \<noteq> None" by (cases "busy = []") simp_all
  then show ?case
    using i s(1,2) by (intro exI [of _ st'] exI [of _ t]) simp
qed

lemma dack_timer_runs_append:
  "dack_timer_runs (es @ fs) st enc = rbind (dack_timer_runs es st enc) (\<lambda>st. dack_timer_runs fs st enc)"
proof (induction es arbitrary: st)
  case (Cons e es)
  then show ?case by (cases "sendDACK e st enc") simp_all
qed simp

text \<open>
  C9: No DACK is left behind. In every state the module can get into, a DACK that waits has its timer
  set; however often the timer finds the entry locked, it is set again and nothing is lost, and the
  first time it does not, the driver gets the DACK, once, the buffer is given back, and the entry is
  ready for the next one.
\<close>
theorem waiting_DACK_is_sent:
  assumes "vmac_reachable (hash env) st" and "find_rx env st enc = Some v" and "di_send (dac_info v) = 1"
    and "\<forall>e \<in> set busy. hash e = hash env \<and> \<not> dacklok_free e" and "dacklok_free env" and "tx_ready env 173"
  shows "dack_timer v \<noteq> None \<and> (\<exists>skb st' pa. di_dack (dac_info v) = Some skb \<and>
    dack_timer_runs (busy @ [env]) st enc = Inr st' \<and>
    effects st' = effects st @ [Dump_mgntframe pa (air_frame env (skb_data skb)), Kfree_skb (skb_id skb)] \<and>
    find_rx env st' enc = Some (v\<lparr>dack_timer := None, dac_info := (dac_info v)\<lparr>di_send := 0, di_dack := None\<rparr>\<rparr>))"
proof -
  have inv: "vmac_inv (hash env) st" using assms(1) by (rule vmac_reachable_inv)
  obtain skb where skb: "dack_timer v \<noteq> None" "di_dack (dac_info v) = Some skb" "30 \<le> headroom skb" "length (skb_data skb) \<le> 173"
    using find_rx_good(1) [OF inv assms(2)] assms(3) by (auto simp: rx_good_def dack_ok_def)
  obtain st1 t where b: "dack_timer_runs busy st enc = Inr st1" "effects st1 = effects st" "find_rx env st1 enc = Some (v\<lparr>dack_timer := t\<rparr>)"
    using dack_timer_runs_busy [OF assms(2,4)] by blast
  obtain st2 where s: "sendDACK env st1 enc = vmac_send_hack env st2 skb" "effects st2 = effects st1"
    "find_rx env st2 enc = Some (v\<lparr>dack_timer := None, dac_info := (dac_info v)\<lparr>di_send := 0, di_dack := None\<rparr>\<rparr>)"
    using sendDACK_pending [OF b(3) assms(5)] assms(3) skb(2) by auto
  have "tx_ready env (length (skb_data skb))" using assms(6) skb(4) by (auto simp: tx_ready_def)
  then have v: "vmac_send_hack env st2 skb = Inr (tx_sent env st2 skb 1 0 1 0)"
    using skb(3) by (simp add: vmac_send_hack_def vmac_low_tx_sent)
  have "find_rx env (tx_sent env st2 skb 1 0 1 0) enc = find_rx env st2 enc"
    by (rule find_rx_cong) simp
  then show ?thesis
    using skb(1,2) b(1,2) s v unfolding dack_timer_runs_append by simp
qed


definition fresh_state :: vmac where
  "fresh_state = example_state\<lparr>rx_enc := (\<lambda>_. []), tx_enc := (\<lambda>_. []), pidt := -1\<rparr>"

lemma example_env_ok: "env_ok example_env"
  using example_rx_inv by (simp add: env_ok_def example_env_simps rx_inv_def wf_tx_def example_tx_def WINDOW_TX_def)

text \<open>The state after the first message of a process: its port is registered and the interest is in the table.\<close>

lemma example_reachable: "\<exists>st. vmac_reachable (hash example_env) st \<and> nl_recv example_env fresh_state (example_nlmsg\<lparr>nl_type := 0\<rparr>) = Inr st"
proof -
  have "vmac_start fresh_state" by (simp add: vmac_start_def fresh_state_def)
  moreover obtain st where "nl_recv example_env fresh_state (example_nlmsg\<lparr>nl_type := 0\<rparr>) = Inr st"
    using nl_recv_total [of "example_nlmsg\<lparr>nl_type := 0\<rparr>" example_env fresh_state]
    by (auto simp: wf_nlmsg_def example_nlmsg_def example_env_simps)
  ultimately show ?thesis
    using vmac_step.Netlink [OF refl example_env_ok] by (blast intro: vmac_reachable.intros)
qed

theorem vmac_invariant_witness:
  "\<exists>st. nl_recv example_env fresh_state (example_nlmsg\<lparr>nl_type := 0\<rparr>) = Inr st \<and> (\<forall>b. length (rx_enc st b) \<le> 1)"
  using example_reachable vmac_invariant by blast

section \<open>A state with a DACK waiting\<close>


lemma rx_data_raises_DACK:
  assumes "read_vmac_data (skb_data skb) = Inr seq" and f: "find_rx env st enc = Some v" and "rx_inv v" and "rx_env_ok env"
    and "\<forall>n. alloc_ok env n" and "dacklok_free env" and "rx_data_window (refreshed env v) seq = Some w"
    and "unat (rx_round v) + 5 \<le> unat seq"
  shows "\<exists>st' v'. vmac_rx_data env st skb enc = Inr (Some (skb_pull skb 2, seq), st') \<and> find_rx env st' enc = Some v' \<and>
    di_send (dac_info v') = 1 \<and> pidt st' = pidt st"
proof -
  obtain w2 where a: "rx_data_alpha env w seq = Inr w2"
    "w2 = w\<lparr>firstFrame := firstFrame w2, SecondFrame := SecondFrame w2, rx_alpha := rx_alpha w2, lastin := seq\<rparr>"
    using rx_data_alpha_total [of "refreshed env v" seq w env] assms(3,4,7) by (auto simp: rx_env_ok_def)
  have "rx_round w = rx_round v"
    by (subst rx_data_window_frame [OF assms(7)], simp add: refreshed_def)
  moreover have "rx_round w2 = rx_round w" by (subst a(2)) simp
  ultimately have r: "int (unat (rx_round w2)) \<le> int (unat seq) - 5"
    using zle_int [of "unat (rx_round v) + 5" "unat seq"] assms(8) by (simp only: of_nat_add of_nat_numeral)
  define v1 where "v1 = w2\<lparr>rx_round := of_nat (unat seq div 5)\<rparr>"
  have f1: "find_rx env (put_rx env st enc v1) enc = Some v1" using f by (simp add: rxtab.find_put)
  have "9 \<le> NET_SKB_PAD env" using assms(4) by (simp add: rx_env_ok_def)
  with prepDACK_stores [OF f1 _ this assms(6)] assms(5)
  obtain st2 v2 where p: "prepDACK env (put_rx env st enc v1) enc (rx_round v1) = Inr st2" "find_rx env st2 enc = Some v2"
    "di_send (dac_info v2) = 1" "pidt st2 = pidt st"
    by fastforce
  have "rx_data_round env st enc w2 seq = Inr (put_rx env st2 enc (v2\<lparr>rx_round := seq\<rparr>))"
    using r p(1,2) by (simp add: rx_data_round_def request_DACK_def Let_def v1_def)
  then show ?thesis
    using f assms(1,7) a(1) p by (simp add: vmac_rx_data_def refreshed_def rxtab.find_put)
qed

definition interest_msg :: nlmsg where
  "interest_msg = example_nlmsg\<lparr>nl_type := 0\<rparr>"

definition new_rx :: encoding_rx where
  "new_rx = (init_encoding_rx 0 example_rx)\<lparr>dack_timer := Some 1000, rx_enc_timeout := Some 31000\<rparr>"

lemma interest_entry:
  assumes "nl_recv example_env fresh_state interest_msg = Inr st"
  shows "find_rx example_env st 0 = Some new_rx" and "pidt st = 42"
proof -
  have n: "find_rx example_env (fresh_state\<lparr>pidt := q, next_skb := n\<rparr>) 0 = None" for n q
    by (simp add: find_rx_def fresh_state_def)
  have h: "hash example_env (rx_key (init_encoding_rx 0 example_rx)) = hash example_env 0"
    by (simp add: init_encoding_rx_def)
  obtain st1 p s1 s2 where st1: "vmac_tx_interest example_env (fresh_state\<lparr>pidt := 42, next_skb := p\<rparr>) 0 = Inr st1"
    "vmac_low_tx example_env st1 s1 0 0 0 0 0 = Inr st"
    using assms
    by (auto simp: nl_recv_def interest_msg_def example_nlmsg_def vmac_tx_def frame_types rbind_eq_Inr Let_def dev_alloc_skb_def example_env_simps
        fresh_state_def example_state_def example_ctl_def split: option.splits if_splits)
  define v where "v = (init_encoding_rx 0 example_rx)\<lparr>dack_timer := Some 1000\<rparr>"
  define st0 where "st0 = fresh_state\<lparr>pidt := 42, next_skb := p\<rparr>"
  have "st1 = put_rx example_env (add_rx example_env st0 v) 0 new_rx"
    using st1(1) n [of p 42] by (simp add: vmac_tx_interest_def example_env_simps v_def new_rx_def st0_def Let_def) (simp add: example_env_def)
  moreover have "find_rx example_env (add_rx example_env st0 v) 0 = Some v"
    using n [of p 42] by (intro rxtab.find_add_new) (simp_all add: st0_def v_def init_encoding_rx_def)
  ultimately have f: "find_rx example_env st1 0 = Some new_rx" "pidt st1 = 42"
    by (simp_all add: rxtab.find_put) (simp add: st0_def put_rx_def add_rx_def)
  then show "find_rx example_env st 0 = Some new_rx" and "pidt st = 42"
    using vmac_low_tx_tables [OF st1(2)] find_rx_cong [of st st1 example_env 0] by (simp_all add: same_tables_def)
qed

definition fifth_rf :: recv_frame where
  "fifth_rf = \<lparr>rf_id = 5, rf_data = air_frame example_env (data_frame 0 5 [1, 2, 3]) @ [9, 9, 9, 9], rf_pkt = Some example_skb\<rparr>"

lemma new_rx_inv: "rx_inv new_rx" "latest new_rx = 0" "rx_received new_rx = {}" "rx_round new_rx = 0"
  by (simp_all add: new_rx_def init_encoding_rx_def rx_inv_def wf_rx_def rx_received_def example_rx_def WINDOW_def)

text \<open>A state with a DACK waiting: an interest and the fifth frame of its data.\<close>

lemma example_waiting:
  obtains st v where "vmac_reachable (hash example_env) st" and "find_rx example_env st 0 = Some v" and "di_send (dac_info v) = 1"
proof -
  obtain st where st: "vmac_reachable (hash example_env) st" "nl_recv example_env fresh_state interest_msg = Inr st"
    using example_reachable unfolding interest_msg_def by blast
  note e = interest_entry [OF st(2)]
  have q: "rx_env_ok example_env" using example_env_ok by (simp add: env_ok_def)
  obtain skb where skb: "skb_data skb = data_frame 0 5 [1, 2, 3] @ [9, 9, 9, 9]"
    "recv_frame_monitor example_hal full_attrib False example_env st fifth_rf =
       rbind (vmac_rx example_env st skb) (\<lambda>st. Inr (1, vmac_free_recvframe fifth_rf st))"
    using monitor_air [OF example_rtap(1), of example_env fifth_rf example_skb "data_frame 0 5 [1, 2, 3]" "[9, 9, 9, 9]"] example_rtap(2)
    by (auto simp: fifth_rf_def example_env_simps)
  have d: "skb_data skb = data_frame 0 5 ([1, 2, 3] @ [9, 9, 9, 9])" using skb(1) by (simp add: data_frame_def)
  let ?skb = "skb_pull skb 9"
  have d1: "skb_data ?skb = vmac_data_bytes 5 @ [1, 2, 3] @ [9, 9, 9, 9]"
    by (simp add: skb_pull_def d data_frame_def)
  then have d2: "skb_data (skb_pull ?skb 2) = [1, 2, 3] @ [9, 9, 9, 9]" by (simp add: skb_pull_def [of ?skb])
  have rd: "read_vmac_data (skb_data ?skb) = Inr 5" by (simp add: d1)
  have "wf_rx (refreshed example_env new_rx)" using new_rx_inv(1) by (simp add: rx_inv_def)
  then obtain w where w: "rx_data_window (refreshed example_env new_rx) 5 = Some w"
    using rx_data_window_set [of "refreshed example_env new_rx" 5] new_rx_inv by fastforce
  obtain st1 v1 where s: "vmac_rx_data example_env st ?skb 0 = Inr (Some (skb_pull ?skb 2, 5), st1)" "find_rx example_env st1 0 = Some v1"
    "di_send (dac_info v1) = 1" "pidt st1 = pidt st"
    using rx_data_raises_DACK [OF rd e(1) new_rx_inv(1) q _ _ w] new_rx_inv(4) by (auto simp: example_env_simps)
  obtain st2 where n: "nl_send example_env st1 (skb_pull ?skb 2) 0 VMAC_HDR_DATA 5 = Inr st2" "rx_enc st2 = rx_enc st1"
    using nl_send_ok [of st1 example_env "skb_pull ?skb 2" "[1, 2, 3]" "[9, 9, 9, 9]" 0 VMAC_HDR_DATA 5] d2 s(4) e(2)
    by (auto simp: example_env_simps)
  have "read_vmac_hdr (skb_data skb) = Inr \<lparr>vh_enc = 0, vh_type = VMAC_HDR_DATA\<rparr>" by (simp add: d data_frame_def)
  then have "vmac_rx example_env st skb = Inr st2" using s(1) n(1) by (simp add: vmac_rx_def frame_types)
  then have "vmac_step (hash example_env) st (vmac_free_recvframe fifth_rf st2)"
    using skb(2) by (intro vmac_step.Receive [OF refl example_env_ok, of example_hal full_attrib False]) simp
  moreover have "find_rx example_env (vmac_free_recvframe fifth_rf st2) 0 = Some v1"
    using s(2) find_rx_cong [of "vmac_free_recvframe fifth_rf st2" st1 example_env 0] n(2) by (simp add: vmac_free_recvframe_def)
  ultimately show thesis
    using that st(1) s(3) by (blast intro: vmac_reachable.intros)
qed


theorem waiting_DACK_is_sent_witness:
  "\<exists>st (skb :: sk_buff) st' pa. vmac_reachable (hash example_env) st \<and> dack_timer_runs [example_env\<lparr>dacklok_free := False\<rparr>, example_env] st 0 = Inr st' \<and>
    effects st' = effects st @ [Dump_mgntframe pa (air_frame example_env (skb_data skb)), Kfree_skb (skb_id skb)]"
proof -
  obtain st v where e: "vmac_reachable (hash example_env) st" "find_rx example_env st 0 = Some v" "di_send (dac_info v) = 1"
    using example_waiting by blast
  have r: "tx_ready example_env 173" by (simp add: example_env_simps)
  have b: "\<forall>e \<in> set [example_env\<lparr>dacklok_free := False\<rparr>]. hash e = hash example_env \<and> \<not> dacklok_free e" by simp
  from waiting_DACK_is_sent [OF e b example_env_simps(2) r] e(1) show ?thesis
    unfolding append.simps by blast
qed

end
