(* ===== verification/Vmac_Queue.thy ===== *)
theory Vmac_Queue
  imports Clean
begin

text \<open>
  The frame queues of \<^verbatim>\<open>kernel/core/queue.c\<close> (not in the Makefile of the module: the file calls
  \<open>vmac_tx\<close> and \<open>vmac_low_tx\<close> with the argument lists they had before). Three lists, each under a
  lock of its own; two threads drain them. What \<open>vmac_low_tx\<close> and \<open>vmac_rx\<close> do with a frame is
  their business: the threads' passes return the frames in the order they hand them over.
\<close>

record vmac_queue =
  q_frame :: sk_buff
  q_seq :: u16
  q_rate :: u8

record vmac_queues =
  uqueue :: "vmac_queue list"
  mqueue :: "vmac_queue list"
  rx_upper :: "vmac_queue list"

definition queue_init :: vmac_queues where
  "queue_init = \<lparr>uqueue = [], mqueue = [], rx_upper = []\<rparr>"

text \<open>
  Each of the four functions that add an entry allocates it first (\<open>mem\<close> is what \<open>kmalloc\<close> returns,
  \<open>None\<close> for a null pointer) and leaves the fields it does not set as the memory has them. When
  the allocation fails the frame is neither queued nor given back.
\<close>

definition enq_uqueue :: "vmac_queue option \<Rightarrow> sk_buff \<Rightarrow> u16 \<Rightarrow> u8 \<Rightarrow> vmac_queues \<Rightarrow> vmac_queues" where
  "enq_uqueue mem skb seq rate qs =
     (case mem of
        None \<Rightarrow> qs
      | Some entry \<Rightarrow> qs\<lparr>uqueue := uqueue qs @ [entry\<lparr>q_frame := skb, q_rate := rate, q_seq := seq\<rparr>]\<rparr>)"

definition retrx :: "vmac_queue option \<Rightarrow> sk_buff \<Rightarrow> u8 \<Rightarrow> vmac_queues \<Rightarrow> vmac_queues" where
  "retrx mem skb rate qs =
     (case mem of
        None \<Rightarrow> qs
      | Some entry \<Rightarrow> qs\<lparr>mqueue := mqueue qs @ [entry\<lparr>q_frame := skb, q_rate := rate\<rparr>]\<rparr>)"

definition add_DACK :: "vmac_queue option \<Rightarrow> sk_buff \<Rightarrow> vmac_queues \<Rightarrow> vmac_queues" where
  "add_DACK mem skb qs =
     (case mem of
        None \<Rightarrow> qs
      | Some entry \<Rightarrow> qs\<lparr>mqueue := mqueue qs @ [entry\<lparr>q_frame := skb, q_rate := 1\<rparr>]\<rparr>)"

definition add_mgmt :: "vmac_queue option \<Rightarrow> sk_buff \<Rightarrow> vmac_queues \<Rightarrow> vmac_queues" where
  "add_mgmt mem skb qs =
     (case mem of
        None \<Rightarrow> qs
      | Some entry \<Rightarrow> qs\<lparr>rx_upper := rx_upper qs @ [entry\<lparr>q_frame := skb\<rparr>]\<rparr>)"

text \<open>
  One turn of the endless loop of \<open>queuethread\<close>. \<open>busy k\<close> says that the \<open>k\<close>-th call of \<open>get_stats\<close> in this
  turn returns \<open>-1\<close>: a busy medium ends the loop over the list at hand, and the next list starts.
  The result is the frames handed to \<open>vmac_low_tx\<close>, with their rates, what is left of the list, and
  the number of the next call.
\<close>

fun drain :: "(nat \<Rightarrow> bool) \<Rightarrow> (vmac_queue \<Rightarrow> u8) \<Rightarrow> nat \<Rightarrow> vmac_queue list \<Rightarrow>
    (sk_buff \<times> u8) list \<times> vmac_queue list \<times> nat" where
  "drain busy rate k [] = ([], [], k)"
| "drain busy rate k (tmp # q) =
     (if busy k then ([], tmp # q, Suc k)
      else (case drain busy rate (Suc k) q of
              (sent, left, k') \<Rightarrow> ((q_frame tmp, rate tmp) # sent, left, k')))"

definition mrate :: "vmac_queue \<Rightarrow> u8" where
  "mrate tmp = 13 + 0x40 + 0x80"

definition urate :: "vmac_queue \<Rightarrow> u8" where
  "urate tmp = (if q_rate tmp = 255 then 13 + 0x40 + 0x80 else q_rate tmp)"

definition mqueue_pass :: "(nat \<Rightarrow> bool) \<Rightarrow> nat \<Rightarrow> vmac_queues \<Rightarrow> (sk_buff \<times> u8) list \<times> vmac_queues \<times> nat" where
  "mqueue_pass busy k qs =
     (case drain busy mrate k (mqueue qs) of (sent, left, k) \<Rightarrow> (sent, qs\<lparr>mqueue := left\<rparr>, k))"

definition uqueue_pass :: "(nat \<Rightarrow> bool) \<Rightarrow> nat \<Rightarrow> vmac_queues \<Rightarrow> (sk_buff \<times> u8) list \<times> vmac_queues \<times> nat" where
  "uqueue_pass busy k qs =
     (case drain busy urate k (uqueue qs) of (sent, left, k) \<Rightarrow> (sent, qs\<lparr>uqueue := left\<rparr>, k))"

definition queuethread :: "(nat \<Rightarrow> bool) \<Rightarrow> vmac_queues \<Rightarrow> (sk_buff \<times> u8) list \<times> vmac_queues" where
  "queuethread busy qs =
     (case mqueue_pass busy 0 qs of (sent, qs, k) \<Rightarrow>
      (case uqueue_pass busy k qs of (sent', qs, _) \<Rightarrow> (sent @ sent', qs)))"

text \<open>One turn of \<open>rqueuethread\<close>: every queued frame goes to \<open>vmac_rx\<close>.\<close>

definition rqueuethread :: "vmac_queues \<Rightarrow> sk_buff list \<times> vmac_queues" where
  "rqueuethread qs = (map q_frame (rx_upper qs), qs\<lparr>rx_upper := []\<rparr>)"

section \<open>First in, first out\<close>

text \<open>
  The contract of a queue that is drained from the front: what goes out is what went in, in order.
  \<open>contents\<close> lists the frames inside, \<open>put\<close> adds one, \<open>run\<close> is a turn of the thread on it.
\<close>

locale frame_queue =
  fixes contents :: "'q \<Rightarrow> 'f list"
    and put :: "'f \<Rightarrow> 'q \<Rightarrow> 'q"
    and run :: "'e \<Rightarrow> 'q \<Rightarrow> 'f list \<times> 'q"
  assumes contents_put: "contents (put f q) = contents q @ [f]"
    and contents_run: "fst (run e q) @ contents (snd (run e q)) = contents q"
begin

text \<open>A history of the queue: frames put in (\<open>Inl\<close>) and turns of the thread (\<open>Inr\<close>).\<close>

fun history :: "('f + 'e) list \<Rightarrow> 'q \<Rightarrow> 'f list \<times> 'q" where
  "history [] q = ([], q)"
| "history (Inl f # es) q = history es (put f q)"
| "history (Inr e # es) q =
     (let (out, q') = run e q; (outs, q'') = history es q' in (out @ outs, q''))"

lemma history_fifo:
  "fst (history es q) @ contents (snd (history es q)) = contents q @ List.map_filter (\<lambda>x. case x of Inl f \<Rightarrow> Some f | Inr e \<Rightarrow> None) es"
proof (induction es q rule: history.induct)
  case (2 f es q)
  then show ?case by (simp add: contents_put List.map_filter_simps)
next
  case (3 e es q)
  obtain out q' where r: "run e q = (out, q')" by fastforce
  moreover have "contents q = out @ contents q'"
    using contents_run [of e q] r by simp
  moreover obtain outs q'' where "history es q' = (outs, q'')" by fastforce
  ultimately show ?case
    using 3 by (simp add: List.map_filter_simps)
qed (simp add: List.map_filter_simps)

lemma history_prefix:
  "contents q = [] \<Longrightarrow>
   \<exists>rest. List.map_filter (\<lambda>x. case x of Inl f \<Rightarrow> Some f | Inr e \<Rightarrow> None) es = fst (history es q) @ rest"
  by (metis append_Nil history_fifo)

end

lemma drain_fifo:
  "drain busy rate k q = (sent, left, k') \<Longrightarrow> map fst sent @ map q_frame left = map q_frame q"
  by (induction busy rate k q arbitrary: sent left k' rule: drain.induct)
    (auto split: if_splits prod.splits)

lemma drain_idle:
  "\<forall>k. \<not> busy k \<Longrightarrow> drain busy rate k q = (map (\<lambda>e. (q_frame e, rate e)) q, [], k + length q)"
  by (induction busy rate k q rule: drain.induct) auto

text \<open>The three queues of the file keep the contract, whatever memory the entries are made of.\<close>

interpretation mq: frame_queue "\<lambda>qs. map q_frame (mqueue qs)" "\<lambda>skb. retrx (Some mem) skb rate"
  "\<lambda>(busy, k) qs. (case mqueue_pass busy k qs of (sent, qs, k) \<Rightarrow> (map fst sent, qs))" for mem rate
  by unfold_locales
    (auto simp: retrx_def mqueue_pass_def split: prod.splits intro: drain_fifo)

interpretation uq: frame_queue "\<lambda>qs. map q_frame (uqueue qs)" "\<lambda>skb. enq_uqueue (Some mem) skb seq rate"
  "\<lambda>(busy, k) qs. (case uqueue_pass busy k qs of (sent, qs, k) \<Rightarrow> (map fst sent, qs))" for mem seq rate
  by unfold_locales
    (auto simp: enq_uqueue_def uqueue_pass_def split: prod.splits intro: drain_fifo)

interpretation rq: frame_queue "\<lambda>qs. map q_frame (rx_upper qs)" "\<lambda>skb. add_mgmt (Some mem) skb"
  "\<lambda>(_ :: unit). rqueuethread" for mem
  by unfold_locales (simp_all add: add_mgmt_def rqueuethread_def)

section \<open>Priority\<close>

text \<open>
  In one turn of \<open>queuethread\<close> every management frame that is sent goes out before any frame of
  the upper layer, both in the order they were queued; no frame is lost or sent twice (what was
  sent and what is left of each list make up the list), and the queue of received frames is not
  touched.
\<close>
theorem queuethread_order:
  "case queuethread busy qs of (sent, qs') \<Rightarrow>
     \<exists>ms us. map fst sent = ms @ us \<and>
       ms @ map q_frame (mqueue qs') = map q_frame (mqueue qs) \<and>
       us @ map q_frame (uqueue qs') = map q_frame (uqueue qs) \<and>
       rx_upper qs' = rx_upper qs"
proof -
  obtain ms ml k where m: "drain busy mrate 0 (mqueue qs) = (ms, ml, k)"
    by (cases "drain busy mrate 0 (mqueue qs)") auto
  obtain us ul k' where u: "drain busy urate k (uqueue qs) = (us, ul, k')"
    by (cases "drain busy urate k (uqueue qs)") auto
  show ?thesis
    using drain_fifo [OF m] drain_fifo [OF u]
    by (auto simp: queuethread_def mqueue_pass_def uqueue_pass_def m u)
qed

text \<open>
  However puts into the queue of received management frames and turns of \<open>rqueuethread\<close>
  interleave, from an empty queue on: the frames handed to \<open>vmac_rx\<close> so far are the first of the
  frames put in, in their order.
\<close>
theorem rqueue_in_order:
  "\<exists>rest. List.map_filter (\<lambda>x. case x of Inl f \<Rightarrow> Some f | Inr e \<Rightarrow> None) es =
     fst (frame_queue.history (\<lambda>skb. add_mgmt (Some mem) skb) (\<lambda>(_ :: unit). rqueuethread) es queue_init) @ rest"
  by (rule rq.history_prefix) (simp add: queue_init_def)

text \<open>
  With an idle medium one turn of \<open>queuethread\<close> empties both lists; every retransmission and
  every DACK leaves at the fixed rate 13 with the flags of the short guard interval and the 40 MHz
  band, and a frame of the upper layer at its own rate unless that is 255.
\<close>
theorem queuethread_idle:
  assumes "\<forall>k. \<not> busy k"
  shows "queuethread busy qs =
           (map (\<lambda>e. (q_frame e, 205)) (mqueue qs) @
            map (\<lambda>e. (q_frame e, if q_rate e = 255 then 205 else q_rate e)) (uqueue qs),
            qs\<lparr>mqueue := [], uqueue := []\<rparr>)"
  by (simp add: queuethread_def mqueue_pass_def uqueue_pass_def drain_idle [OF assms] mrate_def urate_def)

definition queue_example :: vmac_queues where
  "queue_example = add_DACK (Some \<lparr>q_frame = \<lparr>skb_id = 0, headroom = 0, skb_data = [], tailroom = 0\<rparr>,
       q_seq = 0, q_rate = 0\<rparr>) \<lparr>skb_id = 7, headroom = 0, skb_data = [1], tailroom = 0\<rparr> queue_init"

theorem queuethread_idle_witness:
  "map snd (fst (queuethread (\<lambda>_. False) queue_example)) = [205] \<and>
   mqueue (snd (queuethread (\<lambda>_. False) queue_example)) = []"
  using queuethread_idle [of "\<lambda>_. False" queue_example]
  by (simp add: queue_example_def add_DACK_def queue_init_def)

end
