(* ===== verification/Rx_Reorder.thy ===== *)
theory Rx_Reorder
  imports Vmac_Prelude
begin

text \<open>
  Reception of aggregated frames in the driver (\<^verbatim>\<open>kernel/core/rtw_recv.c\<close>): for every traffic class of a
  station a \<^verbatim>\<open>struct recv_reorder_ctrl\<close> holds frames that arrived ahead of a lost one in a window of
  twelve-bit sequence numbers, and gives them on in order, when the gap closes, when the window moves
  over it, or when a timer gives up on it. The queue lock is held over each operation, so an operation
  is a function of the state. What becomes of a frame that is given on (\<open>recv_process_mpdu\<close>) does not
  touch this state; whether it succeeds is the argument \<open>ok\<close>.
\<close>

section \<open>State\<close>

record mpdu =
  mp_id :: nat
  mp_seq :: u16
  mp_qos :: u8

text \<open>The timer is the number of milliseconds it was set to when it is pending.\<close>

record reorder_ctrl =
  ro_enable :: bool
  indicate_seq :: u16
  wsize_b :: u8
  ampdu_size :: u8
  pending_queue :: "mpdu list"
  reordering_timer :: "nat option"
  bReorderWaiting :: bool

text \<open>The counters of \<^verbatim>\<open>struct recv_priv\<close> and, in order, the frames given to \<open>recv_process_mpdu\<close>.\<close>

record recv_priv =
  window_shift_cnt :: u64
  ampdu_drop_count :: u64
  ampdu_loss_count :: u64
  forced_indicate_count :: u64
  rx_drop :: u64
  rx_drop_count :: u64
  indicated :: "mpdu list"

definition SN_LESS :: "u16 \<Rightarrow> u16 \<Rightarrow> bool" where
  "SN_LESS a b \<longleftrightarrow> (a - b) AND 0x800 \<noteq> 0"

definition REORDER_WAIT_TIME :: nat where
  "REORDER_WAIT_TIME = 50"

definition RX_AMPDU_SIZE_INVALID :: u8 where
  "RX_AMPDU_SIZE_INVALID = 0xFF"

text \<open>The part of \<open>rtw_alloc_stainfo\<close> that sets up one traffic class of a new station.\<close>

definition init_reorder_ctrl :: reorder_ctrl where
  "init_reorder_ctrl = \<lparr>ro_enable = False, indicate_seq = 0xffff, wsize_b = 64,
     ampdu_size = RX_AMPDU_SIZE_INVALID, pending_queue = [], reordering_timer = None, bReorderWaiting = False\<rparr>"

text \<open>
  The part of \<open>add_ba_rsp_hdl\<close> that concerns the traffic class: the peer has asked for aggregation,
  \<open>status\<close> 0 accepts, 37 rejects.
\<close>

definition add_ba_rsp_ctrl :: "u8 \<Rightarrow> u8 \<Rightarrow> reorder_ctrl \<Rightarrow> reorder_ctrl" where
  "add_ba_rsp_ctrl status sz c =
     (let c = c\<lparr>indicate_seq := 0xffff\<rparr>
      in if status = 0 then c\<lparr>ro_enable := True, ampdu_size := sz\<rparr>
         else if status = 37 then c\<lparr>ro_enable := False\<rparr> else c)"

section \<open>Operations\<close>

definition check_indicate_seq :: "reorder_ctrl \<Rightarrow> recv_priv \<Rightarrow> u16 \<Rightarrow> bool \<times> reorder_ctrl \<times> recv_priv" where
  "check_indicate_seq c p seq_num =
     (let wsize = wsize_b c;
          wend = (indicate_seq c + ucast wsize - 1) AND 0xFFF;
          c = (if indicate_seq c = 0xFFFF then c\<lparr>indicate_seq := seq_num\<rparr> else c)
      in if SN_LESS seq_num (indicate_seq c) then (False, c, p)
         else if seq_num = indicate_seq c then
           (True, c\<lparr>indicate_seq := (indicate_seq c + 1) AND 0xFFF\<rparr>, p)
         else if SN_LESS wend seq_num then
           (True,
            c\<lparr>indicate_seq :=
                (if int (unat wsize) - 1 \<le> int (unat seq_num) then seq_num + 1 - ucast wsize
                 else 0xFFF - (ucast wsize - (seq_num + 1)) + 1)\<rparr>,
            p\<lparr>window_shift_cnt := window_shift_cnt p + 1\<rparr>)
         else (True, c, p))"

text \<open>
  \<open>enqueue_reorder_recvframe\<close> walks over the queue to the first frame that is not before the new one;
  an equal number means a duplicate, and the frame is not inserted.
\<close>

fun enqueue_reorder :: "mpdu list \<Rightarrow> mpdu \<Rightarrow> mpdu list option" where
  "enqueue_reorder [] f = Some [f]"
| "enqueue_reorder (g # gs) f =
     (if SN_LESS (mp_seq g) (mp_seq f) then map_option (Cons g) (enqueue_reorder gs f)
      else if mp_seq g = mp_seq f then None
      else Some (f # g # gs))"

definition enqueue_reorder_recvframe :: "reorder_ctrl \<Rightarrow> mpdu \<Rightarrow> bool \<times> reorder_ctrl" where
  "enqueue_reorder_recvframe c f =
     (case enqueue_reorder (pending_queue c) f of
        None \<Rightarrow> (False, c)
      | Some q \<Rightarrow> (True, c\<lparr>pending_queue := q\<rparr>))"

definition pkt_loss_cnt :: "recv_priv \<Rightarrow> u64 \<Rightarrow> u64 \<Rightarrow> recv_priv" where
  "pkt_loss_cnt p prev_seq current_seq =
     (let d = (if current_seq < prev_seq then 4096 + current_seq - prev_seq else current_seq - prev_seq)
      in p\<lparr>ampdu_loss_count := ampdu_loss_count p + d, rx_drop := rx_drop p + d\<rparr>)"

text \<open>The loop of \<open>recv_indicatepkts_in_order\<close>; the result says whether frames are left in the queue.\<close>

fun indicate_loop :: "(mpdu \<Rightarrow> bool) \<Rightarrow> mpdu list \<Rightarrow> u16 \<Rightarrow> recv_priv \<Rightarrow> bool \<times> mpdu list \<times> u16 \<times> recv_priv" where
  "indicate_loop ok [] ind p = (False, [], ind, p)"
| "indicate_loop ok (f # fs) ind p =
     (if \<not> SN_LESS ind (mp_seq f) then
        indicate_loop ok fs (if ind = mp_seq f then (ind + 1) AND 0xFFF else ind)
          (p\<lparr>indicated := indicated p @ [f],
             rx_drop_count := (if ok f then rx_drop_count p else rx_drop_count p + 1)\<rparr>)
      else (True, f # fs, ind, p))"

definition recv_indicatepkts_in_order ::
  "(mpdu \<Rightarrow> bool) \<Rightarrow> reorder_ctrl \<Rightarrow> recv_priv \<Rightarrow> bool \<Rightarrow> bool \<times> reorder_ctrl \<times> recv_priv" where
  "recv_indicatepkts_in_order ok c p bforced =
     (let loop = (\<lambda>c p. case indicate_loop ok (pending_queue c) (indicate_seq c) p of
            (left, q, ind, p) \<Rightarrow> (left, c\<lparr>pending_queue := q, indicate_seq := ind\<rparr>, p))
      in if bforced then
           (let p = p\<lparr>forced_indicate_count := forced_indicate_count p + 1\<rparr>
            in case pending_queue c of
                 [] \<Rightarrow> (True, c, p)
               | f # _ \<Rightarrow>
                   loop (c\<lparr>indicate_seq := mp_seq f\<rparr>)
                     (pkt_loss_cnt p (ucast (indicate_seq c)) (ucast (mp_seq f))))
         else loop c p)"

text \<open>The return values \<open>_FAIL\<close>, \<open>_SUCCESS\<close> and \<open>RTW_RX_HANDLED\<close>.\<close>

datatype rx_ret = RX_FAIL | RX_SUCCESS | RX_HANDLED

definition recv_indicatepkt_reorder ::
  "(mpdu \<Rightarrow> bool) \<Rightarrow> reorder_ctrl option \<Rightarrow> recv_priv \<Rightarrow> mpdu \<Rightarrow> rx_ret \<times> reorder_ctrl option \<times> recv_priv" where
  "recv_indicatepkt_reorder ok ctrl p f =
     (case ctrl of
        None \<Rightarrow> (RX_SUCCESS, None, p)
      | Some c \<Rightarrow>
          if mp_qos f = 0 \<or> \<not> ro_enable c then (RX_SUCCESS, Some c, p)
          else
            (case check_indicate_seq c p (mp_seq f) of
               (False, c, p) \<Rightarrow> (RX_FAIL, Some c, p\<lparr>ampdu_drop_count := ampdu_drop_count p + 1\<rparr>)
             | (True, c, p) \<Rightarrow>
                 (case enqueue_reorder_recvframe c f of
                    (False, c) \<Rightarrow> (RX_FAIL, Some c, p)
                  | (True, c) \<Rightarrow>
                      (case recv_indicatepkts_in_order ok c p False of
                         (True, c, p) \<Rightarrow>
                           (RX_HANDLED,
                            Some (if \<not> bReorderWaiting c
                                  then c\<lparr>bReorderWaiting := True, reordering_timer := Some REORDER_WAIT_TIME\<rparr>
                                  else c), p)
                       | (False, c, p) \<Rightarrow>
                           (RX_HANDLED, Some (c\<lparr>bReorderWaiting := False, reordering_timer := None\<rparr>), p)))))"

text \<open>The timer has run: it is no longer pending when its handler starts.\<close>

definition rtw_reordering_ctrl_timeout_handler ::
  "(mpdu \<Rightarrow> bool) \<Rightarrow> bool \<Rightarrow> reorder_ctrl \<Rightarrow> recv_priv \<Rightarrow> reorder_ctrl \<times> recv_priv" where
  "rtw_reordering_ctrl_timeout_handler ok cannot_run c p =
     (let c = c\<lparr>reordering_timer := None\<rparr>
      in if cannot_run then (c, p)
         else
           (case recv_indicatepkts_in_order ok (c\<lparr>bReorderWaiting := False\<rparr>) p True of
              (left, c, p) \<Rightarrow>
                (if left then c\<lparr>reordering_timer := Some REORDER_WAIT_TIME\<rparr> else c, p)))"

text \<open>A frame that bypasses the window sets it, before and after it is processed.\<close>

definition recv_set_iseq_before_mpdu_process :: "reorder_ctrl option \<Rightarrow> u16 \<Rightarrow> reorder_ctrl option" where
  "recv_set_iseq_before_mpdu_process ctrl seq_num = map_option (\<lambda>c. c\<lparr>indicate_seq := seq_num\<rparr>) ctrl"

definition recv_set_iseq_after_mpdu_process :: "reorder_ctrl option \<Rightarrow> reorder_ctrl option" where
  "recv_set_iseq_after_mpdu_process ctrl =
     map_option (\<lambda>c. c\<lparr>indicate_seq := of_nat ((unat (indicate_seq c) + 1) mod 4096)\<rparr>) ctrl"

text \<open>
  Aggregation is negotiated again while frames are held: the next run of the timer takes the difference to
  the initial 0xffff for a number of lost frames, and the counters wrap.
\<close>

lemma addba_loss_wraps:
  assumes "pending_queue c = f # fs" and "unat (mp_seq f) < 4096"
  shows "rx_drop (pkt_loss_cnt p (ucast (indicate_seq (add_ba_rsp_ctrl status sz c))) (ucast (mp_seq f))) =
    rx_drop p + ucast (mp_seq f) - 61439"
proof -
  have "indicate_seq (add_ba_rsp_ctrl status sz c) = 0xffff"
    by (simp add: add_ba_rsp_ctrl_def Let_def)
  moreover have "(ucast (mp_seq f) :: u64) < 0xffff"
  proof -
    have "take_bit 64 (unat (mp_seq f)) = unat (mp_seq f)"
      using assms(2) by (simp add: take_bit_nat_eq_self_iff)
    then show ?thesis using assms(2) by (simp add: word_less_nat_alt unsigned_ucast_eq)
  qed
  ultimately show ?thesis
    by (simp add: pkt_loss_cnt_def Let_def)
qed

section \<open>Twelve-bit sequence numbers\<close>

text \<open>The sequence number of the \<open>n\<close>-th frame of a peer.\<close>

definition sn :: "nat \<Rightarrow> u16" where
  "sn n = of_nat (n mod 4096)"

lemma unat_sn [simp]: "unat (sn n) = n mod 4096"
  by (simp add: sn_def unat_of_nat_u16 order_less_trans [OF mod_less_divisor])

lemma unat_and_fff: "unat ((x :: u16) AND 0xFFF) = unat x mod 4096"
proof -
  have "x AND 0xFFF = x AND mask 12"
    by (simp add: mask_eq_decr_exp)
  also have "\<dots> = take_bit 12 x"
    by (simp only: take_bit_eq_mask)
  finally show ?thesis by (simp only: unsigned_take_bit_eq) (simp add: take_bit_eq_mod)
qed

lemma and_fff_sn: "(x :: u16) AND 0xFFF = sn (unat x)"
  by (rule word_unat_eq_iff [THEN iffD2]) (simp add: unat_and_fff)

lemma sn_mod: "sn n = sn m \<longleftrightarrow> n mod 4096 = m mod 4096"
  by (metis sn_def unat_sn)

lemma sn_not_ffff [simp]: "sn n \<noteq> 0xFFFF"
  by (auto simp: word_unat_eq_iff)

lemma sn_eq_near:
  assumes "a < b + 4096" and "b < a + 4096"
  shows "sn a = sn b \<longleftrightarrow> a = b"
proof
  have "x = y" if "x mod 4096 = y mod 4096" "x \<le> y" "y < x + 4096" for x y :: nat
  proof -
    have "4096 dvd y - x" using that(1,2) by (metis mod_eq_dvd_iff_nat)
    then obtain k where "y - x = 4096 * k" ..
    then show ?thesis using that(2,3) by (cases k) simp_all
  qed
  then show "a = b" if "sn a = sn b"
    using that assms unfolding sn_mod by (metis nat_le_linear)
qed simp

lemma SN_LESS_bit: "SN_LESS a b \<longleftrightarrow> bit (a - b) 11"
  unfolding SN_LESS_def bit_iff_and_push_bit_not_eq_0 by simp

lemma odd_div_2048: "odd (x div 2048) \<longleftrightarrow> 2048 \<le> x mod 4096" for x :: int
proof -
  have "x mod 4096 = 2048 * (x div 2048 mod 2) + x mod 2048"
    using zmod_zmult2_eq [of 2 x 2048] by simp
  moreover have "0 \<le> x mod 2048" "x mod 2048 < 2048" by simp_all
  ultimately show ?thesis by (cases "even (x div 2048)") (simp_all add: odd_iff_mod_2_eq_one even_iff_mod_2_eq_zero)
qed

lemma SN_LESS_mod: "SN_LESS a b \<longleftrightarrow> 2048 \<le> (uint a - uint b) mod 4096"
proof -
  have "bit (a - b) 11 \<longleftrightarrow> bit (uint (a - b)) 11"
    by (simp only: bit_uint_iff) simp
  also have "\<dots> \<longleftrightarrow> odd (uint (a - b) div 2048)"
    by (simp add: bit_iff_odd)
  also have "\<dots> \<longleftrightarrow> 2048 \<le> uint (a - b) mod 4096"
    by (rule odd_div_2048)
  also have "uint (a - b) mod 4096 = (uint a - uint b) mod 4096"
    by (simp add: uint_word_ariths mod_mod_cancel)
  finally show ?thesis unfolding SN_LESS_bit .
qed

lemma SN_LESS_sn:
  assumes "b \<le> a + 2048" and "a \<le> b + 2047"
  shows "SN_LESS (sn a) (sn b) \<longleftrightarrow> a < b"
proof -
  have m: "(uint (sn a) - uint (sn b)) mod 4096 = (int a - int b) mod 4096"
    by (simp add: uint_nat zmod_int mod_diff_eq)
  show ?thesis
  proof (cases "a < b")
    case True
    have "(int a - int b) mod 4096 = (int a - int b + 4096) mod 4096" by simp
    also have "\<dots> = int a - int b + 4096" using True assms by (intro mod_pos_pos_trivial) simp_all
    finally show ?thesis using True assms unfolding SN_LESS_mod m by simp
  next
    case False
    then have "(int a - int b) mod 4096 = int a - int b" using assms by (intro mod_pos_pos_trivial) simp_all
    then show ?thesis using False assms unfolding SN_LESS_mod m by simp
  qed
qed

lemma sn_add: "k < 60000 \<Longrightarrow> (sn n + of_nat k) AND 0xFFF = sn (n + k)"
proof -
  assume "k < 60000"
  then have "unat (sn n + of_nat k) = n mod 4096 + k"
    by (simp add: unat_word_ariths unat_of_nat_u16 less_imp_le_nat add_less_le_mono [of "n mod 4096" 4096 k 60000, simplified])
  then show ?thesis by (simp add: and_fff_sn sn_mod mod_add_left_eq)
qed

lemmas sn_suc = sn_add [of 1, simplified] and sn_wend = sn_add [of 63, simplified]

lemma sn_shift:
  assumes "63 \<le> n"
  shows "(if 63 \<le> n mod 4096 then sn n + 1 - 64 else 0xFFF - (64 - (sn n + 1)) + 1) = sn (n - 63)"
proof -
  define q r where "q = n div 4096" and "r = n mod 4096"
  have n: "n = 4096 * q + r" "r < 4096" by (simp_all add: q_def r_def)
  have s: "sn n = of_nat r" by (simp add: sn_def r_def)
  show ?thesis
  proof (cases "63 \<le> r")
    case True
    then have "n - 63 = r - 63 + 4096 * q" using n by simp
    then have "(n - 63) mod 4096 = r - 63" using n(2) by simp
    then show ?thesis using True by (simp add: s sn_def of_nat_diff flip: r_def)
  next
    case False
    then have "1 \<le> q" using assms n by (cases q) simp_all
    then have "n - 63 = (4033 + r) + 4096 * (q - 1)" using n False by (simp add: algebra_simps)
    then have "(n - 63) mod 4096 = 4033 + r" using False by simp
    then show ?thesis using False by (simp add: s sn_def flip: r_def)
  qed
qed


section \<open>The reordering buffer on unbounded numbers\<close>

text \<open>
  The specification: frames carry their number in the peer's stream. \<open>sp_next\<close> is the number waited for,
  none before the first frame; \<open>sp_pend\<close> holds the frames behind a gap in ascending order, \<open>sp_out\<close> what
  was given on; \<open>sp_lost\<close> counts the numbers given up by the timer.
\<close>

record reorder_spec =
  sp_next :: "nat option"
  sp_pend :: "(nat \<times> mpdu) list"
  sp_out :: "(nat \<times> mpdu) list"
  sp_lost :: nat

text \<open>The first number from \<open>k\<close> on that is not in the ascending list.\<close>

fun gap :: "nat \<Rightarrow> nat list \<Rightarrow> nat" where
  "gap k [] = k"
| "gap k (n # ns) = (if n \<le> k then gap (if n = k then k + 1 else k) ns else k)"

definition settle :: "nat \<Rightarrow> (nat \<times> mpdu) list \<Rightarrow> reorder_spec \<Rightarrow> reorder_spec" where
  "settle k pend a =
     (let k' = gap k (map fst pend)
      in a\<lparr>sp_next := Some k', sp_pend := filter (\<lambda>x. k' \<le> fst x) pend,
           sp_out := sp_out a @ filter (\<lambda>x. fst x < k') pend\<rparr>)"

definition waits_for :: "reorder_spec \<Rightarrow> nat \<Rightarrow> nat" where
  "waits_for a n = (case sp_next a of None \<Rightarrow> n | Some k \<Rightarrow> k)"

definition spec_accepts :: "nat \<Rightarrow> reorder_spec \<Rightarrow> bool" where
  "spec_accepts n a \<longleftrightarrow> waits_for a n \<le> n \<and> n \<notin> fst ` set (sp_pend a)"

definition spec_frame :: "nat \<Rightarrow> mpdu \<Rightarrow> reorder_spec \<Rightarrow> reorder_spec" where
  "spec_frame n f a =
     (if spec_accepts n a then
        (let k = waits_for a n
         in settle (if n = k then n + 1 else if k + 64 \<le> n then n - 63 else k)
              (insort_key fst (n, f) (sp_pend a)) a)
      else a)"

definition spec_timeout :: "reorder_spec \<Rightarrow> reorder_spec" where
  "spec_timeout a =
     (case sp_pend a of
        [] \<Rightarrow> a
      | x # _ \<Rightarrow> settle (fst x) (sp_pend a) (a\<lparr>sp_lost := sp_lost a + (fst x - waits_for a (fst x))\<rparr>))"

section \<open>The code on its numbers\<close>

definition tagged :: "(nat \<times> mpdu) list \<Rightarrow> bool" where
  "tagged xs \<longleftrightarrow> sorted_wrt (<) (map fst xs) \<and> (\<forall>x \<in> set xs. mp_seq (snd x) = sn (fst x))"

lemma tagged_simps [simp]: "tagged []"
  "tagged (x # xs) \<longleftrightarrow> mp_seq (snd x) = sn (fst x) \<and> (\<forall>y \<in> set xs. fst x < fst y) \<and> tagged xs"
  by (auto simp: tagged_def)

lemma gap_ge: "k \<le> gap k ns"
  by (induction k ns rule: gap.induct) auto

lemma gap_le: "gap k ns \<le> k + length ns"
  by (induction k ns rule: gap.induct) auto

lemma gap_less: "sorted_wrt (<) ns \<Longrightarrow> n \<in> set ns \<Longrightarrow> n < gap k ns \<or> gap k ns < n"
proof (induction k ns rule: gap.induct)
  case (2 k m ns)
  then show ?case
    using gap_ge [of "if m = k then k + 1 else k" ns] by auto
qed simp

lemma indicate_loop_spec:
  assumes "tagged xs" and "\<forall>x \<in> set xs. fst x \<le> k + 2048 \<and> k \<le> fst x + 2047"
  defines "k' \<equiv> gap k (map fst xs)"
  shows "\<exists>p'. indicate_loop ok (map snd xs) (sn k) p =
      (filter (\<lambda>x. k' \<le> fst x) xs \<noteq> [], map snd (filter (\<lambda>x. k' \<le> fst x) xs), sn k', p') \<and>
    indicated p' = indicated p @ map snd (filter (\<lambda>x. fst x < k') xs) \<and>
    ampdu_loss_count p' = ampdu_loss_count p \<and> rx_drop p' = rx_drop p"
  using assms(1,2) unfolding k'_def
proof (induction xs arbitrary: k p)
  case (Cons x xs)
  have less: "SN_LESS (sn k) (mp_seq (snd x)) \<longleftrightarrow> k < fst x"
    using Cons.prems by (simp add: SN_LESS_sn)
  have eq: "sn k = mp_seq (snd x) \<longleftrightarrow> k = fst x"
    using Cons.prems by (simp add: sn_eq_near)
  show ?case
  proof (cases "fst x \<le> k")
    case True
    define j where "j = (if fst x = k then k + 1 else k)"
    define q where "q = p\<lparr>indicated := indicated p @ [snd x], rx_drop_count := (if ok (snd x) then rx_drop_count p else rx_drop_count p + 1)\<rparr>"
    have "(if sn k = mp_seq (snd x) then (sn k + 1) AND 0xFFF else sn k) = sn j"
      using eq by (auto simp: j_def sn_suc)
    then have step: "indicate_loop ok (map snd (x # xs)) (sn k) p = indicate_loop ok (map snd xs) (sn j) q"
      using less True by (simp add: q_def)
    have g: "gap k (map fst (x # xs)) = gap j (map fst xs)" "fst x < gap j (map fst xs)"
      using True gap_ge [of j "map fst xs"] by (auto simp: j_def)
    have "\<forall>y \<in> set xs. fst y \<le> j + 2048 \<and> j \<le> fst y + 2047"
      using Cons.prems True by (fastforce simp: j_def)
    then show ?thesis
      using Cons.IH [of j q] Cons.prems(1) g unfolding step by (simp add: q_def)
  next
    case False
    then have "\<forall>y \<in> set xs. k \<le> fst y \<and> \<not> fst y < k"
      using Cons.prems(1) by fastforce
    then show ?thesis using less False by (simp add: filter_empty_conv filter_id_conv)
  qed
qed simp

lemma enqueue_reorder_spec:
  assumes "tagged xs" and "mp_seq f = sn n" and "\<forall>x \<in> set xs. n \<le> fst x + 2048 \<and> fst x \<le> n + 2047"
  shows "enqueue_reorder (map snd xs) f =
    (if n \<in> fst ` set xs then None else Some (map snd (insort_key fst (n, f) xs)))"
  using assms
proof (induction xs)
  case (Cons x xs)
  have "SN_LESS (mp_seq (snd x)) (mp_seq f) \<longleftrightarrow> fst x < n" "mp_seq (snd x) = mp_seq f \<longleftrightarrow> fst x = n"
    using Cons.prems by (simp_all add: SN_LESS_sn sn_eq_near)
  moreover have "n \<notin> fst ` set xs" if "n \<le> fst x"
    using Cons.prems(1) that by fastforce
  ultimately show ?case
    using Cons by auto
qed simp

lemma tagged_insort:
  assumes "tagged xs" and "mp_seq f = sn n" and "n \<notin> fst ` set xs"
  shows "tagged (insort_key fst (n, f) xs)"
  using assms by (induction xs) (auto simp: set_insort_key)


text \<open>What ties a state of the code to a state of the specification.\<close>

definition reorder_rel :: "reorder_ctrl \<Rightarrow> recv_priv \<Rightarrow> reorder_spec \<Rightarrow> bool" where
  "reorder_rel c p a \<longleftrightarrow>
     ro_enable c \<and> wsize_b c = 64 \<and> pending_queue c = map snd (sp_pend a) \<and> indicated p = map snd (sp_out a) \<and>
     ampdu_loss_count p = of_nat (sp_lost a) \<and> tagged (sp_pend a) \<and> sorted_wrt (<) (map fst (sp_out a)) \<and>
     (case sp_next a of
        None \<Rightarrow> indicate_seq c = 0xFFFF \<and> sp_pend a = [] \<and> sp_out a = []
      | Some k \<Rightarrow> indicate_seq c = sn k \<and> (\<forall>x \<in> set (sp_pend a). k < fst x \<and> fst x < k + 64) \<and>
          (\<forall>x \<in> set (sp_out a). fst x < k)) \<and>
     (sp_pend a \<noteq> [] \<longleftrightarrow> reordering_timer c \<noteq> None) \<and> (bReorderWaiting c \<longrightarrow> reordering_timer c \<noteq> None)"

text \<open>The frame is less than half a turn of the counter away from the number waited for.\<close>

definition near :: "reorder_spec \<Rightarrow> nat \<Rightarrow> bool" where
  "near a n \<longleftrightarrow> waits_for a n \<le> n + 2048 \<and> n \<le> waits_for a n + 2047"

definition frame_start :: "nat \<Rightarrow> reorder_spec \<Rightarrow> nat" where
  "frame_start n a = (let k = waits_for a n in if n = k then n + 1 else if k + 64 \<le> n then n - 63 else k)"

lemma check_indicate_seq_spec:
  assumes "reorder_rel c p a" and "near a n"
  shows "if n < waits_for a n then check_indicate_seq c p (sn n) = (False, c, p)
    else \<exists>w. check_indicate_seq c p (sn n) = (True, c\<lparr>indicate_seq := sn (frame_start n a)\<rparr>, p\<lparr>window_shift_cnt := w\<rparr>)"
proof (cases "sp_next a")
  case None
  then have "waits_for a n = n" by (simp add: waits_for_def)
  moreover have "indicate_seq c = 0xFFFF" using assms(1) None by (simp add: reorder_rel_def)
  moreover have "\<not> SN_LESS (sn n) (sn n)" by (simp add: SN_LESS_def)
  ultimately show ?thesis
    by (auto simp: check_indicate_seq_def Let_def frame_start_def sn_suc intro!: exI [of _ "window_shift_cnt p"])
next
  case (Some k)
  then have k: "waits_for a n = k" and i: "indicate_seq c = sn k" "wsize_b c = 64"
    using assms(1) by (simp_all add: waits_for_def reorder_rel_def)
  have n: "k \<le> n + 2048" "n \<le> k + 2047" using assms(2) k by (simp_all add: near_def)
  have l: "SN_LESS (sn n) (sn k) \<longleftrightarrow> n < k" using n by (simp add: SN_LESS_sn)
  have e: "sn n = sn k \<longleftrightarrow> n = k" using n by (simp add: sn_eq_near)
  have m: "n \<ge> k \<Longrightarrow> SN_LESS (sn (k + 63)) (sn n) \<longleftrightarrow> k + 63 < n" using n by (simp add: SN_LESS_sn)
  have sh: "k + 64 \<le> n \<Longrightarrow> (if int (unat (64 :: u8)) - 1 \<le> int (unat (sn n)) then sn n + 1 - ucast (64 :: u8)
      else 0xFFF - (ucast (64 :: u8) - (sn n + 1)) + 1) = sn (n - 63)"
    using sn_shift [of n] by (auto split: if_splits)
  have w: "(indicate_seq c + ucast (wsize_b c) - 1) AND 0xFFF = sn (k + 63)"
  proof -
    have "sn k + ucast (64 :: u8) - 1 = sn k + 63" by simp
    then show ?thesis by (simp only: i sn_wend)
  qed
  have init: "(if indicate_seq c = 0xFFFF then c\<lparr>indicate_seq := sn n\<rparr> else c) = c"
    by (simp add: i)
  have d: "check_indicate_seq c p (sn n) =
      (if n < k then (False, c, p)
       else if n = k then (True, c\<lparr>indicate_seq := sn (n + 1)\<rparr>, p)
       else if k + 63 < n then (True, c\<lparr>indicate_seq := sn (n - 63)\<rparr>, p\<lparr>window_shift_cnt := window_shift_cnt p + 1\<rparr>)
       else (True, c, p))"
    unfolding check_indicate_seq_def Let_def w init unfolding i l e using m sh sn_suc [of k] by simp
  have c: "c\<lparr>indicate_seq := sn k\<rparr> = c" by (simp flip: i(1))
  have fs: "frame_start n a = (if n = k then n + 1 else if k + 64 \<le> n then n - 63 else k)"
    by (simp add: frame_start_def k Let_def)
  consider "n < k" | "n = k" | "k < n" "k + 63 < n" | "k < n" "\<not> k + 63 < n" by linarith
  then show ?thesis
  proof cases
    case 2
    then show ?thesis unfolding d k fs by (auto intro!: exI [of _ "window_shift_cnt p"])
  next
    case 4
    then show ?thesis unfolding d k fs by (auto simp: c intro!: exI [of _ "window_shift_cnt p"])
  qed (unfold d k fs, auto)
qed

lemma settle_rel:
  assumes "tagged xs" and "\<forall>x \<in> set xs. fst x < k + 64" and "\<forall>x \<in> set (sp_out a). fst x < k"
    and "\<forall>x \<in> set (sp_out a). \<forall>y \<in> set xs. fst x < fst y" and "sorted_wrt (<) (map fst (sp_out a))"
  defines "b \<equiv> settle k xs a"
  shows "tagged (sp_pend b)" "sorted_wrt (<) (map fst (sp_out b))"
    "\<forall>x \<in> set (sp_out b). fst x < the (sp_next b)"
    "\<forall>x \<in> set (sp_pend b). the (sp_next b) < fst x \<and> fst x < the (sp_next b) + 64"
proof -
  let ?k = "gap k (map fst xs)"
  have b: "sp_pend b = filter (\<lambda>x. ?k \<le> fst x) xs" "sp_out b = sp_out a @ filter (\<lambda>x. fst x < ?k) xs" "sp_next b = Some ?k"
    by (simp_all add: b_def settle_def Let_def)
  have t: "tagged (filter P xs)" for P
    using assms(1) by (induction xs) auto
  show "tagged (sp_pend b)" unfolding b by (rule t)
  have "sorted_wrt (<) (map fst (filter (\<lambda>x. fst x < ?k) xs))"
    using t by (simp add: tagged_def)
  then show "sorted_wrt (<) (map fst (sp_out b))"
    using assms(4,5) unfolding b by (fastforce simp: sorted_wrt_append)
  show "\<forall>x \<in> set (sp_out b). fst x < the (sp_next b)"
    using assms(3) gap_ge [of k "map fst xs"] unfolding b by fastforce
  have "fst x \<noteq> ?k" if "x \<in> set xs" for x
    using gap_less [of "map fst xs" "fst x" k] assms(1) that by (auto simp: tagged_def)
  then show "\<forall>x \<in> set (sp_pend b). the (sp_next b) < fst x \<and> fst x < the (sp_next b) + 64"
    using assms(2) gap_ge [of k "map fst xs"] unfolding b by (fastforce simp: le_less)
qed


lemma recv_indicatepkt_reorder_sim:
  assumes "reorder_rel c p a" and "near a n" and "mp_seq f = sn n" and "mp_qos f \<noteq> 0"
  shows "\<exists>r c' p'. recv_indicatepkt_reorder ok (Some c) p f = (r, Some c', p') \<and> reorder_rel c' p' (spec_frame n f a) \<and>
    r = (if spec_accepts n a then RX_HANDLED else RX_FAIL)"
proof -
  have R: "ro_enable c" "wsize_b c = 64" "pending_queue c = map snd (sp_pend a)" "indicated p = map snd (sp_out a)"
    "ampdu_loss_count p = of_nat (sp_lost a)" "tagged (sp_pend a)" "sorted_wrt (<) (map fst (sp_out a))"
    "sp_pend a \<noteq> [] \<longleftrightarrow> reordering_timer c \<noteq> None" "bReorderWaiting c \<longrightarrow> reordering_timer c \<noteq> None"
    using assms(1) by (simp_all add: reorder_rel_def)
  have K: "waits_for a n < fst x \<and> fst x < waits_for a n + 64" if "x \<in> set (sp_pend a)" for x
    using assms(1) that by (auto simp: reorder_rel_def waits_for_def split: option.splits)
  have O: "fst x < waits_for a n" if "x \<in> set (sp_out a)" for x
    using assms(1) that by (auto simp: reorder_rel_def waits_for_def split: option.splits)
  have N: "waits_for a n \<le> n + 2048" "n \<le> waits_for a n + 2047" using assms(2) by (simp_all add: near_def)
  note C = check_indicate_seq_spec [OF assms(1,2)]
  show ?thesis
  proof (cases "n < waits_for a n")
    case True
    then have "recv_indicatepkt_reorder ok (Some c) p f = (RX_FAIL, Some c, p\<lparr>ampdu_drop_count := ampdu_drop_count p + 1\<rparr>)"
      using C assms(3,4) R(1) by (simp add: recv_indicatepkt_reorder_def)
    moreover have "reorder_rel c (p\<lparr>ampdu_drop_count := ampdu_drop_count p + 1\<rparr>) a"
      using assms(1) by (simp add: reorder_rel_def)
    ultimately show ?thesis using True by (simp add: spec_frame_def spec_accepts_def)
  next
    case False
    then obtain w where ch: "check_indicate_seq c p (mp_seq f) = (True, c\<lparr>indicate_seq := sn (frame_start n a)\<rparr>, p\<lparr>window_shift_cnt := w\<rparr>)"
      using C assms(3) by auto
    define p1 where "p1 = p\<lparr>window_shift_cnt := w\<rparr>"
    have near_pend: "\<forall>x \<in> set (sp_pend a). n \<le> fst x + 2048 \<and> fst x \<le> n + 2047"
      using K N False by fastforce
    note enq = enqueue_reorder_spec [OF R(6) assms(3) near_pend]
    show ?thesis
    proof (cases "n \<in> fst ` set (sp_pend a)")
      case True
      then obtain x where x: "x \<in> set (sp_pend a)" "fst x = n" by auto
      have "frame_start n a = waits_for a n"
        using K [OF x(1)] x(2) by (simp add: frame_start_def Let_def)
      moreover have "sp_next a \<noteq> None"
        using x(1) assms(1) by (cases "sp_next a") (auto simp: reorder_rel_def)
      ultimately have "frame_start n a = waits_for a n" "sp_next a \<noteq> None" .
      then have "c\<lparr>indicate_seq := sn (frame_start n a)\<rparr> = c"
        using assms(1) by (auto simp: reorder_rel_def waits_for_def)
      then have "recv_indicatepkt_reorder ok (Some c) p f = (RX_FAIL, Some c, p1)"
        using ch enq True assms(4) R(1,3) by (simp add: recv_indicatepkt_reorder_def enqueue_reorder_recvframe_def p1_def)
      moreover have "reorder_rel c p1 a" using assms(1) by (simp add: reorder_rel_def p1_def)
      ultimately show ?thesis using True by (simp add: spec_frame_def spec_accepts_def)
    next
      case new: False
      let ?xs = "insort_key fst (n, f) (sp_pend a)" and ?k = "frame_start n a"
      let ?b = "settle ?k ?xs a"
      have acc: "spec_accepts n a" using False new by (simp add: spec_accepts_def)
      then have b: "spec_frame n f a = ?b" by (simp add: spec_frame_def frame_start_def Let_def)
      have t: "tagged ?xs" using R(6) assms(3) new by (rule tagged_insort)
      have k: "waits_for a n \<le> ?k" "?k \<le> n + 1" using False by (auto simp: frame_start_def Let_def)
      have hi: "\<forall>x \<in> set ?xs. fst x < ?k + 64"
        using K False by (fastforce simp: set_insort_key frame_start_def Let_def)
      have lo: "\<forall>x \<in> set ?xs. ?k \<le> fst x + 2047"
        using K k N False by (fastforce simp: set_insort_key)
      have o: "\<forall>x \<in> set (sp_out a). \<forall>y \<in> set ?xs. fst x < fst y"
        using K O False by (fastforce simp: set_insort_key)
      have "\<forall>x \<in> set (sp_out a). fst x < ?k" using O k(1) by fastforce
      note S = settle_rel [OF t hi this o R(7)]
      obtain p2 where loop: "indicate_loop ok (map snd ?xs) (sn ?k) p1 =
          (sp_pend ?b \<noteq> [], map snd (sp_pend ?b), sn (the (sp_next ?b)), p2)"
        "indicated p2 = indicated p1 @ map snd (filter (\<lambda>x. fst x < gap ?k (map fst ?xs)) ?xs)"
        "ampdu_loss_count p2 = ampdu_loss_count p1"
        using indicate_loop_spec [OF t, of ?k ok p1] hi lo by (fastforce simp: settle_def Let_def)
      define c2 where "c2 = c\<lparr>indicate_seq := sn (the (sp_next ?b)), pending_queue := map snd (sp_pend ?b)\<rparr>"
      define c3 where "c3 = (if sp_pend ?b \<noteq> [] then
          if \<not> bReorderWaiting c2 then c2\<lparr>bReorderWaiting := True, reordering_timer := Some REORDER_WAIT_TIME\<rparr> else c2
        else c2\<lparr>bReorderWaiting := False, reordering_timer := None\<rparr>)"
      have run: "recv_indicatepkt_reorder ok (Some c) p f = (RX_HANDLED, Some c3, p2)"
        using ch enq new assms(4) R(1,3) loop(1)
        by (simp add: recv_indicatepkt_reorder_def enqueue_reorder_recvframe_def recv_indicatepkts_in_order_def Let_def c3_def c2_def p1_def)
      have nx: "sp_next ?b = Some (the (sp_next ?b))" "sp_lost ?b = sp_lost a"
        "sp_out ?b = sp_out a @ filter (\<lambda>x. fst x < gap ?k (map fst ?xs)) ?xs"
        by (simp_all add: settle_def Let_def)
      have c3: "ro_enable c3" "wsize_b c3 = 64" "pending_queue c3 = map snd (sp_pend ?b)" "indicate_seq c3 = sn (the (sp_next ?b))"
        "sp_pend ?b \<noteq> [] \<longleftrightarrow> reordering_timer c3 \<noteq> None" "bReorderWaiting c3 \<longrightarrow> reordering_timer c3 \<noteq> None"
        using R(1,2,9) by (auto simp: c3_def c2_def)
      have p2: "indicated p2 = map snd (sp_out ?b)" "ampdu_loss_count p2 = of_nat (sp_lost ?b)"
        using loop(2,3) R(4,5) nx by (simp_all add: p1_def)
      have "reorder_rel c3 p2 ?b"
        unfolding reorder_rel_def using c3 p2 S by (subst nx(1)) simp
      then show ?thesis using run acc b by simp
    qed
  qed
qed


lemma pkt_loss_cnt_sn:
  assumes "k < n" and "n < k + 64"
  shows "ampdu_loss_count (pkt_loss_cnt p (ucast (sn k)) (ucast (sn n))) = ampdu_loss_count p + of_nat (n - k)"
    and "indicated (pkt_loss_cnt p s t) = indicated p"
proof -
  have u: "(ucast (sn m) :: u64) = of_nat (m mod 4096)" for m
    by (simp add: sn_def unsigned_of_nat take_bit_eq_mod)
  have less: "(of_nat a :: u64) < of_nat b \<longleftrightarrow> a < b" if "a < 4096" "b < 4096" for a b
    using that by (simp add: word_less_nat_alt unat_of_nat take_bit_eq_mod)
  define q r d where "q = k div 4096" and "r = k mod 4096" and "d = n - k"
  have k: "k = 4096 * q + r" "r < 4096" and d: "d < 64" using assms by (simp_all add: q_def r_def d_def)
  have n: "n = 4096 * q + (r + d)" using assms k by (simp add: d_def)
  have "ampdu_loss_count (pkt_loss_cnt p (ucast (sn k)) (ucast (sn n))) = ampdu_loss_count p + of_nat d"
  proof (cases "r + d < 4096")
    case True
    then have "n mod 4096 = r + d" by (simp add: n)
    moreover have "(of_nat (r + d) :: u64) - of_nat r = of_nat d" by simp
    ultimately show ?thesis
      using True k(2) by (simp add: pkt_loss_cnt_def Let_def u less del: of_nat_add flip: r_def)
  next
    case False
    then have "n = 4096 * Suc q + (r + d - 4096)" using n by simp
    moreover have "r + d - 4096 < 4096" using k(2) d by simp
    ultimately have m: "n mod 4096 = r + d - 4096" by (metis mod_less mod_mult_self4)
    have "(4096 :: u64) + of_nat (r + d - 4096) - of_nat r = of_nat d"
      using False by (simp add: of_nat_diff)
    moreover have "r + d - 4096 < r" using k(2) d False by simp
    ultimately show ?thesis using k(2) by (simp add: pkt_loss_cnt_def Let_def u less m flip: r_def)
  qed
  then show "ampdu_loss_count (pkt_loss_cnt p (ucast (sn k)) (ucast (sn n))) = ampdu_loss_count p + of_nat (n - k)"
    by (simp add: d_def)
  show "indicated (pkt_loss_cnt p s t) = indicated p"
    by (simp add: pkt_loss_cnt_def Let_def)
qed

lemma timeout_sim:
  assumes "reorder_rel c p a" and "reordering_timer c \<noteq> None"
  shows "\<exists>c' p'. rtw_reordering_ctrl_timeout_handler ok False c p = (c', p') \<and> reorder_rel c' p' (spec_timeout a) \<and>
    (\<exists>fs. sp_out (spec_timeout a) = sp_out a @ fs \<and> sp_pend a = fs @ sp_pend (spec_timeout a) \<and> fs \<noteq> [])"
proof -
  have R: "ro_enable c" "wsize_b c = 64" "pending_queue c = map snd (sp_pend a)" "indicated p = map snd (sp_out a)"
    "ampdu_loss_count p = of_nat (sp_lost a)" "tagged (sp_pend a)" "sorted_wrt (<) (map fst (sp_out a))" "sp_pend a \<noteq> []"
    using assms by (simp_all add: reorder_rel_def)
  then obtain x xs where x: "sp_pend a = x # xs" by (cases "sp_pend a") simp_all
  obtain k where k: "sp_next a = Some k" "indicate_seq c = sn k"
    "\<forall>y \<in> set (sp_pend a). k < fst y \<and> fst y < k + 64" "\<forall>y \<in> set (sp_out a). fst y < k"
    using assms(1) R(8) by (cases "sp_next a") (simp_all add: reorder_rel_def)
  have kx: "k < fst x" "fst x < k + 64" "mp_seq (snd x) = sn (fst x)" using k(3) R(6) x by simp_all
  let ?a = "a\<lparr>sp_lost := sp_lost a + (fst x - k)\<rparr>"
  let ?b = "settle (fst x) (sp_pend a) ?a"
  have b: "spec_timeout a = ?b" by (simp add: spec_timeout_def x waits_for_def k(1))
  define p1 where "p1 = pkt_loss_cnt (p\<lparr>forced_indicate_count := forced_indicate_count p + 1\<rparr>) (ucast (sn k)) (ucast (sn (fst x)))"
  have p1: "ampdu_loss_count p1 = of_nat (sp_lost ?a)" "indicated p1 = indicated p"
    using pkt_loss_cnt_sn [OF kx(1,2)] R(5) by (simp_all add: p1_def)
  have hi: "\<forall>y \<in> set (sp_pend a). fst y < fst x + 64" using k(3) kx(1) by fastforce
  have lo: "\<forall>y \<in> set (sp_pend a). fst x \<le> fst y + 2047" using R(6) x by fastforce
  have o: "\<forall>y \<in> set (sp_out ?a). fst y < fst x" "\<forall>z \<in> set (sp_out ?a). \<forall>y \<in> set (sp_pend a). fst z < fst y"
    using k(3,4) kx(1) by fastforce+
  note S = settle_rel [OF R(6) hi o, simplified, OF R(7)]
  let ?k = "gap (fst x) (map fst (sp_pend a))"
  have nx: "sp_next ?b = Some ?k" "sp_lost ?b = sp_lost ?a"
    "sp_out ?b = sp_out a @ filter (\<lambda>y. fst y < ?k) (sp_pend a)" "sp_pend ?b = filter (\<lambda>y. ?k \<le> fst y) (sp_pend a)"
    by (simp_all add: settle_def Let_def)
  obtain p2 where loop: "indicate_loop ok (map snd (sp_pend a)) (sn (fst x)) p1 = (sp_pend ?b \<noteq> [], map snd (sp_pend ?b), sn ?k, p2)"
    "indicated p2 = indicated p1 @ map snd (filter (\<lambda>y. fst y < ?k) (sp_pend a))" "ampdu_loss_count p2 = ampdu_loss_count p1"
    using indicate_loop_spec [OF R(6), of "fst x" ok p1] hi lo nx(4) by fastforce
  define c2 where "c2 = c\<lparr>reordering_timer := (if sp_pend ?b \<noteq> [] then Some REORDER_WAIT_TIME else None), bReorderWaiting := False,
    pending_queue := map snd (sp_pend ?b), indicate_seq := sn ?k\<rparr>"
  have run: "rtw_reordering_ctrl_timeout_handler ok False c p = (c2, p2)"
    using loop(1) R(3) x kx(3) k(2)
    by (simp add: rtw_reordering_ctrl_timeout_handler_def recv_indicatepkts_in_order_def Let_def c2_def p1_def)
  have c2: "ro_enable c2" "wsize_b c2 = 64" "pending_queue c2 = map snd (sp_pend ?b)" "indicate_seq c2 = sn ?k"
    "sp_pend ?b \<noteq> [] \<longleftrightarrow> reordering_timer c2 \<noteq> None" "\<not> bReorderWaiting c2"
    using R(1,2) by (simp_all add: c2_def)
  have p2: "indicated p2 = map snd (sp_out ?b)" "ampdu_loss_count p2 = of_nat (sp_lost ?b)"
    using loop(2,3) R(4) p1 nx(2,3) by simp_all
  have "reorder_rel c2 p2 ?b"
    unfolding reorder_rel_def nx(1) option.case using c2 p2 S(1,2) S(3,4) [unfolded nx(1) option.sel] by blast
  moreover have "sp_pend a = filter (\<lambda>y. fst y < ?k) (sp_pend a) @ filter (\<lambda>y. ?k \<le> fst y) (sp_pend a)"
  proof -
    have "xs = filter (\<lambda>y. fst y < m) xs @ filter (\<lambda>y. m \<le> fst y) xs" if "tagged xs" for xs :: "(nat \<times> mpdu) list" and m
      using that
    proof (induction xs)
      case (Cons y ys)
      have "\<forall>z \<in> set ys. m \<le> fst z" if "m \<le> fst y" using Cons.prems that by fastforce
      then show ?case using Cons by (cases "fst y < m") (auto simp: filter_empty_conv filter_id_conv not_less)
    qed simp
    then show ?thesis using R(6) by blast
  qed
  moreover have "filter (\<lambda>y. fst y < ?k) (sp_pend a) \<noteq> []"
    using gap_ge [of "fst x + 1" "map fst xs"] by (simp add: x)
  ultimately show ?thesis
    using run b nx(3,4) by (intro exI [of _ c2] exI [of _ p2]) auto
qed


section \<open>Runs\<close>

text \<open>
  Everything that can happen to a traffic class whose peer has started aggregation: the \<open>n\<close>-th frame of
  the peer arrives, less than half a turn of the counter away from the one waited for, or the timer runs.
\<close>

inductive reorder_run :: "(mpdu \<Rightarrow> bool) \<Rightarrow> reorder_ctrl \<Rightarrow> recv_priv \<Rightarrow> reorder_spec \<Rightarrow> bool" for ok where
  start: "indicated p = [] \<Longrightarrow> ampdu_loss_count p = 0 \<Longrightarrow>
    reorder_run ok (add_ba_rsp_ctrl 0 sz init_reorder_ctrl) p \<lparr>sp_next = None, sp_pend = [], sp_out = [], sp_lost = 0\<rparr>"
| frame: "reorder_run ok c p a \<Longrightarrow> mp_seq f = sn n \<Longrightarrow> mp_qos f \<noteq> 0 \<Longrightarrow> near a n \<Longrightarrow>
    recv_indicatepkt_reorder ok (Some c) p f = (r, Some c', p') \<Longrightarrow> reorder_run ok c' p' (spec_frame n f a)"
| timeout: "reorder_run ok c p a \<Longrightarrow> reordering_timer c \<noteq> None \<Longrightarrow>
    rtw_reordering_ctrl_timeout_handler ok False c p = (c', p') \<Longrightarrow> reorder_run ok c' p' (spec_timeout a)"

lemma reorder_run_rel: "reorder_run ok c p a \<Longrightarrow> reorder_rel c p a"
proof (induction rule: reorder_run.induct)
  case (start p sz)
  then show ?case by (simp add: reorder_rel_def add_ba_rsp_ctrl_def init_reorder_ctrl_def)
next
  case (frame c p a f n r c' p')
  then show ?case using recv_indicatepkt_reorder_sim [OF frame.IH frame.hyps(4,2,3), of ok] by simp
next
  case (timeout c p a c' p')
  then show ?case using timeout_sim [OF timeout.IH timeout.hyps(2), of ok] by auto
qed

lemma settle_content:
  assumes "tagged xs"
  shows "set (sp_out (settle k xs a) @ sp_pend (settle k xs a)) = set (sp_out a) \<union> set xs"
  by (auto simp: settle_def Let_def)

lemma few_pending:
  assumes "reorder_rel c p a"
  shows "length (sp_pend a) < 64"
proof (cases "sp_next a")
  case None
  then show ?thesis using assms by (simp add: reorder_rel_def)
next
  case (Some k)
  have "set (map fst (sp_pend a)) \<subseteq> {k + 1..<k + 64}"
    using assms Some by (auto simp: reorder_rel_def)
  moreover have "distinct (map fst (sp_pend a))"
    using assms by (simp add: reorder_rel_def tagged_def strict_sorted_iff)
  ultimately show ?thesis
    using card_mono [of "{k + 1..<k + 64}" "set (map fst (sp_pend a))"] distinct_card [of "map fst (sp_pend a)"] by simp
qed

text \<open>
  C12: The reordering buffer implements its specification. Whatever frames arrive in whatever order, as long
  as none is half a turn of the twelve-bit counter away, and whenever the timer runs: the frames given on
  and the frames held are those of the specification, in strictly ascending order of their numbers in the
  peer's stream, so every frame is given on at most once and none overtakes another; at most 63 are held,
  and the loss counter counts exactly the numbers the timer gave up.
\<close>
theorem reorder_refines:
  assumes "reorder_run ok c p a"
  shows "indicated p = map snd (sp_out a) \<and> pending_queue c = map snd (sp_pend a) \<and>
    sorted_wrt (<) (map fst (sp_out a @ sp_pend a)) \<and> length (pending_queue c) < 64 \<and>
    ampdu_loss_count p = of_nat (sp_lost a)"
proof -
  note r = reorder_run_rel [OF assms]
  have "sorted_wrt (<) (map fst (sp_out a @ sp_pend a))"
    using r by (cases "sp_next a") (fastforce simp: reorder_rel_def tagged_def sorted_wrt_append)+
  moreover have "length (pending_queue c) < 64"
    using few_pending [OF r] r by (simp add: reorder_rel_def)
  ultimately show ?thesis
    using r by (simp add: reorder_rel_def)
qed

text \<open>
  C13: No frame is dropped that need not be: a frame is refused only when the buffer no longer waits for its
  number, or holds it already. An accepted one is given on or held, together with everything that was
  there before; a refused one changes nothing.
\<close>
theorem reorder_accepts:
  assumes "reorder_run ok c p a" and "near a n" and "mp_seq f = sn n" and "mp_qos f \<noteq> 0"
  shows "\<exists>c' p'. recv_indicatepkt_reorder ok (Some c) p f =
      (if waits_for a n \<le> n \<and> n \<notin> fst ` set (sp_pend a) then RX_HANDLED else RX_FAIL, Some c', p') \<and>
    set (indicated p' @ pending_queue c') =
      (if waits_for a n \<le> n \<and> n \<notin> fst ` set (sp_pend a) then {f} else {}) \<union> set (indicated p @ pending_queue c)"
proof -
  note r = reorder_run_rel [OF assms(1)]
  obtain s c' p' where f: "recv_indicatepkt_reorder ok (Some c) p f = (s, Some c', p')" "reorder_rel c' p' (spec_frame n f a)"
    "s = (if spec_accepts n a then RX_HANDLED else RX_FAIL)"
    using recv_indicatepkt_reorder_sim [OF r assms(2-4), of ok] by blast
  have "set (sp_out (spec_frame n f a) @ sp_pend (spec_frame n f a)) =
      (if spec_accepts n a then {(n, f)} else {}) \<union> set (sp_out a @ sp_pend a)"
    using settle_content [of "insort_key fst (n, f) (sp_pend a)"] tagged_insort [OF _ assms(3), of "sp_pend a"] r
    by (auto simp: spec_frame_def Let_def set_insort_key spec_accepts_def reorder_rel_def)
  then have "snd ` set (sp_out (spec_frame n f a) @ sp_pend (spec_frame n f a)) =
      (if spec_accepts n a then {f} else {}) \<union> snd ` set (sp_out a @ sp_pend a)"
    by (simp add: image_Un split: if_splits)
  moreover have "set (indicated q @ pending_queue d) = snd ` set (sp_out b @ sp_pend b)" if "reorder_rel d q b" for d q b
    using that by (simp add: reorder_rel_def image_Un)
  ultimately show ?thesis
    using f r by (simp add: spec_accepts_def)
qed

text \<open>The timer running until it is not set again, at most \<open>k\<close> times.\<close>

fun timer_runs :: "(mpdu \<Rightarrow> bool) \<Rightarrow> nat \<Rightarrow> reorder_ctrl \<Rightarrow> recv_priv \<Rightarrow> reorder_ctrl \<times> recv_priv" where
  "timer_runs ok 0 c p = (c, p)"
| "timer_runs ok (Suc k) c p =
     (if reordering_timer c = None then (c, p)
      else case rtw_reordering_ctrl_timeout_handler ok False c p of (c, p) \<Rightarrow> timer_runs ok k c p)"

lemma timer_runs_rel:
  assumes "reorder_rel c p a" and "length (sp_pend a) \<le> k"
  shows "\<exists>c' p'. timer_runs ok k c p = (c', p') \<and> pending_queue c' = [] \<and> reordering_timer c' = None \<and>
    indicated p' = indicated p @ pending_queue c"
  using assms
proof (induction k arbitrary: c p a)
  case 0
  then show ?case by (simp add: reorder_rel_def)
next
  case (Suc k)
  show ?case
  proof (cases "reordering_timer c")
    case None
    then show ?thesis using Suc.prems(1) by (simp add: reorder_rel_def)
  next
    case (Some t)
    then obtain c1 p1 fs where s: "rtw_reordering_ctrl_timeout_handler ok False c p = (c1, p1)" "reorder_rel c1 p1 (spec_timeout a)"
      "sp_out (spec_timeout a) = sp_out a @ fs" "sp_pend a = fs @ sp_pend (spec_timeout a)" "fs \<noteq> []"
      using timeout_sim [OF Suc.prems(1)] by (metis option.distinct(1))
    have l: "length (sp_pend (spec_timeout a)) \<le> k"
      using arg_cong [OF s(4), of length] s(5) Suc.prems(2) by (cases fs) simp_all
    have "indicated p1 @ pending_queue c1 = indicated p @ pending_queue c"
      using s Suc.prems(1) by (simp add: reorder_rel_def)
    then show ?thesis
      using Suc.IH [OF s(2) l] Some s(1) by simp
  qed
qed

text \<open>
  C14: No frame is held forever: at most 63 frames are held, the timer is set exactly when some are, and
  if nothing else arrives at most as many runs of it as frames are held give all of them on, in order,
  after which it is set no more.
\<close>
theorem reorder_drains:
  assumes "reorder_run ok c p a"
  shows "length (pending_queue c) \<le> 63 \<and> (pending_queue c \<noteq> [] \<longleftrightarrow> reordering_timer c \<noteq> None) \<and>
    (\<exists>c' p'. timer_runs ok (length (pending_queue c)) c p = (c', p') \<and> pending_queue c' = [] \<and> reordering_timer c' = None \<and>
      indicated p' = indicated p @ pending_queue c)"
  using timer_runs_rel [of c p a "length (pending_queue c)" ok] few_pending [of c p a] reorder_run_rel [OF assms]
  by (simp add: reorder_rel_def)


section \<open>An example: frame 4099 arrives before frame 4098\<close>

definition example_mpdu :: "nat \<Rightarrow> mpdu" where
  "example_mpdu n = \<lparr>mp_id = n, mp_seq = sn n, mp_qos = 1\<rparr>"

definition example_priv :: recv_priv where
  "example_priv = \<lparr>window_shift_cnt = 0, ampdu_drop_count = 0, ampdu_loss_count = 0, forced_indicate_count = 0, rx_drop = 0,
     rx_drop_count = 0, indicated = []\<rparr>"

definition example_spec :: reorder_spec where
  "example_spec = \<lparr>sp_next = Some 4098, sp_pend = [(4099, example_mpdu 4099)], sp_out = [(4097, example_mpdu 4097)], sp_lost = 0\<rparr>"

lemma example_run: "\<exists>c p. reorder_run (\<lambda>_. True) c p example_spec"
proof -
  let ?a0 = "\<lparr>sp_next = None, sp_pend = [], sp_out = [], sp_lost = 0\<rparr>"
  have r0: "reorder_run (\<lambda>_. True) (add_ba_rsp_ctrl 0 64 init_reorder_ctrl) example_priv ?a0"
    by (rule reorder_run.start) (simp_all add: example_priv_def)
  have step: "\<exists>c' p'. reorder_run (\<lambda>_. True) c' p' (spec_frame n (example_mpdu n) a)"
    if "reorder_run (\<lambda>_. True) c p a" "near a n" for c p a n
  proof -
    have f: "mp_seq (example_mpdu n) = sn n" "mp_qos (example_mpdu n) \<noteq> 0" by (simp_all add: example_mpdu_def)
    show ?thesis
      using recv_indicatepkt_reorder_sim [OF reorder_run_rel [OF that(1)] that(2) f, of "\<lambda>_. True"]
        reorder_run.frame [OF that(1) f that(2)] by blast
  qed
  have "near ?a0 4097" by (simp add: near_def waits_for_def)
  then obtain c p where r1: "reorder_run (\<lambda>_. True) c p (spec_frame 4097 (example_mpdu 4097) ?a0)"
    using step [OF r0] by blast
  have a1: "spec_frame 4097 (example_mpdu 4097) ?a0 = \<lparr>sp_next = Some 4098, sp_pend = [], sp_out = [(4097, example_mpdu 4097)], sp_lost = 0\<rparr>"
    by (simp add: spec_frame_def spec_accepts_def waits_for_def settle_def Let_def)
  have "near (spec_frame 4097 (example_mpdu 4097) ?a0) 4099" by (simp add: a1 near_def waits_for_def)
  then obtain c p where r2: "reorder_run (\<lambda>_. True) c p (spec_frame 4099 (example_mpdu 4099) (spec_frame 4097 (example_mpdu 4097) ?a0))"
    using step [OF r1] by blast
  have "spec_frame 4099 (example_mpdu 4099) (spec_frame 4097 (example_mpdu 4097) ?a0) = example_spec"
    unfolding a1 by (simp add: spec_frame_def spec_accepts_def waits_for_def settle_def Let_def example_spec_def)
  then show ?thesis using r2 by auto
qed

theorem reorder_refines_witness:
  "\<exists>c p. reorder_run (\<lambda>_. True) c p example_spec \<and> indicated p = [example_mpdu 4097] \<and> pending_queue c = [example_mpdu 4099]"
  using example_run reorder_refines [of "\<lambda>_. True" _ _ example_spec] by (fastforce simp: example_spec_def)

theorem reorder_accepts_witness:
  "\<exists>c p c' p'. reorder_run (\<lambda>_. True) c p example_spec \<and>
    recv_indicatepkt_reorder (\<lambda>_. True) (Some c) p (example_mpdu 4098) = (RX_HANDLED, Some c', p')"
proof -
  obtain c p where r: "reorder_run (\<lambda>_. True) c p example_spec" using example_run by blast
  have "near example_spec 4098" "waits_for example_spec 4098 \<le> 4098 \<and> 4098 \<notin> fst ` set (sp_pend example_spec)"
    by (simp_all add: near_def waits_for_def example_spec_def)
  then show ?thesis
    using reorder_accepts [OF r, of 4098 "example_mpdu 4098"] r by (auto simp: example_mpdu_def)
qed

theorem reorder_drains_witness:
  "\<exists>c p c' p'. reorder_run (\<lambda>_. True) c p example_spec \<and> length (pending_queue c) = 1 \<and>
    timer_runs (\<lambda>_. True) 1 c p = (c', p') \<and> pending_queue c' = [] \<and> indicated p' = indicated p @ pending_queue c"
proof -
  obtain c p where r: "reorder_run (\<lambda>_. True) c p example_spec" using example_run by blast
  then have l: "length (pending_queue c) = 1"
    using reorder_run_rel [OF r] by (simp add: reorder_rel_def example_spec_def)
  from reorder_drains [OF r, unfolded l] show ?thesis
    using r l by blast
qed

end
