(* ===== verification/Arc4_Wep.thy ===== *)
theory Arc4_Wep
  imports Vmac_Prelude
begin

text \<open>
  WEP of \<^verbatim>\<open>kernel/core/rtw_security.c\<close>: the RC4 stream cipher (\<open>arcfour_*\<close>), the table-driven CRC-32
  (\<open>crc32_init\<close>, \<open>getcrc32\<close>) and the encryption and decryption of a frame in place. Shown: RC4's
  state stays a permutation of the bytes, encrypting twice from the same state is the identity,
  the table computes the bit-serial CRC, and a frame that was encrypted decrypts to its payload
  followed by the CRC of the payload.
\<close>

section \<open>RC4\<close>

text \<open>The counters \<open>x\<close> and \<open>y\<close> are masked with \<open>0xff\<close> wherever the code sets them: bytes here.\<close>

record arc4context =
  arc_x :: u8
  arc_y :: u8
  arc_state :: bytes

fun arcfour_schedule :: "bytes \<Rightarrow> u8 \<Rightarrow> nat \<Rightarrow> nat list \<Rightarrow> bytes \<Rightarrow> bytes" where
  "arcfour_schedule key stateindex keyindex [] state = state"
| "arcfour_schedule key stateindex keyindex (counter # cs) state =
     (let t = state ! counter;
          stateindex = stateindex + key ! keyindex + t;
          u = state ! unat stateindex;
          state = state[unat stateindex := t];
          state = state[counter := u];
          keyindex = (if length key \<le> keyindex + 1 then 0 else keyindex + 1)
      in arcfour_schedule key stateindex keyindex cs state)"

definition arcfour_init :: "bytes \<Rightarrow> arc4context" where
  "arcfour_init key = \<lparr>arc_x = 0, arc_y = 0,
     arc_state = arcfour_schedule key 0 0 [0..<256] (map of_nat [0..<256])\<rparr>"

definition arcfour_byte :: "arc4context \<Rightarrow> u8 \<times> arc4context" where
  "arcfour_byte ctx =
     (let state = arc_state ctx;
          x = arc_x ctx + 1;
          sx = state ! unat x;
          y = sx + arc_y ctx;
          sy = state ! unat y;
          state = state[unat y := sx];
          state = state[unat x := sy]
      in (state ! unat (sx + sy), \<lparr>arc_x = x, arc_y = y, arc_state = state\<rparr>))"

fun arcfour_encrypt :: "arc4context \<Rightarrow> bytes \<Rightarrow> bytes \<times> arc4context" where
  "arcfour_encrypt ctx [] = ([], ctx)"
| "arcfour_encrypt ctx (b # src) =
     (let (k, ctx) = arcfour_byte ctx;
          (dest, ctx) = arcfour_encrypt ctx src
      in ((b XOR k) # dest, ctx))"

section \<open>CRC-32\<close>

definition CRC32_POLY :: u32 where "CRC32_POLY = 0x04c11db7"

definition crc32_reverseBit :: "u8 \<Rightarrow> u8" where
  "crc32_reverseBit data =
     (push_bit 7 data AND 0x80) OR (push_bit 5 data AND 0x40) OR (push_bit 3 data AND 0x20) OR
     (push_bit 1 data AND 0x10) OR (drop_bit 1 data AND 0x08) OR (drop_bit 3 data AND 0x04) OR
     (drop_bit 5 data AND 0x02) OR (drop_bit 7 data AND 0x01)"

definition crc32_shift :: "u32 \<Rightarrow> u32" where
  "crc32_shift c = (if c AND 0x80000000 \<noteq> 0 then push_bit 1 c XOR CRC32_POLY else push_bit 1 c)"

text \<open>One entry of the table: the bytes of \<open>c\<close> in reverse order, the bits of each byte reversed.\<close>

definition crc32_entry :: "u8 \<Rightarrow> u32" where
  "crc32_entry i =
     (let k = crc32_reverseBit i;
          c = (crc32_shift ^^ 8) (push_bit 24 (ucast k));
          p = le_bytes 4 c
      in of_le_bytes [crc32_reverseBit (p ! 3), crc32_reverseBit (p ! 2),
                      crc32_reverseBit (p ! 1), crc32_reverseBit (p ! 0)])"

definition crc32_table :: "u32 list" where
  "crc32_table = map (\<lambda>i. crc32_entry (of_nat i)) [0..<256]"

definition crc32_update :: "u32 \<Rightarrow> u8 \<Rightarrow> u32" where
  "crc32_update crc b = crc32_table ! unat ((crc XOR ucast b) AND 0xff) XOR drop_bit 8 crc"

definition getcrc32 :: "bytes \<Rightarrow> u32" where
  "getcrc32 buf = NOT (foldl crc32_update 0xffffffff buf)"

section \<open>Frames\<close>

text \<open>
  What the ciphers use of a frame to be sent: its buffer (\<open>None\<close> for a null \<open>buf_addr\<close>) and the
  address of the buffer, which decides where the next fragment starts, its attributes, and the
  fragment length of the adapter. \<open>TXDESC_SIZE\<close> depends on the chip the driver is built for.
\<close>

record sec_xmit_frame =
  xf_buf :: "bytes option"
  xf_addr :: nat
  xf_TXDESC_SIZE :: u8
  xf_pkt_offset :: u8
  xf_encrypt :: u8
  xf_nr_frags :: u8
  xf_hdrlen :: u16
  xf_iv_len :: u8
  xf_icv_len :: u8
  xf_last_txcmdsz :: u32
  xf_frag_len :: nat
  xf_ra :: bytes
  xf_ta :: bytes
  xf_UncstKey :: bytes

record sec_recv_frame =
  rv_data :: bytes
  rv_len :: nat
  rv_encrypt :: u8
  rv_hdrlen :: u8
  rv_iv_len :: u8
  rv_key_index :: nat
  rv_ra :: bytes
  rv_ta :: bytes

record security_priv =
  dot11PrivacyKeyIndex :: nat
  dot11DefKeylen :: "nat list"
  dot11DefKey :: "bytes list"
  dot118021XGrpKeyid :: nat
  dot118021XGrpKey :: "bytes list"
  binstallGrpkey :: bool

definition WEP40 :: u8 where "WEP40 = 0x1"
definition WEP104 :: u8 where "WEP104 = 0x5"

text \<open>\<open>memcpy\<close> from and into a buffer at an offset.\<close>

definition mem_get :: "bytes \<Rightarrow> nat \<Rightarrow> nat \<Rightarrow> bytes res" where
  "mem_get buf off n = (if off + n \<le> length buf then Inr (take n (drop off buf)) else Inl Read_past_end)"

definition mem_put :: "bytes \<Rightarrow> nat \<Rightarrow> bytes \<Rightarrow> bytes res" where
  "mem_put buf off src =
     (if off + length src \<le> length buf
      then Inr (take off buf @ src @ drop (off + length src) buf) else Inl Buffer_overflow)"

definition RND4 :: "nat \<Rightarrow> nat" where
  "RND4 x = (x div 4 + (if x mod 4 = 0 then 0 else 1)) * 4"

text \<open>
  One fragment, as WEP and TKIP both treat it: the CRC of \<open>length\<close> bytes of payload, then payload
  and CRC enciphered in place. A negative length is a huge one for the cipher.
\<close>

definition arc4_seal :: "bytes \<Rightarrow> bytes \<Rightarrow> nat \<Rightarrow> int \<Rightarrow> bytes res" where
  "arc4_seal key buf payload len =
     (if len < 0 then Inl Buffer_overflow
      else rbind (mem_get buf payload (nat len)) (\<lambda>data.
        (let crc = le_bytes 4 (getcrc32 data);
             (c1, ctx) = arcfour_encrypt (arcfour_init key) data;
             (c2, ctx) = arcfour_encrypt ctx crc
         in mem_put buf payload (c1 @ c2))))"

text \<open>
  The loop over the fragments; \<open>keyof\<close> computes the key of the fragment at \<open>pframe\<close>. The length of the
  last one is what the command size leaves, of the others what the fragment length leaves. The
  differences are unsigned in the code and then stored in an \<open>int\<close>.
\<close>

definition frag_payload_len :: "sec_xmit_frame \<Rightarrow> nat \<Rightarrow> int" where
  "frag_payload_len xf tot =
     int tot - int (unat (xf_hdrlen xf)) - int (unat (xf_iv_len xf)) - int (unat (xf_icv_len xf))"

fun arc4_frags :: "(bytes \<Rightarrow> nat \<Rightarrow> bytes res) \<Rightarrow> sec_xmit_frame \<Rightarrow> nat \<Rightarrow> nat \<Rightarrow> bytes \<Rightarrow> bytes res" where
  "arc4_frags keyof xf 0 pframe buf = Inr buf"
| "arc4_frags keyof xf (Suc left) pframe buf =
     rbind (keyof buf pframe) (\<lambda>key.
     (let payload = pframe + unat (xf_iv_len xf) + unat (xf_hdrlen xf)
      in if left = 0 then
           arc4_seal key buf payload (frag_payload_len xf (unat (xf_last_txcmdsz xf)))
         else
           rbind (arc4_seal key buf payload (frag_payload_len xf (xf_frag_len xf))) (\<lambda>buf.
           arc4_frags keyof xf left
             (RND4 (xf_addr xf + pframe + xf_frag_len xf) - xf_addr xf) buf)))"

definition hw_hdr_offset :: "sec_xmit_frame \<Rightarrow> nat" where
  "hw_hdr_offset xf = unat (xf_TXDESC_SIZE xf + xf_pkt_offset xf * 8)"

section \<open>WEP\<close>

text \<open>The key of a fragment: the three bytes of its initialisation vector, then the configured key,
  copied into an array of sixteen bytes.\<close>

definition wep_key :: "security_priv \<Rightarrow> nat \<Rightarrow> nat \<Rightarrow> bytes \<Rightarrow> nat \<Rightarrow> bytes res" where
  "wep_key psecuritypriv keyindex hdrlen buf pframe =
     rbind (mem_get buf (pframe + hdrlen) 3) (\<lambda>iv.
     rbind (array_get (dot11DefKeylen psecuritypriv) keyindex) (\<lambda>keylength.
     rbind (array_get (dot11DefKey psecuritypriv) keyindex) (\<lambda>skey.
     rbind (require (3 + keylength \<le> 16) Buffer_overflow) (\<lambda>_.
     rbind (mem_get skey 0 keylength) (\<lambda>key. Inr (iv @ key))))))"

definition rtw_wep_encrypt :: "security_priv \<Rightarrow> sec_xmit_frame \<Rightarrow> sec_xmit_frame res" where
  "rtw_wep_encrypt psecuritypriv xf =
     (case xf_buf xf of
        None \<Rightarrow> Inr xf
      | Some buf \<Rightarrow>
          if xf_encrypt xf = WEP40 \<or> xf_encrypt xf = WEP104 then
            rbind (arc4_frags
                     (wep_key psecuritypriv (dot11PrivacyKeyIndex psecuritypriv) (unat (xf_hdrlen xf)))
                     xf (unat (xf_nr_frags xf)) (hw_hdr_offset xf) buf) (\<lambda>buf.
            Inr (xf\<lparr>xf_buf := Some buf\<rparr>))
          else Inr xf)"

text \<open>Decryption in place of what follows the vector, and the CRC of it all but the last four bytes.\<close>

definition arc4_open :: "bytes \<Rightarrow> sec_recv_frame \<Rightarrow> (bytes \<times> u32) res" where
  "arc4_open key rf =
     (let payload = unat (rv_iv_len rf) + unat (rv_hdrlen rf);
          len = int (rv_len rf) - int (unat (rv_hdrlen rf)) - int (unat (rv_iv_len rf))
      in if len < 0 then Inl Buffer_overflow
         else rbind (mem_get (rv_data rf) payload (nat len)) (\<lambda>data.
              (let plain = fst (arcfour_encrypt (arcfour_init key) data)
               in rbind (mem_put (rv_data rf) payload plain) (\<lambda>buf.
                  Inr (buf, getcrc32 (take (nat len - 4) plain))))))"

text \<open>\<open>rtw_wep_decrypt\<close> computes the CRC and compares it with nothing.\<close>

definition rtw_wep_decrypt :: "security_priv \<Rightarrow> sec_recv_frame \<Rightarrow> sec_recv_frame res" where
  "rtw_wep_decrypt psecuritypriv rf =
     (if rv_encrypt rf = WEP40 \<or> rv_encrypt rf = WEP104 then
        rbind (wep_key psecuritypriv (rv_key_index rf) (unat (rv_hdrlen rf)) (rv_data rf) 0) (\<lambda>key.
        rbind (arc4_open key rf) (\<lambda>(buf, crc). Inr (rf\<lparr>rv_data := buf\<rparr>)))
      else Inr rf)"

section \<open>RC4: keystream and permutation\<close>

text \<open>The keystream does not depend on the data.\<close>

fun keystream :: "arc4context \<Rightarrow> nat \<Rightarrow> bytes \<times> arc4context" where
  "keystream ctx 0 = ([], ctx)"
| "keystream ctx (Suc n) =
     (let (k, ctx) = arcfour_byte ctx; (ks, ctx) = keystream ctx n in (k # ks, ctx))"

lemma length_keystream [simp]: "length (fst (keystream ctx n)) = n"
  by (induction n arbitrary: ctx) (simp_all add: split_def Let_def)

lemma arcfour_encrypt_keystream:
  "arcfour_encrypt ctx src =
     (map2 (XOR) src (fst (keystream ctx (length src))), snd (keystream ctx (length src)))"
  by (induction ctx src rule: arcfour_encrypt.induct) (simp_all split: prod.splits)

lemma arcfour_encrypt_append:
  "arcfour_encrypt ctx (xs @ ys) =
     (let (c1, ctx1) = arcfour_encrypt ctx xs; (c2, ctx2) = arcfour_encrypt ctx1 ys in (c1 @ c2, ctx2))"
  by (induction ctx xs rule: arcfour_encrypt.induct) (simp_all split: prod.splits)

lemma length_arcfour_encrypt [simp]: "length (fst (arcfour_encrypt ctx src)) = length src"
  by (simp add: arcfour_encrypt_keystream)

lemma map2_xor_twice:
  "length xs = length ks \<Longrightarrow> map2 (XOR) (map2 (XOR) xs ks) ks = (xs :: bytes)"
  by (induction xs ks rule: list_induct2) simp_all

lemma arcfour_encrypt_twice:
  "fst (arcfour_encrypt ctx (fst (arcfour_encrypt ctx src))) = src"
  by (simp add: arcfour_encrypt_keystream map2_xor_twice)

definition byte_permutation :: "bytes \<Rightarrow> bool" where
  "byte_permutation state \<longleftrightarrow> length state = 256 \<and> distinct state"

lemma byte_permutation_swap:
  assumes "byte_permutation s" and "i < 256" and "j < 256"
  shows "byte_permutation (s[j := s ! i, i := s ! j])"
  using assms distinct_swap [of i s j] by (simp add: byte_permutation_def list_update_swap)

lemma byte_permutation_identity: "byte_permutation (map of_nat [0..<256])"
proof -
  have "inj_on (of_nat :: nat \<Rightarrow> u8) {0..<256}"
    by (rule inj_on_inverseI [of _ unat]) (simp add: unat_of_nat_u8)
  then show ?thesis
    by (simp add: byte_permutation_def distinct_map)
qed

lemma arcfour_schedule_permutation:
  "byte_permutation state \<Longrightarrow> \<forall>c \<in> set cs. c < 256 \<Longrightarrow>
   byte_permutation (arcfour_schedule key si ki cs state)"
  by (induction key si ki cs state rule: arcfour_schedule.induct)
    (simp_all add: Let_def byte_permutation_swap)

text \<open>
  The RC4 state is a permutation of all bytes after the key schedule, whatever the key, and every
  byte the generator delivers leaves it one.
\<close>
theorem arcfour_permutation:
  "byte_permutation (arc_state (arcfour_init key)) \<and>
   byte_permutation (arc_state (snd (keystream (arcfour_init key) n)))"
proof -
  have step: "byte_permutation (arc_state ctx) \<Longrightarrow> byte_permutation (arc_state (snd (arcfour_byte ctx)))" for ctx
    by (simp add: arcfour_byte_def Let_def byte_permutation_swap)
  have "byte_permutation (arc_state ctx) \<Longrightarrow> byte_permutation (arc_state (snd (keystream ctx n)))" for ctx
    by (induction n arbitrary: ctx) (simp_all add: split_def Let_def step)
  moreover have "byte_permutation (arc_state (arcfour_init key))"
    by (simp add: arcfour_init_def arcfour_schedule_permutation byte_permutation_identity)
  ultimately show ?thesis by blast
qed

section \<open>The CRC\<close>

text \<open>The bit-serial form of the CRC, with the polynomial reflected.\<close>

definition crc_bit :: "u32 \<Rightarrow> u32" where
  "crc_bit c = (if bit c 0 then drop_bit 1 c XOR 0xEDB88320 else drop_bit 1 c)"

lemma word_reverse_xor: "word_reverse (a XOR b) = word_reverse a XOR word_reverse b"
  for a b :: "'a::len word"
  by (rule bit_word_eqI) (auto simp: bit_simps bit_word_reverse_iff)

lemma word_reverse_push_bit: "word_reverse (push_bit n c) = drop_bit n (word_reverse c)"
  for c :: "'a::len word"
  by (rule bit_word_eqI) (auto simp: bit_simps bit_word_reverse_iff add.commute)

lemma and_1_bit: "a AND 0x01 = push_bit 0 (of_bool (bit a 0))" for a :: "'a::len word"
  by (rule bit_word_eqI) (auto simp: bit_simps)

lemma and_push_bit_1: "a AND push_bit m 1 = push_bit m (of_bool (bit a m))" for a :: "'a::len word"
  by (rule bit_word_eqI) (auto simp: bit_simps)

lemma and_top_bit: "c AND 0x80000000 \<noteq> 0 \<longleftrightarrow> bit c 31" for c :: u32
  using bit_iff_and_push_bit_not_eq_0 [of c 31] by simp

lemma word_reverse_poly: "word_reverse CRC32_POLY = 0xEDB88320"
  unfolding CRC32_POLY_def by code_simp

lemma word_reverse_crc32_shift: "word_reverse (crc32_shift c) = crc_bit (word_reverse c)"
  unfolding crc32_shift_def crc_bit_def and_top_bit
  by (simp add: bit_word_reverse_iff word_reverse_xor word_reverse_push_bit word_reverse_poly
      del: push_bit_Suc drop_bit_Suc One_nat_def)

lemma word_reverse_funpow: "word_reverse ((crc32_shift ^^ n) c) = (crc_bit ^^ n) (word_reverse c)"
  by (induction n) (simp_all add: word_reverse_crc32_shift)

lemma crc32_reverseBit_reverse: "crc32_reverseBit b = word_reverse b"
proof (rule bit_word_eqI)
  fix n assume "n < LENGTH(8)"
  have masks: "0x80 = push_bit 7 (1 :: u8)" "0x40 = push_bit 6 (1 :: u8)" "0x20 = push_bit 5 (1 :: u8)"
    "0x10 = push_bit 4 (1 :: u8)" "0x08 = push_bit 3 (1 :: u8)" "0x04 = push_bit 2 (1 :: u8)"
    "0x02 = push_bit 1 (1 :: u8)"
    by simp_all
  have "n = 0 \<or> n = 1 \<or> n = 2 \<or> n = 3 \<or> n = 4 \<or> n = 5 \<or> n = 6 \<or> n = 7"
    using \<open>n < LENGTH(8)\<close> by auto
  then show "bit (crc32_reverseBit b) n = bit (word_reverse b) n"
    unfolding crc32_reverseBit_def and_1_bit masks and_push_bit_1 bit_or_iff bit_push_bit_iff bit_drop_bit_eq
      bit_word_reverse_iff o_def
    by (elim disjE) simp_all
qed

lemma reverse_bytes:
  "of_le_bytes [word_reverse (le_bytes 4 c ! 3), word_reverse (le_bytes 4 c ! 2),
     word_reverse (le_bytes 4 c ! 1), word_reverse (le_bytes 4 c ! 0)] = word_reverse (c :: u32)"
proof (rule bit_word_eqI)
  fix n assume "n < LENGTH(32)"
  define q where "q = n div 8"
  define r where "r = n mod 8"
  have n: "n = 8 * q + r" and r: "r < 8" and q: "q < 4"
    using \<open>n < LENGTH(32)\<close> by (auto simp: q_def r_def)
  have d: "(8 * q + r) div 8 = q" "(8 * q + r) mod 8 = r" and e: "8 * (3 - q) + (7 - r) = 31 - (8 * q + r)"
    using r q by auto
  have f: "7 - r < 8"
    by simp
  have "[word_reverse (le_bytes 4 c ! 3), word_reverse (le_bytes 4 c ! 2),
     word_reverse (le_bytes 4 c ! 1), word_reverse (le_bytes 4 c ! 0)] ! q = word_reverse (le_bytes 4 c ! (3 - q))"
    using q by (auto simp: less_Suc_eq numeral_eq_Suc)
  then show "bit (of_le_bytes [word_reverse (le_bytes 4 c ! 3), word_reverse (le_bytes 4 c ! 2),
     word_reverse (le_bytes 4 c ! 1), word_reverse (le_bytes 4 c ! 0)] :: u32) n = bit (word_reverse c) n"
    using r q by (simp add: bit_of_le_bytes n d bit_word_reverse_iff bit_simps e f del: of_le_bytes.simps)
qed

lemma word_reverse_top: "word_reverse (push_bit 24 (ucast (word_reverse k))) = (ucast (k :: u8) :: u32)"
proof (rule bit_word_eqI)
  fix n assume "n < LENGTH(32)"
  moreover have "bit k n \<Longrightarrow> n < 8"
    using bit_imp_le_length [of k n] by simp
  ultimately show "bit (word_reverse (push_bit 24 (ucast (word_reverse k))) :: u32) n = bit (ucast k :: u32) n"
    by (auto simp: bit_simps bit_word_reverse_iff)
qed

lemma crc32_entry_bits: "crc32_entry k = (crc_bit ^^ 8) (ucast k)"
  by (simp only: crc32_entry_def Let_def crc32_reverseBit_reverse reverse_bytes word_reverse_funpow word_reverse_top)

lemma crc_bit_xor: "crc_bit (a XOR b) = crc_bit a XOR crc_bit b"
  by (auto simp: crc_bit_def bit_xor_iff drop_bit_xor xor.assoc xor.left_commute xor.commute)

lemma crc_bits_xor: "(crc_bit ^^ n) (a XOR b) = (crc_bit ^^ n) a XOR (crc_bit ^^ n) b"
  by (induction n) (simp_all add: crc_bit_xor)

lemma crc_bits_high: "n \<le> 8 \<Longrightarrow> (crc_bit ^^ n) (push_bit 8 c) = drop_bit n (push_bit 8 c)"
proof (induction n)
  case (Suc n)
  then have "\<not> bit (drop_bit n (push_bit 8 c)) 0"
    by (simp add: bit_simps)
  then show ?case using Suc by (simp add: crc_bit_def)
qed simp

lemma unat_ucast_u8: "unat (ucast (w :: u8) :: u32) = unat w"
  by (simp add: unsigned_ucast_eq take_bit_nat_eq_self order_less_trans [OF unat_u8_less])

lemma crc32_update_bits: "crc32_update crc b = (crc_bit ^^ 8) (crc XOR ucast b)"
proof -
  define x where "x = crc XOR ucast b"
  have low: "x AND 0xff = ucast (ucast x :: u8)"
  proof -
    have "0xff = (mask 8 :: u32)" by (simp add: mask_eq_exp_minus_1)
    then have "x AND 0xff = x AND mask 8" by (rule arg_cong)
    also have "\<dots> = ucast (ucast x :: u8)"
      by (rule bit_word_eqI) (auto simp: bit_simps)
    finally show ?thesis .
  qed
  have "x = ucast (ucast x :: u8) XOR push_bit 8 (drop_bit 8 crc)"
  proof (rule bit_word_eqI)
    fix n assume "n < LENGTH(32)"
    moreover have "bit b n \<Longrightarrow> n < 8"
      using bit_imp_le_length [of b n] by simp
    ultimately show "bit x n = bit (ucast (ucast x :: u8) XOR push_bit 8 (drop_bit 8 crc)) n"
      by (auto simp: bit_simps x_def)
  qed
  then have "(crc_bit ^^ 8) x = (crc_bit ^^ 8) (ucast (ucast x :: u8)) XOR drop_bit 8 (push_bit 8 (drop_bit 8 crc))"
    by (metis crc_bits_high crc_bits_xor order_refl)
  moreover have "crc32_table ! unat (x AND 0xff) = crc32_entry (ucast x)"
    by (simp add: low crc32_table_def unat_ucast_u8)
  moreover have "drop_bit 8 (push_bit 8 (drop_bit 8 crc)) = drop_bit 8 crc"
    by (rule bit_word_eqI) (auto simp: bit_simps dest: bit_imp_le_length)
  ultimately show ?thesis
    by (simp add: crc32_update_def crc32_entry_bits flip: x_def)
qed
text \<open>
  C40: The table-driven CRC is the bit-serial one: every byte is added to the register, which is then
  shifted eight times with the reflected polynomial \<open>0xEDB88320\<close>; the result is complemented.
\<close>
theorem getcrc32_bits:
  "getcrc32 buf = NOT (foldl (\<lambda>crc b. (crc_bit ^^ 8) (crc XOR ucast b)) 0xffffffff buf)"
  by (simp add: getcrc32_def crc32_update_bits [abs_def])

section \<open>Round trip\<close>

lemma mem_get_middle [simp]: "n = length mid \<Longrightarrow> off = length pre \<Longrightarrow> mem_get (pre @ mid @ post) off n = Inr mid"
  by (simp add: mem_get_def)

lemma mem_put_middle:
  "off = length pre \<Longrightarrow> length new = length mid \<Longrightarrow> mem_put (pre @ mid @ post) off new = Inr (pre @ new @ post)"
  by (simp add: mem_put_def)

definition arc4_sealed :: "bytes \<Rightarrow> bytes \<Rightarrow> bytes" where
  "arc4_sealed key data = fst (arcfour_encrypt (arcfour_init key) (data @ le_bytes 4 (getcrc32 data)))"

lemma length_arc4_sealed [simp]: "length (arc4_sealed key data) = length data + 4"
  by (simp add: arc4_sealed_def)

lemma arc4_seal_sealed:
  assumes "length room = 4" and "payload = length pre" and "len = int (length data)"
  shows "arc4_seal key (pre @ data @ room @ post) payload len = Inr (pre @ arc4_sealed key data @ post)"
proof -
  obtain c1 ctx where c1: "arcfour_encrypt (arcfour_init key) data = (c1, ctx)" by fastforce
  obtain c2 ctx' where c2: "arcfour_encrypt ctx (le_bytes 4 (getcrc32 data)) = (c2, ctx')" by fastforce
  have "length c1 = length data" and "length c2 = 4"
    using length_arcfour_encrypt [of "arcfour_init key" data]
      length_arcfour_encrypt [of ctx "le_bytes 4 (getcrc32 data)"] by (simp_all add: c1 c2)
  then have "mem_put (pre @ (data @ room) @ post) payload (c1 @ c2) = Inr (pre @ (c1 @ c2) @ post)"
    using assms by (intro mem_put_middle) simp_all
  then show ?thesis
    using assms by (simp add: arc4_seal_def arc4_sealed_def arcfour_encrypt_append c1 c2)
qed

lemma arc4_open_sealed:
  assumes "rv_data rf = pre @ arc4_sealed key data" and "rv_len rf = length pre + length data + 4"
    and "length pre = unat (rv_hdrlen rf) + unat (rv_iv_len rf)"
  shows "arc4_open key rf = Inr (pre @ data @ le_bytes 4 (getcrc32 data), getcrc32 data)"
proof -
  have n: "nat (int (rv_len rf) - int (unat (rv_hdrlen rf)) - int (unat (rv_iv_len rf))) = length data + 4"
    using assms(2,3) by simp
  have p: "unat (rv_iv_len rf) + unat (rv_hdrlen rf) = length pre"
    using assms(3) by simp
  have "fst (arcfour_encrypt (arcfour_init key) (arc4_sealed key data)) = data @ le_bytes 4 (getcrc32 data)"
    by (simp add: arc4_sealed_def arcfour_encrypt_twice)
  moreover have "mem_get (rv_data rf) (length pre) (length data + 4) = Inr (arc4_sealed key data)"
    using mem_get_middle [of "length data + 4" "arc4_sealed key data" "length pre" pre "[]"] by (simp add: assms(1))
  moreover have "mem_put (rv_data rf) (length pre) (data @ le_bytes 4 (getcrc32 data)) =
      Inr (pre @ data @ le_bytes 4 (getcrc32 data))"
    using mem_put_middle [of "length pre" pre "data @ le_bytes 4 (getcrc32 data)" "arc4_sealed key data" "[]"]
    by (simp add: assms(1))
  ultimately show ?thesis
    unfolding arc4_open_def p n Let_def using assms(2,3) by simp
qed

text \<open>The layout of a frame that goes out in one piece: descriptor, header, vector, payload, room for the ICV.\<close>

definition one_fragment :: "sec_xmit_frame \<Rightarrow> bytes \<Rightarrow> bytes \<Rightarrow> bytes \<Rightarrow> bytes \<Rightarrow> bytes \<Rightarrow> bytes \<Rightarrow> bool" where
  "one_fragment xf desc hdr iv data room rest \<longleftrightarrow>
     xf_buf xf = Some (desc @ hdr @ iv @ data @ room @ rest) \<and> xf_nr_frags xf = 1 \<and>
     length desc = hw_hdr_offset xf \<and> length hdr = unat (xf_hdrlen xf) \<and>
     length iv = unat (xf_iv_len xf) \<and> xf_icv_len xf = 4 \<and> length room = 4 \<and>
     unat (xf_last_txcmdsz xf) = length hdr + length iv + length data + 4"

text \<open>The frame the other side receives: the same header and vector in front of the bytes \<open>c\<close>.\<close>

definition received :: "sec_recv_frame \<Rightarrow> bytes \<Rightarrow> bytes \<Rightarrow> bytes \<Rightarrow> bool" where
  "received rf hdr iv c \<longleftrightarrow> rv_data rf = hdr @ iv @ c \<and> rv_len rf = length (rv_data rf) \<and>
     unat (rv_hdrlen rf) = length hdr \<and> unat (rv_iv_len rf) = length iv"

lemma arc4_frags_one:
  assumes "one_fragment xf desc hdr iv data room rest"
    and "keyof (desc @ hdr @ iv @ data @ room @ rest) (length desc) = Inr key"
  shows "arc4_frags keyof xf 1 (hw_hdr_offset xf) (desc @ hdr @ iv @ data @ room @ rest) =
           Inr (desc @ hdr @ iv @ arc4_sealed key data @ rest)"
proof -
  note o = assms(1) [unfolded one_fragment_def]
  have "arc4_seal key ((desc @ hdr @ iv) @ data @ room @ rest) (length (desc @ hdr @ iv)) (int (length data)) =
      Inr ((desc @ hdr @ iv) @ arc4_sealed key data @ rest)"
    using o by (intro arc4_seal_sealed) simp_all
  moreover have "frag_payload_len xf (unat (xf_last_txcmdsz xf)) = int (length data)"
    using o by (simp add: frag_payload_len_def)
  moreover have "hw_hdr_offset xf + unat (xf_iv_len xf) + unat (xf_hdrlen xf) = length (desc @ hdr @ iv)"
    using o by simp
  ultimately show ?thesis
    using assms(2) o unfolding One_nat_def arc4_frags.simps by (simp add: ac_simps)
qed

lemma received_open:
  assumes "received rf hdr iv (arc4_sealed key data)"
  shows "arc4_open key rf = Inr (hdr @ iv @ data @ le_bytes 4 (getcrc32 data), getcrc32 data)"
proof -
  note r = assms [unfolded received_def]
  have "rv_data rf = (hdr @ iv) @ arc4_sealed key data" and "rv_len rf = length (hdr @ iv) + length data + 4"
    and "length (hdr @ iv) = unat (rv_hdrlen rf) + unat (rv_iv_len rf)"
    using r by simp_all
  from arc4_open_sealed [OF this] show ?thesis by simp
qed

lemma wep_key_frame:
  assumes "k < length (dot11DefKeylen sp)" and "k < length (dot11DefKey sp)"
    and "dot11DefKeylen sp ! k \<le> 13" and "dot11DefKeylen sp ! k \<le> length (dot11DefKey sp ! k)"
    and "3 \<le> length iv" and "hdrlen = length hdr"
  shows "wep_key sp k hdrlen (pre @ hdr @ iv @ post) (length pre) =
           Inr (take 3 iv @ take (dot11DefKeylen sp ! k) (dot11DefKey sp ! k))"
proof -
  have "pre @ hdr @ iv @ post = (pre @ hdr) @ take 3 iv @ (drop 3 iv @ post)"
    by (subst (1) append_take_drop_id [of 3 iv, symmetric]) (simp only: append_assoc)
  moreover have "mem_get ((pre @ hdr) @ take 3 iv @ (drop 3 iv @ post)) (length pre + hdrlen) 3 = Inr (take 3 iv)"
    using assms(5,6) by (intro mem_get_middle) simp_all
  ultimately have iv: "mem_get (pre @ hdr @ iv @ post) (length pre + hdrlen) 3 = Inr (take 3 iv)"
    by (rule ssubst)
  have k: "mem_get (dot11DefKey sp ! k) 0 (dot11DefKeylen sp ! k) =
      Inr (take (dot11DefKeylen sp ! k) (dot11DefKey sp ! k))"
    using assms(4) by (simp add: mem_get_def)
  show ?thesis
    unfolding wep_key_def iv rbind_Inr array_get_Inr [OF assms(1)] array_get_Inr [OF assms(2)] k
    using assms(3) by simp
qed

text \<open>
  C26: A frame in one fragment that \<open>rtw_wep_encrypt\<close> enciphers in place keeps its header and vector
  and everything behind its ICV, and \<open>rtw_wep_decrypt\<close> with the same key gives back header, vector and
  payload, followed by the CRC of the payload.
\<close>
theorem wep_roundtrip:
  assumes "one_fragment xf desc hdr iv data room rest" and "3 \<le> length iv"
    and "xf_encrypt xf = WEP40 \<or> xf_encrypt xf = WEP104" and "rv_encrypt rf = xf_encrypt xf"
    and "k = dot11PrivacyKeyIndex sp" and "rv_key_index rf = k"
    and "k < length (dot11DefKeylen sp)" and "k < length (dot11DefKey sp)"
    and "dot11DefKeylen sp ! k \<le> 13" and "dot11DefKeylen sp ! k \<le> length (dot11DefKey sp ! k)"
    and "unat (rv_hdrlen rf) = length hdr" and "unat (rv_iv_len rf) = length iv"
  shows "\<exists>c. rtw_wep_encrypt sp xf = Inr (xf\<lparr>xf_buf := Some (desc @ hdr @ iv @ c @ rest)\<rparr>) \<and>
           length c = length data + 4 \<and>
           rtw_wep_decrypt sp (rf\<lparr>rv_data := hdr @ iv @ c, rv_len := length (hdr @ iv @ c)\<rparr>) =
             Inr (rf\<lparr>rv_data := hdr @ iv @ data @ le_bytes 4 (getcrc32 data),
                    rv_len := length (hdr @ iv @ c)\<rparr>)"
proof -
  define key where "key = take 3 iv @ take (dot11DefKeylen sp ! k) (dot11DefKey sp ! k)"
  define c where "c = arc4_sealed key data"
  note o = assms(1) [unfolded one_fragment_def]
  have ks: "wep_key sp k (unat (xf_hdrlen xf)) (desc @ hdr @ iv @ data @ room @ rest) (length desc) = Inr key"
    using wep_key_frame [OF assms(7-10,2), of "unat (xf_hdrlen xf)" hdr desc "data @ room @ rest"] o
    by (simp add: key_def)
  have kr: "wep_key sp k (unat (rv_hdrlen rf)) (hdr @ iv @ c) 0 = Inr key"
    using wep_key_frame [OF assms(7-10,2), of "unat (rv_hdrlen rf)" hdr "[]" c] assms(11) by (simp add: key_def)
  have "rtw_wep_encrypt sp xf = Inr (xf\<lparr>xf_buf := Some (desc @ hdr @ iv @ c @ rest)\<rparr>)"
    using arc4_frags_one [of xf desc hdr iv data room rest "wep_key sp k (unat (xf_hdrlen xf))" key, OF assms(1) ks] assms(3,5) o by (auto simp: rtw_wep_encrypt_def c_def)
  moreover have "rtw_wep_decrypt sp (rf\<lparr>rv_data := hdr @ iv @ c, rv_len := length (hdr @ iv @ c)\<rparr>) =
      Inr (rf\<lparr>rv_data := hdr @ iv @ data @ le_bytes 4 (getcrc32 data), rv_len := length (hdr @ iv @ c)\<rparr>)"
    using received_open [of "rf\<lparr>rv_data := hdr @ iv @ c, rv_len := length (hdr @ iv @ c)\<rparr>" hdr iv key data]
      kr assms(3,4,6,11,12) by (auto simp: rtw_wep_decrypt_def received_def c_def)
  ultimately show ?thesis
    by (intro exI [of _ c]) (simp add: c_def)
qed

text \<open>A frame of two bytes with a forty-bit key.\<close>

definition wep_example_priv :: security_priv where
  "wep_example_priv = \<lparr>dot11PrivacyKeyIndex = 0, dot11DefKeylen = [5], dot11DefKey = [[1, 2, 3, 4, 5]],
     dot118021XGrpKeyid = 0, dot118021XGrpKey = [], binstallGrpkey = False\<rparr>"

definition wep_example_xmit :: sec_xmit_frame where
  "wep_example_xmit = \<lparr>xf_buf = Some (replicate 32 0 @ replicate 24 8 @ [9, 9, 9, 0] @ [0xAA, 0xBB] @ replicate 4 0 @ []),
     xf_addr = 0, xf_TXDESC_SIZE = 32, xf_pkt_offset = 0, xf_encrypt = WEP40, xf_nr_frags = 1,
     xf_hdrlen = 24, xf_iv_len = 4, xf_icv_len = 4, xf_last_txcmdsz = 34, xf_frag_len = 1536,
     xf_ra = [], xf_ta = [], xf_UncstKey = []\<rparr>"

definition wep_example_recv :: sec_recv_frame where
  "wep_example_recv = \<lparr>rv_data = [], rv_len = 0, rv_encrypt = WEP40, rv_hdrlen = 24, rv_iv_len = 4,
     rv_key_index = 0, rv_ra = [], rv_ta = []\<rparr>"

theorem wep_roundtrip_witness:
  "\<exists>c. length c = 6 \<and>
     rtw_wep_decrypt wep_example_priv (wep_example_recv\<lparr>rv_data := replicate 24 8 @ [9, 9, 9, 0] @ c,
         rv_len := length (replicate 24 (8 :: u8) @ [9, 9, 9, 0] @ c)\<rparr>) =
       Inr (wep_example_recv\<lparr>rv_data := replicate 24 8 @ [9, 9, 9, 0] @ [0xAA, 0xBB] @ le_bytes 4 (getcrc32 [0xAA, 0xBB]),
              rv_len := length (replicate 24 (8 :: u8) @ [9, 9, 9, 0] @ c)\<rparr>)"
proof -
  have "one_fragment wep_example_xmit (replicate 32 0) (replicate 24 8) [9, 9, 9, 0] [0xAA, 0xBB] (replicate 4 0) []"
    by (simp add: one_fragment_def wep_example_xmit_def hw_hdr_offset_def)
  from wep_roundtrip [OF this, of wep_example_recv 0 wep_example_priv]
  show ?thesis
    by (auto simp: wep_example_xmit_def wep_example_recv_def wep_example_priv_def)
qed

end
