(* ===== verification/Tkip.thy ===== *)
theory Tkip
  imports Arc4_Wep
begin

text \<open>
  TKIP of \<^verbatim>\<open>kernel/core/rtw_security.c\<close>: the Michael message integrity code, the two phases of the
  key mixing with its S-box, and the encryption and decryption of a frame. Shown: Michael's
  byte-wise code computes the block function over the padded message, the second half of the S-box
  is the first with the bytes swapped, the mixed key starts with the bytes that avoid weak RC4
  keys, and a frame that was encrypted decrypts to its payload and passes the check of its ICV.
\<close>

section \<open>Michael\<close>

record mic_data =
  mic_K0 :: u32
  mic_K1 :: u32
  mic_L :: u32
  mic_R :: u32
  mic_M :: u32
  mic_nBytesInM :: nat

definition ROL32 :: "u32 \<Rightarrow> nat \<Rightarrow> u32" where
  "ROL32 A n = push_bit n A OR (drop_bit (32 - n) A AND (push_bit n 1 - 1))"

definition ROR32 :: "u32 \<Rightarrow> nat \<Rightarrow> u32" where
  "ROR32 A n = ROL32 A (32 - n)"

fun secmicgetuint32_loop :: "nat \<Rightarrow> bytes \<Rightarrow> u32 \<Rightarrow> u32" where
  "secmicgetuint32_loop i [] res = res"
| "secmicgetuint32_loop i (b # p) res = secmicgetuint32_loop (i + 1) p (res OR push_bit (8 * i) (ucast b))"

definition secmicgetuint32 :: "bytes \<Rightarrow> u32" where
  "secmicgetuint32 p = secmicgetuint32_loop 0 (take 4 p) 0"

fun secmicputuint32_loop :: "nat \<Rightarrow> u32 \<Rightarrow> bytes" where
  "secmicputuint32_loop 0 val = []"
| "secmicputuint32_loop (Suc i) val = ucast (val AND 0xff) # secmicputuint32_loop i (drop_bit 8 val)"

definition secmicputuint32 :: "u32 \<Rightarrow> bytes" where
  "secmicputuint32 val = secmicputuint32_loop 4 val"

definition secmicclear :: "mic_data \<Rightarrow> mic_data" where
  "secmicclear m = m\<lparr>mic_L := mic_K0 m, mic_R := mic_K1 m, mic_nBytesInM := 0, mic_M := 0\<rparr>"

definition rtw_secmicsetkey :: "mic_data \<Rightarrow> bytes \<Rightarrow> mic_data" where
  "rtw_secmicsetkey m key =
     secmicclear (m\<lparr>mic_K0 := secmicgetuint32 key, mic_K1 := secmicgetuint32 (drop 4 key)\<rparr>)"

text \<open>What a full word does to the two halves of the state, \<open>l\<close> with the word already added.\<close>

definition mic_mix :: "u32 \<Rightarrow> u32 \<Rightarrow> u32 \<times> u32" where
  "mic_mix l r =
     (let r = r XOR ROL32 l 17;
          l = l + r;
          r = r XOR (drop_bit 8 (l AND 0xff00ff00) OR push_bit 8 (l AND 0x00ff00ff));
          l = l + r;
          r = r XOR ROL32 l 3;
          l = l + r;
          r = r XOR ROR32 l 2;
          l = l + r
      in (l, r))"

definition rtw_secmicappendbyte :: "mic_data \<Rightarrow> u8 \<Rightarrow> mic_data" where
  "rtw_secmicappendbyte m b =
     (let m = m\<lparr>mic_M := mic_M m OR push_bit (8 * mic_nBytesInM m) (ucast b)\<rparr>;
          m = m\<lparr>mic_nBytesInM := mic_nBytesInM m + 1\<rparr>
      in if 4 \<le> mic_nBytesInM m then
           (case mic_mix (mic_L m XOR mic_M m) (mic_R m) of (l, r) \<Rightarrow>
              m\<lparr>mic_L := l, mic_R := r, mic_M := 0, mic_nBytesInM := 0\<rparr>)
         else m)"

fun rtw_secmicappend :: "mic_data \<Rightarrow> bytes \<Rightarrow> mic_data" where
  "rtw_secmicappend m [] = m"
| "rtw_secmicappend m (b # src) = rtw_secmicappend (rtw_secmicappendbyte m b) src"

text \<open>
  The final loop appends zeros until the word is full; the counter is below four before it, so at
  most three turns are needed, which the second argument counts.
\<close>

fun mic_fill :: "mic_data \<Rightarrow> nat \<Rightarrow> mic_data" where
  "mic_fill m 0 = m"
| "mic_fill m (Suc fuel) =
     (if mic_nBytesInM m \<noteq> 0 then mic_fill (rtw_secmicappendbyte m 0) fuel else m)"

definition rtw_secgetmic :: "mic_data \<Rightarrow> bytes \<times> mic_data" where
  "rtw_secgetmic m =
     (let m = rtw_secmicappendbyte m 0x5a;
          m = rtw_secmicappendbyte m 0;
          m = rtw_secmicappendbyte m 0;
          m = rtw_secmicappendbyte m 0;
          m = rtw_secmicappendbyte m 0;
          m = mic_fill m 3
      in (secmicputuint32 (mic_L m) @ secmicputuint32 (mic_R m), secmicclear m))"

text \<open>The pseudo header: destination and source, chosen by the two distribution bits, and the priority.\<close>

definition mic_header :: "bytes \<Rightarrow> u8 \<Rightarrow> bytes" where
  "mic_header header pri =
     (let slice = (\<lambda>off. take 6 (drop off header))
      in if header ! 1 AND 1 \<noteq> 0 then
           slice 16 @ (if header ! 1 AND 2 \<noteq> 0 then slice 24 else slice 10)
         else
           slice 4 @ (if header ! 1 AND 2 \<noteq> 0 then slice 16 else slice 10)) @ [pri, 0, 0, 0]"

definition rtw_seccalctkipmic :: "mic_data \<Rightarrow> bytes \<Rightarrow> bytes \<Rightarrow> bytes \<Rightarrow> nat \<Rightarrow> u8 \<Rightarrow> bytes res" where
  "rtw_seccalctkipmic stack key header data data_len pri =
     (if length key < 8 \<or> length data < data_len \<or>
         length header < (if header ! 1 AND 3 = 3 then 30 else 22) then Inl Read_past_end
      else
        (let m = rtw_secmicsetkey stack key;
             m = rtw_secmicappend m (mic_header header pri);
             m = rtw_secmicappend m (take data_len data)
         in Inr (fst (rtw_secgetmic m))))"

section \<open>Key mixing\<close>

definition Sbox1 :: "u16 list" where
  "Sbox1 =
    [0xC6A5, 0xF884, 0xEE99, 0xF68D, 0xFF0D, 0xD6BD, 0xDEB1, 0x9154,
     0x6050, 0x0203, 0xCEA9, 0x567D, 0xE719, 0xB562, 0x4DE6, 0xEC9A,
     0x8F45, 0x1F9D, 0x8940, 0xFA87, 0xEF15, 0xB2EB, 0x8EC9, 0xFB0B,
     0x41EC, 0xB367, 0x5FFD, 0x45EA, 0x23BF, 0x53F7, 0xE496, 0x9B5B,
     0x75C2, 0xE11C, 0x3DAE, 0x4C6A, 0x6C5A, 0x7E41, 0xF502, 0x834F,
     0x685C, 0x51F4, 0xD134, 0xF908, 0xE293, 0xAB73, 0x6253, 0x2A3F,
     0x080C, 0x9552, 0x4665, 0x9D5E, 0x3028, 0x37A1, 0x0A0F, 0x2FB5,
     0x0E09, 0x2436, 0x1B9B, 0xDF3D, 0xCD26, 0x4E69, 0x7FCD, 0xEA9F,
     0x121B, 0x1D9E, 0x5874, 0x342E, 0x362D, 0xDCB2, 0xB4EE, 0x5BFB,
     0xA4F6, 0x764D, 0xB761, 0x7DCE, 0x527B, 0xDD3E, 0x5E71, 0x1397,
     0xA6F5, 0xB968, 0x0000, 0xC12C, 0x4060, 0xE31F, 0x79C8, 0xB6ED,
     0xD4BE, 0x8D46, 0x67D9, 0x724B, 0x94DE, 0x98D4, 0xB0E8, 0x854A,
     0xBB6B, 0xC52A, 0x4FE5, 0xED16, 0x86C5, 0x9AD7, 0x6655, 0x1194,
     0x8ACF, 0xE910, 0x0406, 0xFE81, 0xA0F0, 0x7844, 0x25BA, 0x4BE3,
     0xA2F3, 0x5DFE, 0x80C0, 0x058A, 0x3FAD, 0x21BC, 0x7048, 0xF104,
     0x63DF, 0x77C1, 0xAF75, 0x4263, 0x2030, 0xE51A, 0xFD0E, 0xBF6D,
     0x814C, 0x1814, 0x2635, 0xC32F, 0xBEE1, 0x35A2, 0x88CC, 0x2E39,
     0x9357, 0x55F2, 0xFC82, 0x7A47, 0xC8AC, 0xBAE7, 0x322B, 0xE695,
     0xC0A0, 0x1998, 0x9ED1, 0xA37F, 0x4466, 0x547E, 0x3BAB, 0x0B83,
     0x8CCA, 0xC729, 0x6BD3, 0x283C, 0xA779, 0xBCE2, 0x161D, 0xAD76,
     0xDB3B, 0x6456, 0x744E, 0x141E, 0x92DB, 0x0C0A, 0x486C, 0xB8E4,
     0x9F5D, 0xBD6E, 0x43EF, 0xC4A6, 0x39A8, 0x31A4, 0xD337, 0xF28B,
     0xD532, 0x8B43, 0x6E59, 0xDAB7, 0x018C, 0xB164, 0x9CD2, 0x49E0,
     0xD8B4, 0xACFA, 0xF307, 0xCF25, 0xCAAF, 0xF48E, 0x47E9, 0x1018,
     0x6FD5, 0xF088, 0x4A6F, 0x5C72, 0x3824, 0x57F1, 0x73C7, 0x9751,
     0xCB23, 0xA17C, 0xE89C, 0x3E21, 0x96DD, 0x61DC, 0x0D86, 0x0F85,
     0xE090, 0x7C42, 0x71C4, 0xCCAA, 0x90D8, 0x0605, 0xF701, 0x1C12,
     0xC2A3, 0x6A5F, 0xAEF9, 0x69D0, 0x1791, 0x9958, 0x3A27, 0x27B9,
     0xD938, 0xEB13, 0x2BB3, 0x2233, 0xD2BB, 0xA970, 0x0789, 0x33A7,
     0x2DB6, 0x3C22, 0x1592, 0xC920, 0x8749, 0xAAFF, 0x5078, 0xA57A,
     0x038F, 0x59F8, 0x0980, 0x1A17, 0x65DA, 0xD731, 0x84C6, 0xD0B8,
     0x82C3, 0x29B0, 0x5A77, 0x1E11, 0x7BCB, 0xA8FC, 0x6DD6, 0x2C3A]"

definition Sbox1_swapped :: "u16 list" where
  "Sbox1_swapped =
    [0xA5C6, 0x84F8, 0x99EE, 0x8DF6, 0x0DFF, 0xBDD6, 0xB1DE, 0x5491,
     0x5060, 0x0302, 0xA9CE, 0x7D56, 0x19E7, 0x62B5, 0xE64D, 0x9AEC,
     0x458F, 0x9D1F, 0x4089, 0x87FA, 0x15EF, 0xEBB2, 0xC98E, 0x0BFB,
     0xEC41, 0x67B3, 0xFD5F, 0xEA45, 0xBF23, 0xF753, 0x96E4, 0x5B9B,
     0xC275, 0x1CE1, 0xAE3D, 0x6A4C, 0x5A6C, 0x417E, 0x02F5, 0x4F83,
     0x5C68, 0xF451, 0x34D1, 0x08F9, 0x93E2, 0x73AB, 0x5362, 0x3F2A,
     0x0C08, 0x5295, 0x6546, 0x5E9D, 0x2830, 0xA137, 0x0F0A, 0xB52F,
     0x090E, 0x3624, 0x9B1B, 0x3DDF, 0x26CD, 0x694E, 0xCD7F, 0x9FEA,
     0x1B12, 0x9E1D, 0x7458, 0x2E34, 0x2D36, 0xB2DC, 0xEEB4, 0xFB5B,
     0xF6A4, 0x4D76, 0x61B7, 0xCE7D, 0x7B52, 0x3EDD, 0x715E, 0x9713,
     0xF5A6, 0x68B9, 0x0000, 0x2CC1, 0x6040, 0x1FE3, 0xC879, 0xEDB6,
     0xBED4, 0x468D, 0xD967, 0x4B72, 0xDE94, 0xD498, 0xE8B0, 0x4A85,
     0x6BBB, 0x2AC5, 0xE54F, 0x16ED, 0xC586, 0xD79A, 0x5566, 0x9411,
     0xCF8A, 0x10E9, 0x0604, 0x81FE, 0xF0A0, 0x4478, 0xBA25, 0xE34B,
     0xF3A2, 0xFE5D, 0xC080, 0x8A05, 0xAD3F, 0xBC21, 0x4870, 0x04F1,
     0xDF63, 0xC177, 0x75AF, 0x6342, 0x3020, 0x1AE5, 0x0EFD, 0x6DBF,
     0x4C81, 0x1418, 0x3526, 0x2FC3, 0xE1BE, 0xA235, 0xCC88, 0x392E,
     0x5793, 0xF255, 0x82FC, 0x477A, 0xACC8, 0xE7BA, 0x2B32, 0x95E6,
     0xA0C0, 0x9819, 0xD19E, 0x7FA3, 0x6644, 0x7E54, 0xAB3B, 0x830B,
     0xCA8C, 0x29C7, 0xD36B, 0x3C28, 0x79A7, 0xE2BC, 0x1D16, 0x76AD,
     0x3BDB, 0x5664, 0x4E74, 0x1E14, 0xDB92, 0x0A0C, 0x6C48, 0xE4B8,
     0x5D9F, 0x6EBD, 0xEF43, 0xA6C4, 0xA839, 0xA431, 0x37D3, 0x8BF2,
     0x32D5, 0x438B, 0x596E, 0xB7DA, 0x8C01, 0x64B1, 0xD29C, 0xE049,
     0xB4D8, 0xFAAC, 0x07F3, 0x25CF, 0xAFCA, 0x8EF4, 0xE947, 0x1810,
     0xD56F, 0x88F0, 0x6F4A, 0x725C, 0x2438, 0xF157, 0xC773, 0x5197,
     0x23CB, 0x7CA1, 0x9CE8, 0x213E, 0xDD96, 0xDC61, 0x860D, 0x850F,
     0x90E0, 0x427C, 0xC471, 0xAACC, 0xD890, 0x0506, 0x01F7, 0x121C,
     0xA3C2, 0x5F6A, 0xF9AE, 0xD069, 0x9117, 0x5899, 0x273A, 0xB927,
     0x38D9, 0x13EB, 0xB32B, 0x3322, 0xBBD2, 0x70A9, 0x8907, 0xA733,
     0xB62D, 0x223C, 0x9215, 0x20C9, 0x4987, 0xFFAA, 0x7850, 0x7AA5,
     0x8F03, 0xF859, 0x8009, 0x171A, 0xDA65, 0x31D7, 0xC684, 0xB8D0,
     0xC382, 0xB029, 0x775A, 0x111E, 0xCB7B, 0xFCA8, 0xD66D, 0x3A2C]"

definition RotR1 :: "u16 \<Rightarrow> u16" where
  "RotR1 v16 = (drop_bit 1 v16 AND 0x7FFF) XOR push_bit 15 (v16 AND 1)"

definition Lo8 :: "u16 \<Rightarrow> u8" where "Lo8 v16 = ucast (v16 AND 0x00FF)"
definition Hi8 :: "u16 \<Rightarrow> u8" where "Hi8 v16 = ucast (drop_bit 8 v16 AND 0x00FF)"
definition Mk16 :: "u8 \<Rightarrow> u8 \<Rightarrow> u16" where "Mk16 hi lo = ucast lo XOR push_bit 8 (ucast hi)"
definition TK16 :: "bytes \<Rightarrow> nat \<Rightarrow> u16" where "TK16 tk n = Mk16 (tk ! (2 * n + 1)) (tk ! (2 * n))"

definition S16 :: "u16 \<Rightarrow> u16" where
  "S16 v16 = Sbox1 ! unat (Lo8 v16) XOR Sbox1_swapped ! unat (Hi8 v16)"

text \<open>The five words of the phase-1 key; one turn of the loop, and the loop of eight.\<close>

type_synonym p1k = "u16 \<times> u16 \<times> u16 \<times> u16 \<times> u16"

definition phase1_round :: "bytes \<Rightarrow> p1k \<Rightarrow> nat \<Rightarrow> p1k" where
  "phase1_round tk p i =
     (case p of (p0, p1, p2, p3, p4) \<Rightarrow>
       (let odd = i mod 2;
            p0 = p0 + S16 (p4 XOR TK16 tk (odd + 0));
            p1 = p1 + S16 (p0 XOR TK16 tk (odd + 2));
            p2 = p2 + S16 (p1 XOR TK16 tk (odd + 4));
            p3 = p3 + S16 (p2 XOR TK16 tk (odd + 6));
            p4 = p4 + S16 (p3 XOR TK16 tk (odd + 0));
            p4 = p4 + of_nat i
        in (p0, p1, p2, p3, p4)))"

definition phase1 :: "bytes \<Rightarrow> bytes \<Rightarrow> u32 \<Rightarrow> p1k" where
  "phase1 tk ta iv32 =
     foldl (phase1_round tk)
       (ucast (iv32 AND 0xFFFF), ucast (drop_bit 16 iv32 AND 0xFFFF),
        Mk16 (ta ! 1) (ta ! 0), Mk16 (ta ! 3) (ta ! 2), Mk16 (ta ! 5) (ta ! 4))
       [0..<8]"

definition phase2 :: "bytes \<Rightarrow> p1k \<Rightarrow> u16 \<Rightarrow> bytes" where
  "phase2 tk p iv16 =
     (case p of (k0, k1, k2, k3, k4) \<Rightarrow>
       (let k5 = k4 + iv16;
            k0 = k0 + S16 (k5 XOR TK16 tk 0);
            k1 = k1 + S16 (k0 XOR TK16 tk 1);
            k2 = k2 + S16 (k1 XOR TK16 tk 2);
            k3 = k3 + S16 (k2 XOR TK16 tk 3);
            k4 = k4 + S16 (k3 XOR TK16 tk 4);
            k5 = k5 + S16 (k4 XOR TK16 tk 5);
            k0 = k0 + RotR1 (k5 XOR TK16 tk 6);
            k1 = k1 + RotR1 (k0 XOR TK16 tk 7);
            k2 = k2 + RotR1 k1;
            k3 = k3 + RotR1 k2;
            k4 = k4 + RotR1 k3;
            k5 = k5 + RotR1 k4
        in [Hi8 iv16, (Hi8 iv16 OR 0x20) AND 0x7F, Lo8 iv16, Lo8 (drop_bit 1 (k5 XOR TK16 tk 0)),
            Lo8 k0, Hi8 k0, Lo8 k1, Hi8 k1, Lo8 k2, Hi8 k2, Lo8 k3, Hi8 k3, Lo8 k4, Hi8 k4,
            Lo8 k5, Hi8 k5]))"

section \<open>Frames\<close>

definition TKIP :: u8 where "TKIP = 0x2"

text \<open>\<open>GET_TKIP_PN\<close>: the 48-bit counter, in the order of its bytes in the vector.\<close>

definition GET_TKIP_PN :: "bytes \<Rightarrow> u64" where
  "GET_TKIP_PN iv = of_le_bytes [iv ! 2, iv ! 0, iv ! 4, iv ! 5, iv ! 6, iv ! 7]"

definition tkip_key :: "bytes \<Rightarrow> bytes \<Rightarrow> nat \<Rightarrow> bytes \<Rightarrow> nat \<Rightarrow> bytes res" where
  "tkip_key prwskey ta hdrlen buf pframe =
     rbind (mem_get buf (pframe + hdrlen) 8) (\<lambda>iv.
     (let dot11txpn = GET_TKIP_PN iv;
          pnl = ucast dot11txpn;
          pnh = ucast (drop_bit 16 dot11txpn)
      in rbind (require (16 \<le> length prwskey \<and> 6 \<le> length ta) Read_past_end) (\<lambda>_.
         Inr (phase2 prwskey (phase1 prwskey ta pnh) pnl))))"

definition IS_MCAST :: "bytes \<Rightarrow> bool" where
  "IS_MCAST ra \<longleftrightarrow> ra ! 0 AND 1 \<noteq> 0"

text \<open>The result is the code's return value (\<open>True\<close> for \<open>_SUCCESS\<close>) and the frame.\<close>

definition rtw_tkip_encrypt :: "security_priv \<Rightarrow> sec_xmit_frame \<Rightarrow> (bool \<times> sec_xmit_frame) res" where
  "rtw_tkip_encrypt psecuritypriv xf =
     (case xf_buf xf of
        None \<Rightarrow> Inr (False, xf)
      | Some buf \<Rightarrow>
          if xf_encrypt xf = TKIP then
            rbind (if IS_MCAST (xf_ra xf)
                   then array_get (dot118021XGrpKey psecuritypriv) (dot118021XGrpKeyid psecuritypriv)
                   else Inr (xf_UncstKey xf)) (\<lambda>prwskey.
            rbind (arc4_frags (tkip_key prwskey (xf_ta xf) (unat (xf_hdrlen xf))) xf
                     (unat (xf_nr_frags xf)) (hw_hdr_offset xf) buf) (\<lambda>buf.
            Inr (True, xf\<lparr>xf_buf := Some buf\<rparr>)))
          else Inr (True, xf))"

text \<open>
  \<open>stainfo\<close> is the pairwise key of the sender's station entry, \<open>None\<close> when the table has none. The
  counters of frames without a group key only feed a debug message.
\<close>

definition rtw_tkip_decrypt :: "security_priv \<Rightarrow> bytes option \<Rightarrow> sec_recv_frame \<Rightarrow> (bool \<times> sec_recv_frame) res" where
  "rtw_tkip_decrypt psecuritypriv stainfo rf =
     (if rv_encrypt rf = TKIP then
        (case stainfo of
           None \<Rightarrow> Inr (False, rf)
         | Some UncstKey \<Rightarrow>
             if IS_MCAST (rv_ra rf) \<and> \<not> binstallGrpkey psecuritypriv then Inr (False, rf)
             else
               rbind (if IS_MCAST (rv_ra rf) then array_get (dot118021XGrpKey psecuritypriv) (rv_key_index rf)
                      else Inr UncstKey) (\<lambda>prwskey.
               rbind (tkip_key prwskey (rv_ta rf) (unat (rv_hdrlen rf)) (rv_data rf) 0) (\<lambda>rc4key.
               rbind (arc4_open rc4key rf) (\<lambda>(buf, crc).
               rbind (require (4 \<le> rv_len rf) Read_past_end) (\<lambda>_.
               Inr (take 4 (drop (rv_len rf - 4) buf) = le_bytes 4 crc, rf\<lparr>rv_data := buf\<rparr>))))))
      else Inr (True, rf))"

section \<open>Michael over whole words\<close>

text \<open>
  The block function of Michael on rotations and the exchange of neighbouring bytes, and the code
  of a message: the state after the words of the padded message.
\<close>

definition xswap :: "u32 \<Rightarrow> u32" where
  "xswap w = of_le_bytes (let b = le_bytes 4 w in [b ! 1, b ! 0, b ! 3, b ! 2])"

definition michael_block :: "u32 \<times> u32 \<Rightarrow> u32 \<Rightarrow> u32 \<times> u32" where
  "michael_block lr m =
     (let l = fst lr XOR m; r = snd lr XOR word_rotl 17 l;
          l = l + r; r = r XOR xswap l;
          l = l + r; r = r XOR word_rotl 3 l;
          l = l + r; r = r XOR word_rotr 2 l;
          l = l + r
      in (l, r))"

fun words32 :: "bytes \<Rightarrow> u32 list" where
  "words32 (b0 # b1 # b2 # b3 # bs) = of_le_bytes [b0, b1, b2, b3] # words32 bs"
| "words32 bs = []"

definition mic_pad :: "nat \<Rightarrow> bytes" where
  "mic_pad n = 0x5a # replicate (7 - n mod 4) 0"

definition michael_spec :: "bytes \<Rightarrow> bytes \<Rightarrow> bytes" where
  "michael_spec key msg =
     (let (l, r) = foldl michael_block (of_le_bytes (take 4 key), of_le_bytes (take 4 (drop 4 key)))
                     (words32 (msg @ mic_pad (length msg)))
      in le_bytes 4 l @ le_bytes 4 r)"

lemma bit_ROL32:
  assumes "0 < n" "n < 32" "k < 32"
  shows "bit (ROL32 A n) k \<longleftrightarrow> (if k < n then bit A (32 - n + k) else bit A (k - n))"
proof -
  have "(push_bit n 1 - 1 :: u32) = mask n"
    by (simp add: mask_eq_exp_minus_1 push_bit_eq_mult)
  then have "ROL32 A n = push_bit n A OR (drop_bit (32 - n) A AND mask n)"
    unfolding ROL32_def by (rule arg_cong)
  then have "bit (ROL32 A n) k \<longleftrightarrow> n \<le> k \<and> bit A (k - n) \<or> k < n \<and> bit A (32 - n + k)"
    using assms by (auto simp: bit_simps conj_commute)
  then show ?thesis by auto
qed

lemma ROL32_rotl:
  assumes "0 < n" "n < 32"
  shows "ROL32 A n = word_rotl n A"
proof (rule bit_word_eqI)
  fix k assume "k < LENGTH(32)"
  then have k: "k < 32" by simp
  have "(k + (32 - n)) mod 32 = (if k < n then 32 - n + k else k - n)"
  proof (cases "k < n")
    case True
    then have "k + (32 - n) < 32" using assms by simp
    then show ?thesis using True by (simp only: mod_less) simp
  next
    case False
    then have e: "k + (32 - n) = 32 + (k - n)" using assms by simp
    have "(32 + (k - n)) mod 32 = k - n" using k by (simp add: mod_add_self1 order_le_less_trans [OF diff_le_self])
    then show ?thesis using False unfolding e by simp
  qed
  then show "bit (ROL32 A n) k = bit (word_rotl n A) k"
    using assms k by (simp add: bit_ROL32 bit_word_rotl_iff)
qed

lemma ROR32_rotr: "0 < n \<Longrightarrow> n < 32 \<Longrightarrow> ROR32 A n = word_rotr n A"
  by (rule bit_word_eqI) (simp add: ROR32_def ROL32_rotl bit_word_rotl_iff bit_word_rotr_iff)

lemma xswap_code: "drop_bit 8 (l AND 0xff00ff00) OR push_bit 8 (l AND 0x00ff00ff) = xswap l"
proof (rule bit_word_eqI)
  fix k assume "k < LENGTH(32)"
  define q where "q = k div 8"
  define r where "r = k mod 8"
  have k: "k = 8 * q + r" and r: "r < 8" and "q < 4"
    using \<open>k < LENGTH(32)\<close> by (auto simp: q_def r_def)
  then have q: "q = 0 \<or> q = 1 \<or> q = 2 \<or> q = 3" by auto
  have d: "(8 * q + r) div 8 = q" "(8 * q + r) mod 8 = r"
    using r by auto
  have a: "0xff00ff00 = (push_bit 24 (mask 8) OR push_bit 8 (mask 8) :: u32)"
    and b: "0x00ff00ff = (push_bit 16 (mask 8) OR mask 8 :: u32)"
    by (simp_all add: mask_eq_exp_minus_1)
  have le: "j < 4 \<Longrightarrow> bit (le_bytes 4 l ! j) r = bit l (8 * j + r)" for j
    using r by (simp add: bit_simps)
  have x: "bit (xswap l) k = bit l (8 * ([1, 0, 3, 2] ! q) + r)"
  proof -
    have "[le_bytes 4 l ! 1, le_bytes 4 l ! 0, le_bytes 4 l ! 3, le_bytes 4 l ! 2] ! q = le_bytes 4 l ! ([1, 0, 3, 2] ! q)"
      and "[1, 0, 3, 2] ! q < (4 :: nat)"
      using q by (elim disjE; simp)+
    then show ?thesis
      using \<open>q < 4\<close> r unfolding xswap_def Let_def bit_of_le_bytes k d by (simp add: le del: nth_le_bytes)
  qed
  show "bit (drop_bit 8 (l AND 0xff00ff00) OR push_bit 8 (l AND 0x00ff00ff)) k = bit (xswap l) k"
    unfolding a b x unfolding k using q r
    by (elim disjE) (simp_all add: bit_or_iff bit_and_iff bit_drop_bit_eq bit_push_bit_iff bit_mask_iff)
qed

lemma mic_mix_block: "mic_mix (l XOR m) r = michael_block (l, r) m"
  unfolding mic_mix_def michael_block_def xswap_code by (simp add: ROL32_rotl ROR32_rotr Let_def)

lemma michael_block_code:
  assumes "mic_nBytesInM m = 0" and "mic_M m = 0"
  shows "rtw_secmicappend m [b0, b1, b2, b3] =
    (case michael_block (mic_L m, mic_R m) (of_le_bytes [b0, b1, b2, b3]) of (l, r) \<Rightarrow>
       m\<lparr>mic_L := l, mic_R := r, mic_M := 0, mic_nBytesInM := 0\<rparr>)"
proof -
  have w: "((ucast b0 OR push_bit 8 (ucast b1)) OR push_bit 16 (ucast b2)) OR push_bit 24 (ucast b3) = (of_le_bytes [b0, b1, b2, b3] :: u32)"
    by (simp add: push_bit_or or.assoc)
  show ?thesis
    using assms unfolding rtw_secmicappend.simps
    by (simp add: rtw_secmicappendbyte_def w mic_mix_block del: of_le_bytes.simps)
qed

lemma rtw_secmicappend_append: "rtw_secmicappend m (xs @ ys) = rtw_secmicappend (rtw_secmicappend m xs) ys"
  by (induction m xs rule: rtw_secmicappend.induct) simp_all

definition mic_words :: "mic_data \<Rightarrow> u32 list \<Rightarrow> mic_data" where
  "mic_words m ws = (case foldl michael_block (mic_L m, mic_R m) ws of (l, r) \<Rightarrow>
     m\<lparr>mic_L := l, mic_R := r, mic_M := 0, mic_nBytesInM := 0\<rparr>)"

lemma michael_words:
  "mic_nBytesInM m = 0 \<Longrightarrow> mic_M m = 0 \<Longrightarrow> length bs mod 4 = 0 \<Longrightarrow>
   rtw_secmicappend m bs = mic_words m (words32 bs)"
proof (induction bs arbitrary: m rule: words32.induct)
  case (1 b0 b1 b2 b3 bs)
  obtain l r where lr: "michael_block (mic_L m, mic_R m) (of_le_bytes [b0, b1, b2, b3]) = (l, r)" by fastforce
  have "rtw_secmicappend m ([b0, b1, b2, b3] @ bs) =
      rtw_secmicappend (m\<lparr>mic_L := l, mic_R := r, mic_M := 0, mic_nBytesInM := 0\<rparr>) bs"
    unfolding rtw_secmicappend_append michael_block_code [OF 1(2,3)] lr by simp
  also have "\<dots> = mic_words (m\<lparr>mic_L := l, mic_R := r, mic_M := 0, mic_nBytesInM := 0\<rparr>) (words32 bs)"
    using 1(4) by (intro 1(1)) simp_all
  finally show ?case
    by (simp add: mic_words_def lr del: of_le_bytes.simps rtw_secmicappend.simps split: prod.splits)
qed (simp_all add: mic_words_def)

lemma nBytesInM_append:
  "mic_nBytesInM m < 4 \<Longrightarrow> mic_nBytesInM (rtw_secmicappend m bs) = (mic_nBytesInM m + length bs) mod 4"
proof (induction m bs rule: rtw_secmicappend.induct)
  case (2 m b src)
  have "mic_nBytesInM (rtw_secmicappendbyte m b) = Suc (mic_nBytesInM m) mod 4"
    using 2(2) by (auto simp: rtw_secmicappendbyte_def Let_def mod_Suc split: prod.splits)
  then show ?case
    using 2 by (simp add: mod_simps)
qed simp

lemma mic_fill_append:
  "mic_nBytesInM m < 4 \<Longrightarrow> (4 - mic_nBytesInM m) mod 4 \<le> fuel \<Longrightarrow>
   mic_fill m fuel = rtw_secmicappend m (replicate ((4 - mic_nBytesInM m) mod 4) 0)"
proof (induction m fuel rule: mic_fill.induct)
  case (2 m fuel)
  show ?case
  proof (cases "mic_nBytesInM m = 0")
    case False
    have n: "mic_nBytesInM (rtw_secmicappendbyte m 0) = Suc (mic_nBytesInM m) mod 4"
      using nBytesInM_append [of m "[0]"] 2(2) by simp
    have "mic_nBytesInM m = 1 \<or> mic_nBytesInM m = 2 \<or> mic_nBytesInM m = 3"
      using False 2(2) by auto
    then have k: "(4 - mic_nBytesInM m) mod 4 = Suc ((4 - mic_nBytesInM (rtw_secmicappendbyte m 0)) mod 4)"
      unfolding n by (elim disjE) simp_all
    have "mic_fill (rtw_secmicappendbyte m 0) fuel = rtw_secmicappend (rtw_secmicappendbyte m 0)
        (replicate ((4 - mic_nBytesInM (rtw_secmicappendbyte m 0)) mod 4) 0)"
      using 2(3) k False by (intro 2(1)) (simp_all add: n)
    then show ?thesis
      unfolding k using False by simp
  qed simp
qed simp

lemma rtw_secgetmic_append:
  assumes "mic_nBytesInM m < 4"
  shows "fst (rtw_secgetmic m) =
    (let m' = rtw_secmicappend m (mic_pad (mic_nBytesInM m)) in secmicputuint32 (mic_L m') @ secmicputuint32 (mic_R m'))"
proof -
  define m5 where "m5 = rtw_secmicappend m [0x5a, 0, 0, 0, 0]"
  have n: "mic_nBytesInM m5 = (mic_nBytesInM m + 5) mod 4"
    using nBytesInM_append [OF assms, of "[0x5a, 0, 0, 0, 0]"] by (simp add: m5_def add.commute)
  have "mic_nBytesInM m = 0 \<or> mic_nBytesInM m = 1 \<or> mic_nBytesInM m = 2 \<or> mic_nBytesInM m = 3"
    using assms by auto
  then have k: "7 - mic_nBytesInM m mod 4 = 4 + (4 - mic_nBytesInM m5) mod 4"
    unfolding n by (elim disjE) simp_all
  have "replicate 4 (0 :: u8) = [0, 0, 0, 0]"
    by (simp add: numeral_eq_Suc)
  then have "mic_pad (mic_nBytesInM m) = [0x5a, 0, 0, 0, 0] @ replicate ((4 - mic_nBytesInM m5) mod 4) 0"
    unfolding mic_pad_def k replicate_add by simp
  then have "rtw_secmicappend m (mic_pad (mic_nBytesInM m)) =
      rtw_secmicappend m5 (replicate ((4 - mic_nBytesInM m5) mod 4) 0)"
    by (simp only: rtw_secmicappend_append m5_def)
  moreover have "(4 - mic_nBytesInM m5) mod 4 \<le> 3"
    using mod_less_divisor [of 4 "4 - mic_nBytesInM m5"] by simp
  then have "rtw_secmicappend m5 (replicate ((4 - mic_nBytesInM m5) mod 4) 0) = mic_fill m5 3"
    by (intro mic_fill_append [symmetric]) (simp_all add: n)
  ultimately have "rtw_secmicappend m (mic_pad (mic_nBytesInM m)) = mic_fill m5 3"
    by simp
  then show ?thesis
    unfolding rtw_secgetmic_def Let_def by (simp add: m5_def)
qed

lemma secmicgetuint32_bytes: "4 \<le> length p \<Longrightarrow> secmicgetuint32 p = of_le_bytes (take 4 p)"
proof -
  assume "4 \<le> length p"
  then obtain b0 b1 b2 b3 where "take 4 p = [b0, b1, b2, b3]"
    by (auto simp: numeral_eq_Suc Suc_le_length_iff)
  then show ?thesis
    by (simp add: secmicgetuint32_def push_bit_or or.assoc)
qed

lemma secmicputuint32_bytes: "secmicputuint32 val = le_bytes 4 val"
proof -
  have four: "4 = Suc (Suc (Suc (Suc 0)))" by simp
  have low: "ucast (w AND 0xff) = (ucast w :: u8)" for w :: u32
  proof -
    have "0xff = (mask 8 :: u32)" by (simp add: mask_eq_exp_minus_1)
    then have "w AND 0xff = w AND mask 8" by (rule arg_cong)
    also have "ucast (w AND mask 8) = (ucast w :: u8)"
      by (rule bit_word_eqI) (auto simp: bit_simps)
    finally show ?thesis .
  qed
  show ?thesis
    unfolding secmicputuint32_def le_bytes_def four secmicputuint32_loop.simps low
    by (simp add: drop_bit_drop_bit)
qed

lemma seccalctkipmic_michael:
  assumes "8 \<le> length key" and "data_len \<le> length data"
    and "(if header ! 1 AND 3 = 3 then 30 else 22) \<le> length header"
  shows "rtw_seccalctkipmic stack key header data data_len pri =
           Inr (michael_spec key (mic_header header pri @ take data_len data))"
proof -
  define m where "m = rtw_secmicsetkey stack key"
  define msg where "msg = mic_header header pri @ take data_len data"
  have m: "mic_nBytesInM m = 0" "mic_M m = 0" "mic_L m = of_le_bytes (take 4 key)"
    "mic_R m = of_le_bytes (take 4 (drop 4 key))"
    using assms(1) by (simp_all add: m_def rtw_secmicsetkey_def secmicclear_def secmicgetuint32_bytes)
  have n: "mic_nBytesInM (rtw_secmicappend m msg) = length msg mod 4"
    using nBytesInM_append [of m msg] m by simp
  have "length (msg @ mic_pad (length msg)) mod 4 = 0"
  proof -
    define q r where "q = length msg div 4" and "r = length msg mod 4"
    have "length msg = 4 * q + r" and "r < 4"
      by (simp_all add: q_def r_def)
    moreover have "length (msg @ mic_pad (length msg)) = length msg + (8 - r)"
      by (simp add: mic_pad_def Suc_diff_le r_def)
    ultimately have "length (msg @ mic_pad (length msg)) = 4 * (q + 2)"
      by arith
    then show ?thesis by simp
  qed
  then have "rtw_secmicappend m (msg @ mic_pad (length msg)) = mic_words m (words32 (msg @ mic_pad (length msg)))"
    using m by (intro michael_words)
  moreover have "mic_pad (mic_nBytesInM (rtw_secmicappend m msg)) = mic_pad (length msg)"
    by (simp add: n mic_pad_def)
  ultimately have "fst (rtw_secgetmic (rtw_secmicappend m msg)) = michael_spec key msg"
    using rtw_secgetmic_append [of "rtw_secmicappend m msg"]
    by (simp add: n mic_words_def michael_spec_def m secmicputuint32_bytes split: prod.splits flip: rtw_secmicappend_append)
  moreover have "\<not> (length key < 8 \<or> length data < data_len \<or>
      length header < (if header ! 1 AND 3 = 3 then 30 else 22))"
    using assms by simp
  ultimately show ?thesis
    unfolding rtw_seccalctkipmic_def Let_def
    by (simp add: m_def msg_def rtw_secmicappend_append)
qed

text \<open>
  C39: The Michael code is the one of the standard: the block function over the little-endian words of
  pseudo header and data, padded with \<open>0x5a\<close> and four to seven zeros, whatever the state the
  structure on the stack starts with.
\<close>
theorem seccalctkipmic_spec:
  assumes "8 \<le> length key" and "data_len \<le> length data"
    and "(if header ! 1 AND 3 = 3 then 30 else 22) \<le> length header"
  shows "rtw_seccalctkipmic stack key header data data_len pri =
           Inr (michael_spec key (mic_header header pri @ take data_len data))"
  using assms by (rule seccalctkipmic_michael)

theorem seccalctkipmic_spec_witness:
  "rtw_seccalctkipmic (rtw_secmicsetkey undefined []) (replicate 8 0) (replicate 24 0) [1, 2, 3] 3 7 =
     Inr (michael_spec (replicate 8 0) (mic_header (replicate 24 0) 7 @ [1, 2, 3]))"
  using seccalctkipmic_spec [of "replicate 8 0" 3 "[1, 2, 3]" "replicate 24 0" "rtw_secmicsetkey undefined []" 7]
  by simp

section \<open>Key mixing\<close>

text \<open>
  The second half of the S-box holds the first with the two bytes of every entry exchanged.
\<close>
theorem Sbox1_halves:
  "length Sbox1 = 256 \<and>
   Sbox1_swapped = map (\<lambda>w. push_bit 8 w OR drop_bit 8 w) Sbox1"
  unfolding Sbox1_def Sbox1_swapped_def by (intro conjI; simp)

text \<open>
  The mixed RC4 key has sixteen bytes; the first three carry the low half of the packet counter,
  and the second of them always has bit 5 set and bit 7 clear, which keeps out a class of weak keys.
\<close>
theorem phase2_wep_iv:
  "length (phase2 tk p iv16) = 16 \<and>
   phase2 tk p iv16 ! 0 = ucast (drop_bit 8 iv16) \<and>
   phase2 tk p iv16 ! 2 = ucast iv16 \<and>
   bit (phase2 tk p iv16 ! 1) 5 \<and> \<not> bit (phase2 tk p iv16 ! 1) 7"
proof -
  have low: "ucast (w AND 0x00FF) = (ucast w :: u8)" for w :: u16
  proof -
    have "0x00FF = (mask 8 :: u16)" by (simp add: mask_eq_exp_minus_1)
    then have "w AND 0x00FF = w AND mask 8" by (rule arg_cong)
    also have "ucast (w AND mask 8) = (ucast w :: u8)"
      by (rule bit_word_eqI) (auto simp: bit_simps)
    finally show ?thesis .
  qed
  have m: "0x20 = push_bit 5 (1 :: u8)" "0x7F = (mask 7 :: u8)"
    by (simp_all add: mask_eq_exp_minus_1)
  have "bit ((w OR 0x20) AND 0x7F) 5 \<and> \<not> bit ((w OR 0x20) AND 0x7F) 7" for w :: u8
    unfolding m by (simp add: bit_or_iff bit_and_iff bit_push_bit_iff bit_mask_iff)
  then show ?thesis
    by (cases p) (simp add: phase2_def Let_def Hi8_def Lo8_def low)
qed

section \<open>Round trip\<close>

lemma tkip_key_frame:
  assumes "8 \<le> length iv" and "hdrlen = length hdr" and "16 \<le> length prwskey" and "6 \<le> length ta"
  shows "tkip_key prwskey ta hdrlen (pre @ hdr @ iv @ post) (length pre) =
    Inr (phase2 prwskey (phase1 prwskey ta (ucast (drop_bit 16 (GET_TKIP_PN (take 8 iv)))))
          (ucast (GET_TKIP_PN (take 8 iv))))"
proof -
  have "pre @ hdr @ iv @ post = (pre @ hdr) @ take 8 iv @ (drop 8 iv @ post)"
    by (subst (1) append_take_drop_id [of 8 iv, symmetric]) (simp only: append_assoc)
  moreover have "mem_get ((pre @ hdr) @ take 8 iv @ (drop 8 iv @ post)) (length pre + hdrlen) 8 = Inr (take 8 iv)"
    using assms(1,2) by (intro mem_get_middle) simp_all
  ultimately have iv: "mem_get (pre @ hdr @ iv @ post) (length pre + hdrlen) 8 = Inr (take 8 iv)"
    by (rule ssubst)
  show ?thesis
    unfolding tkip_key_def iv rbind_Inr Let_def using assms(3,4) by simp
qed

text \<open>
  C25: A unicast frame in one fragment that \<open>rtw_tkip_encrypt\<close> enciphers in place is accepted by
  \<open>rtw_tkip_decrypt\<close> when the receiver's station entry holds the same key and both know the sender's
  address: the code returns success, and the frame holds header, vector, payload and the CRC of the
  payload.
\<close>
theorem tkip_roundtrip:
  assumes "one_fragment xf desc hdr iv data room rest" and "8 \<le> length iv"
    and "xf_encrypt xf = TKIP" and "rv_encrypt rf = TKIP"
    and "\<not> IS_MCAST (xf_ra xf)" and "rv_ra rf = xf_ra xf" and "rv_ta rf = xf_ta xf"
    and "16 \<le> length (xf_UncstKey xf)" and "6 \<le> length (xf_ta xf)"
    and "unat (rv_hdrlen rf) = length hdr" and "unat (rv_iv_len rf) = length iv"
  shows "\<exists>c. rtw_tkip_encrypt sp xf = Inr (True, xf\<lparr>xf_buf := Some (desc @ hdr @ iv @ c @ rest)\<rparr>) \<and>
           length c = length data + 4 \<and>
           rtw_tkip_decrypt rp (Some (xf_UncstKey xf))
               (rf\<lparr>rv_data := hdr @ iv @ c, rv_len := length (hdr @ iv @ c)\<rparr>) =
             Inr (True, rf\<lparr>rv_data := hdr @ iv @ data @ le_bytes 4 (getcrc32 data),
                    rv_len := length (hdr @ iv @ c)\<rparr>)"
proof -
  define key where "key = phase2 (xf_UncstKey xf)
    (phase1 (xf_UncstKey xf) (xf_ta xf) (ucast (drop_bit 16 (GET_TKIP_PN (take 8 iv)))))
    (ucast (GET_TKIP_PN (take 8 iv)))"
  define c where "c = arc4_sealed key data"
  define rx where "rx = rf\<lparr>rv_data := hdr @ iv @ c, rv_len := length (hdr @ iv @ c)\<rparr>"
  note o = assms(1) [unfolded one_fragment_def]
  have hl: "unat (xf_hdrlen xf) = length hdr" using o by simp
  have ks: "tkip_key (xf_UncstKey xf) (xf_ta xf) (unat (xf_hdrlen xf)) (desc @ hdr @ iv @ data @ room @ rest)
      (length desc) = Inr key"
    using tkip_key_frame [OF assms(2) hl assms(8,9)] by (simp add: key_def)
  have kr: "tkip_key (xf_UncstKey xf) (xf_ta xf) (unat (rv_hdrlen rf)) (hdr @ iv @ c) 0 = Inr key"
    using tkip_key_frame [OF assms(2,10,8,9), of "[]" c] by (simp add: key_def)
  have "rtw_tkip_encrypt sp xf = Inr (True, xf\<lparr>xf_buf := Some (desc @ hdr @ iv @ c @ rest)\<rparr>)"
    using arc4_frags_one [of xf desc hdr iv data room rest
        "tkip_key (xf_UncstKey xf) (xf_ta xf) (unat (xf_hdrlen xf))" key, OF assms(1) ks] assms(3,5) o
    by (simp add: rtw_tkip_encrypt_def c_def)
  moreover have op: "arc4_open key rx = Inr (hdr @ iv @ data @ le_bytes 4 (getcrc32 data), getcrc32 data)"
    using assms(10,11) by (intro received_open) (simp add: received_def rx_def c_def)
  moreover have "take 4 (drop (rv_len rx - 4) (hdr @ iv @ data @ le_bytes 4 (getcrc32 data))) = le_bytes 4 (getcrc32 data)"
    by (simp add: rx_def c_def)
  ultimately show ?thesis
    using kr assms(4-7)
    by (intro exI [of _ c]) (simp add: rtw_tkip_decrypt_def c_def rx_def)
qed

definition tkip_example_xmit :: sec_xmit_frame where
  "tkip_example_xmit = \<lparr>xf_buf = Some (replicate 32 0 @ replicate 24 8 @ [0, 32, 1, 0x20, 0, 0, 0, 0] @ [0xAA, 0xBB] @ replicate 4 0 @ []),
     xf_addr = 0, xf_TXDESC_SIZE = 32, xf_pkt_offset = 0, xf_encrypt = TKIP, xf_nr_frags = 1,
     xf_hdrlen = 24, xf_iv_len = 8, xf_icv_len = 4, xf_last_txcmdsz = 38, xf_frag_len = 1536,
     xf_ra = replicate 6 2, xf_ta = replicate 6 4, xf_UncstKey = replicate 16 7\<rparr>"

definition tkip_example_recv :: sec_recv_frame where
  "tkip_example_recv = \<lparr>rv_data = [], rv_len = 0, rv_encrypt = TKIP, rv_hdrlen = 24, rv_iv_len = 8,
     rv_key_index = 0, rv_ra = replicate 6 2, rv_ta = replicate 6 4\<rparr>"

theorem tkip_roundtrip_witness:
  "\<exists>c rf'. length c = 6 \<and>
     rtw_tkip_decrypt wep_example_priv (Some (replicate 16 7))
       (tkip_example_recv\<lparr>rv_data := replicate 24 8 @ [0, 32, 1, 0x20, 0, 0, 0, 0] @ c,
         rv_len := length (replicate 24 (8 :: u8) @ [0, 32, 1, 0x20, 0, 0, 0, 0] @ c)\<rparr>) = Inr (True, rf') \<and>
     rv_data rf' = replicate 24 8 @ [0, 32, 1, 0x20, 0, 0, 0, 0] @ [0xAA, 0xBB] @ le_bytes 4 (getcrc32 [0xAA, 0xBB])"
proof -
  have "one_fragment tkip_example_xmit (replicate 32 0) (replicate 24 8) [0, 32, 1, 0x20, 0, 0, 0, 0]
      [0xAA, 0xBB] (replicate 4 0) []"
    by (simp add: one_fragment_def tkip_example_xmit_def hw_hdr_offset_def)
  moreover have "\<not> IS_MCAST (xf_ra tkip_example_xmit)"
    by (simp add: IS_MCAST_def tkip_example_xmit_def numeral_eq_Suc)
  ultimately obtain c where "length c = 6"
    and "rtw_tkip_decrypt wep_example_priv (Some (replicate 16 7))
       (tkip_example_recv\<lparr>rv_data := replicate 24 8 @ [0, 32, 1, 0x20, 0, 0, 0, 0] @ c,
         rv_len := length (replicate 24 (8 :: u8) @ [0, 32, 1, 0x20, 0, 0, 0, 0] @ c)\<rparr>) =
      Inr (True, tkip_example_recv\<lparr>rv_data := replicate 24 8 @ [0, 32, 1, 0x20, 0, 0, 0, 0] @ [0xAA, 0xBB] @
         le_bytes 4 (getcrc32 [0xAA, 0xBB]), rv_len := length (replicate 24 (8 :: u8) @ [0, 32, 1, 0x20, 0, 0, 0, 0] @ c)\<rparr>)"
    using tkip_roundtrip [of tkip_example_xmit "replicate 32 0" "replicate 24 8" "[0, 32, 1, 0x20, 0, 0, 0, 0]"
        "[0xAA, 0xBB]" "replicate 4 0" "[]" tkip_example_recv wep_example_priv wep_example_priv]
    by (auto simp: tkip_example_xmit_def tkip_example_recv_def)
  then show ?thesis by (intro exI conjI) (assumption | simp)+
qed

end
