(* ===== verification/Rx_Frame.thy ===== *)
theory Rx_Frame
  imports Rx_Reorder Tkip "HOL-Library.Multiset"
begin

text \<open>
  The receive frames of the driver and who holds them: the buffer of a frame and its pointers
  (\<^verbatim>\<open>kernel/include/rtw_recv.h\<close>), the lists of \<^verbatim>\<open>kernel/core/rtw_recv.c\<close> the 256 frames move between, and the
  stations with their hash table (\<^verbatim>\<open>kernel/core/rtw_sta_mgt.c\<close>), each of which holds the fragments and the
  reordering windows of one peer. A frame or a station is named by its index in the array the driver
  allocates; \<open>places\<close> is the multiset of the frames that are in some list, and the invariant \<open>pool_ok\<close> says
  that every frame is in exactly one list or in the hands of the running function.
\<close>

section \<open>The buffer of a frame\<close>

text \<open>
  \<open>fr_buf\<close> is the memory from \<open>rx_head\<close> to \<open>rx_end\<close>; \<open>rx_data\<close> and \<open>rx_tail\<close> are offsets in it.
  \<open>fr_pkt\<close> says that \<open>pkt\<close> is not NULL, \<open>fr_ctrl\<close> is the station and traffic identifier whose
  reordering window \<open>preorder_ctrl\<close> points to.
\<close>

record rframe =
  fr_buf :: bytes
  rx_data :: nat
  rx_tail :: nat
  fr_len :: u32
  fr_pkt :: bool
  fr_hdrlen :: u8
  fr_iv_len :: u8
  fr_icv_len :: u8
  fr_frag_num :: u8
  fr_mfrag :: u8
  fr_seq_num :: u16
  fr_priority :: u8
  fr_qos :: u8
  fr_amsdu :: u8
  fr_privacy :: u8
  fr_encrypt :: u8
  fr_bdecrypted :: u8
  fr_key_index :: nat
  fr_ta :: bytes
  fr_ra :: bytes
  fr_src :: bytes
  fr_dst :: bytes
  fr_psta :: nat
  fr_ctrl :: "(nat \<times> nat) option"

text \<open>The four functions return NULL and leave the frame alone when the pointers would cross.\<close>

definition recvframe_push :: "rframe \<Rightarrow> nat \<Rightarrow> rframe option" where
  "recvframe_push f sz =
     (if rx_data f < sz then None
      else Some (f\<lparr>rx_data := rx_data f - sz, fr_len := fr_len f + of_nat sz\<rparr>))"

definition recvframe_pull :: "rframe \<Rightarrow> nat \<Rightarrow> rframe option" where
  "recvframe_pull f sz =
     (if rx_tail f < rx_data f + sz then None
      else Some (f\<lparr>rx_data := rx_data f + sz, fr_len := fr_len f - of_nat sz\<rparr>))"

definition recvframe_put :: "rframe \<Rightarrow> nat \<Rightarrow> rframe option" where
  "recvframe_put f sz =
     (if length (fr_buf f) < rx_tail f + sz then None
      else Some (f\<lparr>rx_tail := rx_tail f + sz, fr_len := fr_len f + of_nat sz\<rparr>))"

definition recvframe_pull_tail :: "rframe \<Rightarrow> nat \<Rightarrow> rframe option" where
  "recvframe_pull_tail f sz =
     (if rx_tail f < rx_data f + sz then None
      else Some (f\<lparr>rx_tail := rx_tail f - sz, fr_len := fr_len f - of_nat sz\<rparr>))"

text \<open>A call whose result the code does not look at.\<close>

definition ignoring :: "(rframe \<Rightarrow> rframe option) \<Rightarrow> rframe \<Rightarrow> rframe" where
  "ignoring g f = (case g f of None \<Rightarrow> f | Some f' \<Rightarrow> f')"

text \<open>A frame whose pointers and length agree, and its contents.\<close>

definition rframe_ok :: "rframe \<Rightarrow> bool" where
  "rframe_ok f \<longleftrightarrow> rx_data f \<le> rx_tail f \<and> rx_tail f \<le> length (fr_buf f) \<and> rx_tail f < 2 ^ 32 \<and>
     unat (fr_len f) = rx_tail f - rx_data f"

definition contents :: "rframe \<Rightarrow> bytes" where
  "contents f = take (rx_tail f - rx_data f) (drop (rx_data f) (fr_buf f))"

lemma length_contents [simp]: "rframe_ok f \<Longrightarrow> length (contents f) = rx_tail f - rx_data f"
  unfolding contents_def rframe_ok_def by (simp add: min_def) arith

lemma fr_len_contents: "rframe_ok f \<Longrightarrow> unat (fr_len f) = length (contents f)"
  unfolding contents_def rframe_ok_def by (simp add: min_def) arith

lemma unat_minus_of_nat: "n \<le> unat (x :: u32) \<Longrightarrow> unat (x - of_nat n) = unat x - n"
  by (metis le_unat_uoi unat_sub word_le_nat_alt)

lemma unat_plus_of_nat: "unat (x :: u32) + n < 2 ^ 32 \<Longrightarrow> unat (x + of_nat n) = unat x + n"
  by (simp add: unat_word_ariths unat_of_nat take_bit_eq_mod mod_add_right_eq)

text \<open>What the functions do to the contents of a frame that is in order.\<close>

lemma recvframe_pull_ok:
  assumes "rframe_ok f"
  shows "recvframe_pull f n =
    (if n \<le> length (contents f) then Some (f\<lparr>rx_data := rx_data f + n, fr_len := fr_len f - of_nat n\<rparr>) else None)"
    and "recvframe_pull f n = Some f' \<Longrightarrow> rframe_ok f' \<and> contents f' = drop n (contents f)"
proof -
  show "recvframe_pull f n =
    (if n \<le> length (contents f) then Some (f\<lparr>rx_data := rx_data f + n, fr_len := fr_len f - of_nat n\<rparr>) else None)"
    using assms by (auto simp: recvframe_pull_def rframe_ok_def contents_def)
  assume p: "recvframe_pull f n = Some f'"
  then have "n \<le> unat (fr_len f)"
    using assms by (simp add: recvframe_pull_def rframe_ok_def split: if_splits)
  then show "rframe_ok f' \<and> contents f' = drop n (contents f)"
    using assms p unat_minus_of_nat [of n "fr_len f"]
    by (auto simp: recvframe_pull_def rframe_ok_def contents_def drop_take add.commute split: if_splits)
qed

lemma recvframe_pull_tail_ok:
  assumes "rframe_ok f" and "recvframe_pull_tail f n = Some f'"
  shows "rframe_ok f'" and "contents f' = take (length (contents f) - n) (contents f)"
proof -
  have f': "f' = f\<lparr>rx_tail := rx_tail f - n, fr_len := fr_len f - of_nat n\<rparr>" and n: "rx_data f + n \<le> rx_tail f"
    using assms(2) by (simp_all add: recvframe_pull_tail_def split: if_splits)
  have "n \<le> unat (fr_len f)"
    using assms(1) n by (simp add: rframe_ok_def)
  then show "rframe_ok f'"
    using assms(1) n unat_minus_of_nat [of n "fr_len f"] by (simp add: f' rframe_ok_def add.commute) arith
  show "contents f' = take (length (contents f) - n) (contents f)"
    using assms(1) by (simp add: f') (simp add: contents_def min_def add.commute)
qed

section \<open>Stations, lists and the state of the adapter\<close>

definition NUM_STA :: nat where "NUM_STA = 32"
definition NR_RECVFRAME :: nat where "NR_RECVFRAME = 256"

text \<open>
  The session tracker: a rule looks at the local address and port and the remote address and port of a TCP
  segment; a station has a table of protocols with their rules. What the tracker is asked to do is a command.
\<close>

type_synonym st_rule = "bytes \<Rightarrow> bytes \<Rightarrow> bytes \<Rightarrow> bytes \<Rightarrow> bool"

datatype st_cmd =
    Session_tracker_add nat bytes bytes bytes bytes
  | Session_tracker_del nat bytes bytes bytes bytes

definition SESSION_TRACKER_REG_ID_NUM :: nat where "SESSION_TRACKER_REG_ID_NUM = 1"

record sta_info =
  mac_addr :: bytes
  sta_aid :: nat
  defrag_q :: "nat list"
  tid_rxseq :: "u16 list"
  rx_iv :: "bytes list"
  last_tid :: u8
  duplicate_cnt :: u32
  tkiprxmickey :: bytes
  UncstKey :: bytes
  ieee8021x_blocked :: bool
  recvreorder_ctrl :: "reorder_ctrl list"
  st_reg :: "(u8 \<times> st_rule option) list"

text \<open>
  The adapter: the frames and their lists, the stations, the security settings; \<open>grprxmickey\<close> are the
  group keys of Michael, \<open>mic_errors\<close> the calls of \<open>rtw_handle_tkip_mic_err\<close> and \<open>delivered\<close> the packets
  given to \<open>rtw_os_recv_indicate_pkt\<close>, in order. \<open>mic_stack\<close> and \<open>aes_stack\<close> are what the stack holds
  where the code leaves a variable unset. \<open>st_cmds\<close> are the commands for the session tracker, in order.
  Some code looks at a packet behind its last byte; the kernel does not stop it there. \<open>skb_after\<close> is what
  the memory behind a packet holds, and \<open>over_read\<close> records that such a read has been made.
\<close>

record rx_adapter =
  frames :: "nat \<Rightarrow> rframe"
  free_recv_queue :: "nat list"
  free_recvframe_cnt :: u32
  uc_swdec_pending_queue :: "nat list"
  stainfo_buf :: "nat \<Rightarrow> sta_info"
  sta_hash :: "nat \<Rightarrow> nat list"
  free_sta_queue :: "nat list"
  asoc_sta_count :: int
  securitypriv :: security_priv
  grprxmickey :: "bytes list"
  mlme_key_index :: nat
  bcheck_grpkey :: bool
  busetkipkey :: bool
  hw_decrypted :: bool
  iv_seq :: "u64 list"
  auth_8021X :: bool
  station_mode :: bool
  mic_errors :: "(nat \<times> bool) list"
  recvpriv :: recv_priv
  delivered :: "bytes list"
  mic_stack :: mic_data
  aes_stack :: bytes
  st_cmds :: "st_cmd list"
  skb_after :: "nat \<Rightarrow> u8"
  over_read :: bool

text \<open>\<open>rtw_list_delete\<close>: a frame leaves the list it is in.\<close>

definition sta_unlink :: "nat \<Rightarrow> sta_info \<Rightarrow> sta_info" where
  "sta_unlink i s =
     s\<lparr>defrag_q := filter (\<lambda>j. j \<noteq> i) (defrag_q s),
       recvreorder_ctrl := map (\<lambda>c. c\<lparr>pending_queue := filter (\<lambda>f. mp_id f \<noteq> i) (pending_queue c)\<rparr>) (recvreorder_ctrl s)\<rparr>"

definition rtw_list_delete :: "nat \<Rightarrow> rx_adapter \<Rightarrow> rx_adapter" where
  "rtw_list_delete i ad =
     ad\<lparr>free_recv_queue := filter (\<lambda>j. j \<noteq> i) (free_recv_queue ad),
        uc_swdec_pending_queue := filter (\<lambda>j. j \<noteq> i) (uc_swdec_pending_queue ad),
        stainfo_buf := (\<lambda>s. sta_unlink i (stainfo_buf ad s))\<rparr>"

definition set_frame :: "nat \<Rightarrow> rframe \<Rightarrow> rx_adapter \<Rightarrow> rx_adapter" where
  "set_frame i f ad = ad\<lparr>frames := (frames ad)(i := f)\<rparr>"

definition set_sta :: "nat \<Rightarrow> sta_info \<Rightarrow> rx_adapter \<Rightarrow> rx_adapter" where
  "set_sta s st ad = ad\<lparr>stainfo_buf := (stainfo_buf ad)(s := st)\<rparr>"

section \<open>The lists of receive frames\<close>

definition init_recv_priv :: "rx_adapter \<Rightarrow> rx_adapter" where
  "init_recv_priv ad =
     ad\<lparr>free_recv_queue := [0..<NR_RECVFRAME], free_recvframe_cnt := of_nat NR_RECVFRAME,
        uc_swdec_pending_queue := [],
        frames := (\<lambda>i. (frames ad i)\<lparr>fr_pkt := False, fr_len := 0\<rparr>)\<rparr>"

text \<open>
  \<open>rtw_alloc_recvframe\<close> is called on the list of free frames and on \<open>uc_swdec_pending_queue\<close>; only the
  first has a counter.
\<close>

definition rtw_alloc_recvframe :: "rx_adapter \<Rightarrow> nat option \<times> rx_adapter" where
  "rtw_alloc_recvframe ad =
     (case free_recv_queue ad of
        [] \<Rightarrow> (None, ad)
      | i # _ \<Rightarrow> (Some i, (rtw_list_delete i ad)\<lparr>free_recvframe_cnt := free_recvframe_cnt ad - 1\<rparr>))"

definition rtw_dequeue_swdec :: "rx_adapter \<Rightarrow> nat option \<times> rx_adapter" where
  "rtw_dequeue_swdec ad =
     (case uc_swdec_pending_queue ad of
        [] \<Rightarrow> (None, ad)
      | i # _ \<Rightarrow> (Some i, rtw_list_delete i ad))"

definition rtw_free_recvframe :: "nat \<Rightarrow> rx_adapter \<Rightarrow> rx_adapter" where
  "rtw_free_recvframe i ad =
     (let ad = rtw_list_delete i (set_frame i ((frames ad i)\<lparr>fr_pkt := False, fr_len := 0\<rparr>) ad)
      in ad\<lparr>free_recv_queue := free_recv_queue ad @ [i], free_recvframe_cnt := free_recvframe_cnt ad + 1\<rparr>)"

definition rtw_enqueue_swdec :: "nat \<Rightarrow> rx_adapter \<Rightarrow> rx_adapter" where
  "rtw_enqueue_swdec i ad =
     (let ad = rtw_list_delete i ad in ad\<lparr>uc_swdec_pending_queue := uc_swdec_pending_queue ad @ [i]\<rparr>)"

definition rtw_free_recvframe_queue :: "nat list \<Rightarrow> rx_adapter \<Rightarrow> rx_adapter" where
  "rtw_free_recvframe_queue q ad = fold rtw_free_recvframe q ad"

definition rtw_free_uc_swdec_pending_queue :: "rx_adapter \<Rightarrow> nat \<times> rx_adapter" where
  "rtw_free_uc_swdec_pending_queue ad =
     (length (uc_swdec_pending_queue ad), rtw_free_recvframe_queue (uc_swdec_pending_queue ad) ad)"

section \<open>The table of stations\<close>

definition wifi_mac_hash :: "bytes \<Rightarrow> nat" where
  "wifi_mac_hash mac =
     (let x = foldl (\<lambda>x b. push_bit 2 x XOR ucast b) (0 :: u32) (take 6 mac);
          x = x XOR drop_bit 8 x
      in unat (x AND 31))"

definition bc_addr :: bytes where "bc_addr = replicate 6 0xff"

definition rtw_get_stainfo :: "rx_adapter \<Rightarrow> bytes \<Rightarrow> nat option" where
  "rtw_get_stainfo ad hwaddr =
     (let addr = (if IS_MCAST hwaddr then bc_addr else hwaddr)
      in List.find (\<lambda>s. mac_addr (stainfo_buf ad s) = take 6 addr) (sta_hash ad (wifi_mac_hash addr)))"

definition init_stainfo :: "bytes \<Rightarrow> sta_info" where
  "init_stainfo hwaddr =
     \<lparr>mac_addr = take 6 hwaddr, sta_aid = 0, defrag_q = [], tid_rxseq = replicate 16 0xffff,
      rx_iv = replicate 16 (replicate 8 0), last_tid = 0, duplicate_cnt = 0, tkiprxmickey = replicate 16 0,
      UncstKey = replicate 16 0, ieee8021x_blocked = False, recvreorder_ctrl = replicate 16 init_reorder_ctrl,
      st_reg = replicate SESSION_TRACKER_REG_ID_NUM (0, None)\<rparr>"

text \<open>The windows of a station are set up when it is allocated; what they are before does not matter.\<close>

definition init_sta_priv :: "rx_adapter \<Rightarrow> rx_adapter" where
  "init_sta_priv ad =
     ad\<lparr>stainfo_buf := (\<lambda>s. (init_stainfo (replicate 6 0))\<lparr>tid_rxseq := replicate 16 0\<rparr>), sta_hash := (\<lambda>h. []),
        free_sta_queue := [0..<NUM_STA], asoc_sta_count := 0\<rparr>"

definition rtw_alloc_stainfo :: "bytes \<Rightarrow> rx_adapter \<Rightarrow> nat option \<times> rx_adapter" where
  "rtw_alloc_stainfo hwaddr ad =
     (case free_sta_queue ad of
        [] \<Rightarrow> (None, ad)
      | s # ss \<Rightarrow>
          (let h = wifi_mac_hash hwaddr
           in (Some s, (set_sta s (init_stainfo hwaddr) ad)\<lparr>free_sta_queue := ss,
                sta_hash := (sta_hash ad)(h := sta_hash ad h @ [s]), asoc_sta_count := asoc_sta_count ad + 1\<rparr>)))"

text \<open>
  \<open>rtw_free_stainfo\<close>: the station leaves the table, the timers of its reordering windows are cancelled
  and the frames they hold freed, then the station is free again, unless its association identifier is
  above 31. The frames of \<open>defrag_q\<close> stay where they are. The lists of frames to send are not modelled.
\<close>

definition cancel_timers :: "sta_info \<Rightarrow> sta_info" where
  "cancel_timers s = s\<lparr>recvreorder_ctrl := map (\<lambda>c. c\<lparr>reordering_timer := None\<rparr>) (recvreorder_ctrl s)\<rparr>"

definition pending_ids :: "sta_info \<Rightarrow> nat list" where
  "pending_ids s = concat (map (\<lambda>c. map mp_id (pending_queue c)) (recvreorder_ctrl s))"

definition free_reorder :: "nat \<Rightarrow> rx_adapter \<Rightarrow> rx_adapter" where
  "free_reorder s ad =
     (let ad = rtw_free_recvframe_queue (pending_ids (stainfo_buf ad s)) ad
      in set_sta s (cancel_timers (stainfo_buf ad s)) ad)"

definition release_sta :: "nat \<Rightarrow> rx_adapter \<Rightarrow> bool \<times> rx_adapter" where
  "release_sta s ad =
     (if 31 < sta_aid (stainfo_buf ad s) then (False, ad)
      else (True, ad\<lparr>free_sta_queue := filter (\<lambda>t. t \<noteq> s) (free_sta_queue ad) @ [s]\<rparr>))"

definition rtw_free_stainfo :: "nat \<Rightarrow> rx_adapter \<Rightarrow> bool \<times> rx_adapter" where
  "rtw_free_stainfo s ad =
     release_sta s (free_reorder s
       (ad\<lparr>sta_hash := (\<lambda>h. filter (\<lambda>t. t \<noteq> s) (sta_hash ad h)), asoc_sta_count := asoc_sta_count ad - 1\<rparr>))"

definition rtw_free_all_stainfo :: "rx_adapter \<Rightarrow> rx_adapter" where
  "rtw_free_all_stainfo ad =
     (if asoc_sta_count ad = 1 then ad
      else
        (let stas = filter (\<lambda>s. rtw_get_stainfo ad bc_addr \<noteq> Some s) (concat (map (sta_hash ad) [0..<NUM_STA]));
             ad = ad\<lparr>sta_hash := (\<lambda>h. filter (\<lambda>s. s \<notin> set stas) (sta_hash ad h))\<rparr>
         in fold (\<lambda>s ad. snd (rtw_free_stainfo s ad)) stas ad))"

section \<open>A pool of things that are in one list each\<close>

text \<open>
  \<open>places\<close> are the things in some list, \<open>give\<close> takes one out of the list it is in, if any, and puts it into
  the list of free ones. \<open>whole held\<close> says that each of the \<open>size\<close> things is in one list or held.
\<close>

locale pool =
  fixes places :: "'s \<Rightarrow> nat multiset" and give :: "nat \<Rightarrow> 's \<Rightarrow> 's" and total :: nat
  assumes places_give: "places (give i s) = add_mset i (filter_mset (\<lambda>j. j \<noteq> i) (places s))"
begin

definition whole :: "nat multiset \<Rightarrow> 's \<Rightarrow> bool" where
  "whole held s \<longleftrightarrow> places s + held = mset [0..<total]"

lemma whole_count: "whole held s \<Longrightarrow> count (places s) i + count held i \<le> 1"
proof -
  assume "whole held s"
  then have "count (places s) i + count held i = count (mset [0..<total]) i"
    by (simp add: whole_def flip: count_union)
  then show ?thesis
    using distinct_count_atmost_1 [of "[0..<total]"] by simp
qed

lemma whole_held: "whole held s \<Longrightarrow> i \<in># held \<Longrightarrow> i \<notin># places s"
  using whole_count [of held s i] by (metis add_is_1 count_eq_zero_iff le_SucE le_zero_eq add_eq_0_iff_both_eq_0 One_nat_def)

lemma filter_absent: "i \<notin># M \<Longrightarrow> filter_mset (\<lambda>j. j \<noteq> i) M = M"
  by (rule multiset_eqI) (auto simp: not_in_iff)

lemma filter_present:
  assumes "count M i = 1"
  shows "add_mset i (filter_mset (\<lambda>j. j \<noteq> i) M) = M"
  using assms by (intro multiset_eqI) auto

lemma give_held: "whole (add_mset i held) s \<Longrightarrow> whole held (give i s)"
  using whole_held [of "add_mset i held" s i] by (simp add: whole_def places_give filter_absent)

lemma give_placed: "whole held s \<Longrightarrow> i \<in># places s \<Longrightarrow> whole held (give i s)"
proof -
  assume w: "whole held s" and i: "i \<in># places s"
  then have "count (places s) i = 1"
    using whole_count [OF w, of i] by (simp add: count_greater_zero_iff [symmetric] del: count_greater_zero_iff)
  then show ?thesis
    using w by (simp add: whole_def places_give filter_present)
qed

lemma set_places_give: "set_mset (places (give i s)) = insert i (set_mset (places s))"
  by (auto simp: places_give)

lemma give_all: "whole held s \<Longrightarrow> set q \<subseteq> set_mset (places s) \<Longrightarrow> whole held (fold give q s)"
proof (induction q arbitrary: s)
  case (Cons i q)
  then have "whole held (give i s)" by (simp add: give_placed)
  moreover have "set q \<subseteq> set_mset (places (give i s))"
    using Cons.prems(2) by (auto simp: set_places_give)
  ultimately show ?case using Cons.IH by simp
qed simp

text \<open>Giving back what is free already leaves the pool whole; what was held instead is lost.\<close>

lemma give_wrong: "whole (add_mset j held) s \<Longrightarrow> i \<in># places s \<Longrightarrow> j \<notin># places (give i s)"
  using whole_held [of "add_mset j held" s j] by (auto simp: places_give)

end

section \<open>Who holds a frame\<close>

definition sta_places :: "sta_info \<Rightarrow> nat list" where
  "sta_places s = defrag_q s @ pending_ids s"

definition places :: "rx_adapter \<Rightarrow> nat multiset" where
  "places ad = mset (free_recv_queue ad) + mset (uc_swdec_pending_queue ad) +
     (\<Sum>s<NUM_STA. mset (sta_places (stainfo_buf ad s)))"

lemma sta_places_unlink: "sta_places (sta_unlink i s) = filter (\<lambda>j. j \<noteq> i) (sta_places s)"
proof -
  have "concat (map (\<lambda>c. map mp_id (pending_queue c)) (map (\<lambda>c. c\<lparr>pending_queue := filter (\<lambda>f. mp_id f \<noteq> i) (pending_queue c)\<rparr>) cs)) =
      filter (\<lambda>j. j \<noteq> i) (concat (map (\<lambda>c. map mp_id (pending_queue c)) cs))" for cs
    by (induction cs) (simp_all add: filter_map o_def)
  then show ?thesis
    by (simp add: sta_places_def sta_unlink_def pending_ids_def)
qed

lemma filter_mset_sum: "filter_mset P (\<Sum>s<(n::nat). f s) = (\<Sum>s<n. filter_mset P (f s))"
  by (induction n) simp_all

lemma places_delete [simp]: "places (rtw_list_delete i ad) = filter_mset (\<lambda>j. j \<noteq> i) (places ad)"
  by (simp add: places_def rtw_list_delete_def sta_places_unlink filter_mset_sum flip: mset_filter)

lemma places_cong:
  "free_recv_queue ad = free_recv_queue ad' \<Longrightarrow> uc_swdec_pending_queue ad = uc_swdec_pending_queue ad' \<Longrightarrow>
   (\<And>s. sta_places (stainfo_buf ad s) = sta_places (stainfo_buf ad' s)) \<Longrightarrow> places ad = places ad'"
  by (simp add: places_def)

lemma places_frame [simp]: "places (set_frame i f ad) = places ad"
  by (rule places_cong) (simp_all add: set_frame_def)

lemma places_free_recvframe: "places (rtw_free_recvframe i ad) = add_mset i (filter_mset (\<lambda>j. j \<noteq> i) (places ad))"
proof -
  have "places (ad'\<lparr>free_recv_queue := free_recv_queue ad' @ [i], free_recvframe_cnt := x\<rparr>) = add_mset i (places ad')" for ad' x
    by (simp add: places_def)
  then show ?thesis by (simp add: rtw_free_recvframe_def Let_def)
qed

lemma places_set_sta:
  assumes "s < NUM_STA"
  shows "places (set_sta s st ad) + mset (sta_places (stainfo_buf ad s)) = places ad + mset (sta_places st)"
proof -
  have "(\<Sum>t<NUM_STA. mset (sta_places (if t = s then st else stainfo_buf ad t))) + mset (sta_places (stainfo_buf ad s)) =
      (\<Sum>t<NUM_STA. mset (sta_places (stainfo_buf ad t))) + mset (sta_places st)"
    using assms by (simp add: sum.remove [of "{..<NUM_STA}" s])
  then show ?thesis
    by (simp add: places_def set_sta_def fun_upd_def)
qed

interpretation rxpool: pool places rtw_free_recvframe NR_RECVFRAME
  by unfold_locales (rule places_free_recvframe)

text \<open>Stations, in the list of free ones or in the table.\<close>

definition sta_pool :: "rx_adapter \<Rightarrow> nat multiset" where
  "sta_pool ad = mset (free_sta_queue ad) + (\<Sum>h<NUM_STA. mset (sta_hash ad h))"

lemma free_recvframe_sta [simp]:
  "sta_hash (rtw_free_recvframe i ad) = sta_hash ad" "free_sta_queue (rtw_free_recvframe i ad) = free_sta_queue ad"
  "asoc_sta_count (rtw_free_recvframe i ad) = asoc_sta_count ad"
  by (simp_all add: rtw_free_recvframe_def rtw_list_delete_def set_frame_def Let_def)

lemma free_queue_sta [simp]:
  "sta_hash (rtw_free_recvframe_queue q ad) = sta_hash ad"
  "free_sta_queue (rtw_free_recvframe_queue q ad) = free_sta_queue ad"
  "asoc_sta_count (rtw_free_recvframe_queue q ad) = asoc_sta_count ad"
  unfolding rtw_free_recvframe_queue_def by (induction q arbitrary: ad) simp_all

interpretation swpool: pool places rtw_enqueue_swdec NR_RECVFRAME
proof
  fix i ad
  have "places (ad'\<lparr>uc_swdec_pending_queue := uc_swdec_pending_queue ad' @ [i]\<rparr>) = add_mset i (places ad')" for ad'
    by (simp add: places_def)
  then show "places (rtw_enqueue_swdec i ad) = add_mset i (filter_mset (\<lambda>j. j \<noteq> i) (places ad))"
    by (simp add: rtw_enqueue_swdec_def Let_def)
qed

section \<open>The invariant of the lists\<close>

text \<open>
  Every frame is in one list or in \<open>held\<close>, the counter is the length of the list of free frames, and the
  table of stations holds indices of stations.
\<close>

definition pool_ok :: "nat multiset \<Rightarrow> rx_adapter \<Rightarrow> bool" where
  "pool_ok held ad \<longleftrightarrow> rxpool.whole held ad \<and> free_recvframe_cnt ad = of_nat (length (free_recv_queue ad)) \<and>
     (\<forall>h. set (sta_hash ad h) \<subseteq> {..<NUM_STA})"

lemma pool_ok_cong:
  assumes "places ad = places ad'" "free_recvframe_cnt ad = free_recvframe_cnt ad'" "free_recv_queue ad = free_recv_queue ad'"
    "sta_hash ad = sta_hash ad'"
  shows "pool_ok held ad \<longleftrightarrow> pool_ok held ad'"
  using assms by (simp add: pool_ok_def rxpool.whole_def)

lemma pool_ok_frame [simp]: "pool_ok held (set_frame i f ad) \<longleftrightarrow> pool_ok held ad"
  by (rule pool_ok_cong) (simp only: places_frame, simp_all add: set_frame_def)

lemma free_in_places: "set (free_recv_queue ad) \<subseteq> set_mset (places ad)"
  by (auto simp: places_def)

lemma sta_in_places: "s < NUM_STA \<Longrightarrow> set (sta_places (stainfo_buf ad s)) \<subseteq> set_mset (places ad)"
  by (auto simp: places_def sum.remove [of "{..<NUM_STA}" s])

lemma sta_places_distinct:
  assumes "rxpool.whole held ad" and "s < NUM_STA"
  shows "distinct (sta_places (stainfo_buf ad s))" and "set (sta_places (stainfo_buf ad s)) \<inter> set (free_recv_queue ad) = {}"
proof -
  have c: "count (mset (free_recv_queue ad)) i + count (mset (sta_places (stainfo_buf ad s))) i \<le> 1" for i
    using rxpool.whole_count [OF assms(1), of i] assms(2)
    by (simp add: places_def sum.remove [of "{..<NUM_STA}" s])
  then show "distinct (sta_places (stainfo_buf ad s))"
    by (metis add_leE distinct_count_atmost_1 count_mset le_antisym less_one not_less count_mset_0_iff)
  show "set (sta_places (stainfo_buf ad s)) \<inter> set (free_recv_queue ad) = {}"
  proof (rule equals0I)
    fix i assume "i \<in> set (sta_places (stainfo_buf ad s)) \<inter> set (free_recv_queue ad)"
    then have "0 < count (mset (free_recv_queue ad)) i" "0 < count (mset (sta_places (stainfo_buf ad s))) i"
      by (simp_all add: count_mset_gt_0)
    with c [of i] show False by linarith
  qed
qed

lemma cnt_free_recvframe:
  assumes "free_recvframe_cnt ad = of_nat (length (free_recv_queue ad))" and "i \<notin> set (free_recv_queue ad)"
  shows "free_recvframe_cnt (rtw_free_recvframe i ad) = of_nat (length (free_recv_queue (rtw_free_recvframe i ad)))"
proof -
  have "filter (\<lambda>j. j \<noteq> i) (free_recv_queue ad) = free_recv_queue ad"
    using assms(2) by (auto intro: filter_True)
  then show ?thesis
    using assms(1) by (simp add: rtw_free_recvframe_def rtw_list_delete_def set_frame_def Let_def)
qed

lemma set_free_recv_queue: "set (free_recv_queue (rtw_free_recvframe i ad)) = insert i (set (free_recv_queue ad))"
  by (auto simp: rtw_free_recvframe_def rtw_list_delete_def set_frame_def Let_def)

lemma pool_ok_free_held: "pool_ok (add_mset i held) ad \<Longrightarrow> pool_ok held (rtw_free_recvframe i ad)"
  using rxpool.whole_held [of "add_mset i held" ad i] free_in_places [of ad]
  by (auto simp: pool_ok_def rxpool.give_held intro!: cnt_free_recvframe)

lemma cnt_free_queue:
  assumes "distinct q" and "set q \<inter> set (free_recv_queue ad) = {}"
    and "free_recvframe_cnt ad = of_nat (length (free_recv_queue ad))"
  shows "free_recvframe_cnt (rtw_free_recvframe_queue q ad) = of_nat (length (free_recv_queue (rtw_free_recvframe_queue q ad)))"
  using assms unfolding rtw_free_recvframe_queue_def
proof (induction q arbitrary: ad)
  case (Cons i q)
  then show ?case
    using cnt_free_recvframe [of ad i] by (simp add: set_free_recv_queue)
qed simp

lemma pool_ok_free_queue:
  assumes "pool_ok held ad" and "s < NUM_STA" and "set q \<subseteq> set (sta_places (stainfo_buf ad s))" and "distinct q"
  shows "pool_ok held (rtw_free_recvframe_queue q ad)"
proof -
  have w: "rxpool.whole held ad" using assms(1) by (simp add: pool_ok_def)
  have "rxpool.whole held (rtw_free_recvframe_queue q ad)"
    unfolding rtw_free_recvframe_queue_def using sta_in_places [OF assms(2), of ad] assms(3) by (intro rxpool.give_all w) auto
  moreover have "set q \<inter> set (free_recv_queue ad) = {}"
    using sta_places_distinct(2) [OF w assms(2)] assms(3) by auto
  ultimately show ?thesis
    using assms cnt_free_queue [OF assms(4)] by (simp add: pool_ok_def)
qed

lemma rtw_get_stainfo_bound: "pool_ok held ad \<Longrightarrow> rtw_get_stainfo ad a = Some s \<Longrightarrow> s < NUM_STA"
proof -
  assume p: "pool_ok held ad" and "rtw_get_stainfo ad a = Some s"
  then obtain h where "s \<in> set (sta_hash ad h)"
    unfolding rtw_get_stainfo_def Let_def find_Some_iff by (metis nth_mem)
  then show ?thesis using p by (auto simp: pool_ok_def)
qed

end
