(* ===== verification/Aes_Ccmp.thy ===== *)
theory Aes_Ccmp
  imports Tkip
begin

text \<open>
  CCMP of \<^verbatim>\<open>kernel/core/rtw_security.c\<close>: AES-128 on byte arrays, the blocks that CCM is computed
  from, and the encryption and decryption of a frame in place (\<open>aes_cipher\<close>, \<open>aes_decipher\<close>,
  \<open>rtw_aes_encrypt\<close>, \<open>rtw_aes_decrypt\<close>), in the configuration of the module: no
  \<open>CONFIG_IEEE80211W\<close>, no \<open>CONFIG_TDLS\<close>, no \<open>CONSISTENT_PN_ORDER\<close>. Shown: the layers of AES are
  the ones of the standard, and a frame that was encrypted decrypts to its payload and passes the
  check of its MIC when the header length is one the two functions agree on.
\<close>

section \<open>AES\<close>

definition sbox_table :: bytes where
  "sbox_table =
    [0x63, 0x7c, 0x77, 0x7b, 0xf2, 0x6b, 0x6f, 0xc5, 0x30, 0x01, 0x67, 0x2b, 0xfe, 0xd7, 0xab, 0x76,
     0xca, 0x82, 0xc9, 0x7d, 0xfa, 0x59, 0x47, 0xf0, 0xad, 0xd4, 0xa2, 0xaf, 0x9c, 0xa4, 0x72, 0xc0,
     0xb7, 0xfd, 0x93, 0x26, 0x36, 0x3f, 0xf7, 0xcc, 0x34, 0xa5, 0xe5, 0xf1, 0x71, 0xd8, 0x31, 0x15,
     0x04, 0xc7, 0x23, 0xc3, 0x18, 0x96, 0x05, 0x9a, 0x07, 0x12, 0x80, 0xe2, 0xeb, 0x27, 0xb2, 0x75,
     0x09, 0x83, 0x2c, 0x1a, 0x1b, 0x6e, 0x5a, 0xa0, 0x52, 0x3b, 0xd6, 0xb3, 0x29, 0xe3, 0x2f, 0x84,
     0x53, 0xd1, 0x00, 0xed, 0x20, 0xfc, 0xb1, 0x5b, 0x6a, 0xcb, 0xbe, 0x39, 0x4a, 0x4c, 0x58, 0xcf,
     0xd0, 0xef, 0xaa, 0xfb, 0x43, 0x4d, 0x33, 0x85, 0x45, 0xf9, 0x02, 0x7f, 0x50, 0x3c, 0x9f, 0xa8,
     0x51, 0xa3, 0x40, 0x8f, 0x92, 0x9d, 0x38, 0xf5, 0xbc, 0xb6, 0xda, 0x21, 0x10, 0xff, 0xf3, 0xd2,
     0xcd, 0x0c, 0x13, 0xec, 0x5f, 0x97, 0x44, 0x17, 0xc4, 0xa7, 0x7e, 0x3d, 0x64, 0x5d, 0x19, 0x73,
     0x60, 0x81, 0x4f, 0xdc, 0x22, 0x2a, 0x90, 0x88, 0x46, 0xee, 0xb8, 0x14, 0xde, 0x5e, 0x0b, 0xdb,
     0xe0, 0x32, 0x3a, 0x0a, 0x49, 0x06, 0x24, 0x5c, 0xc2, 0xd3, 0xac, 0x62, 0x91, 0x95, 0xe4, 0x79,
     0xe7, 0xc8, 0x37, 0x6d, 0x8d, 0xd5, 0x4e, 0xa9, 0x6c, 0x56, 0xf4, 0xea, 0x65, 0x7a, 0xae, 0x08,
     0xba, 0x78, 0x25, 0x2e, 0x1c, 0xa6, 0xb4, 0xc6, 0xe8, 0xdd, 0x74, 0x1f, 0x4b, 0xbd, 0x8b, 0x8a,
     0x70, 0x3e, 0xb5, 0x66, 0x48, 0x03, 0xf6, 0x0e, 0x61, 0x35, 0x57, 0xb9, 0x86, 0xc1, 0x1d, 0x9e,
     0xe1, 0xf8, 0x98, 0x11, 0x69, 0xd9, 0x8e, 0x94, 0x9b, 0x1e, 0x87, 0xe9, 0xce, 0x55, 0x28, 0xdf,
     0x8c, 0xa1, 0x89, 0x0d, 0xbf, 0xe6, 0x42, 0x68, 0x41, 0x99, 0x2d, 0x0f, 0xb0, 0x54, 0xbb, 0x16]"

definition xor_128 :: "bytes \<Rightarrow> bytes \<Rightarrow> bytes" where
  "xor_128 a b = map (\<lambda>i. a ! i XOR b ! i) [0..<16]"

definition xor_32 :: "bytes \<Rightarrow> bytes \<Rightarrow> bytes" where
  "xor_32 a b = map (\<lambda>i. a ! i XOR b ! i) [0..<4]"

definition sbox :: "u8 \<Rightarrow> u8" where
  "sbox a = sbox_table ! unat a"

definition rcon_table :: bytes where
  "rcon_table = [0x01, 0x02, 0x04, 0x08, 0x10, 0x20, 0x40, 0x80, 0x1b, 0x36, 0x36, 0x36]"

definition next_key :: "bytes \<Rightarrow> nat \<Rightarrow> bytes" where
  "next_key key rnd =
     (let sbox_key = [sbox (key ! 13), sbox (key ! 14), sbox (key ! 15), sbox (key ! 12)];
          rcon = rcon_table ! rnd;
          k0 = xor_32 (take 4 key) sbox_key;
          k0 = k0[0 := k0 ! 0 XOR rcon];
          k4 = xor_32 (take 4 (drop 4 key)) k0;
          k8 = xor_32 (take 4 (drop 8 key)) k4;
          k12 = xor_32 (take 4 (drop 12 key)) k8
      in k0 @ k4 @ k8 @ k12)"

definition byte_sub :: "bytes \<Rightarrow> bytes" where
  "byte_sub a = map (\<lambda>i. sbox (a ! i)) [0..<16]"

definition shift_row :: "bytes \<Rightarrow> bytes" where
  "shift_row a =
     [a ! 0, a ! 5, a ! 10, a ! 15, a ! 4, a ! 9, a ! 14, a ! 3,
      a ! 8, a ! 13, a ! 2, a ! 7, a ! 12, a ! 1, a ! 6, a ! 11]"

text \<open>The loop that shifts \<open>andf7\<close> by a bit, from index 3 down to 1, each with the top bit of its neighbour.\<close>

definition andf7_step :: "bytes \<Rightarrow> nat \<Rightarrow> bytes" where
  "andf7_step a i =
     (let a = a[i := push_bit 1 (a ! i)]
      in if a ! (i - 1) AND 0x80 = 0x80 then a[i := a ! i OR 0x01] else a)"

definition mix_column :: "bytes \<Rightarrow> bytes" where
  "mix_column a =
     (let add1b = map (\<lambda>i. if a ! i AND 0x80 = 0x80 then 0x1b else 0x00) [0..<4];
          swap_halfs = [a ! 2, a ! 3, a ! 0, a ! 1];
          rotl = [a ! 3, a ! 0, a ! 1, a ! 2];
          andf7 = [a ! 0 AND 0x7f, a ! 1 AND 0x7f, a ! 2 AND 0x7f, a ! 3 AND 0x7f];
          andf7 = foldl andf7_step andf7 [3, 2, 1];
          andf7 = andf7[0 := push_bit 1 (andf7 ! 0)];
          andf7 = andf7[0 := andf7 ! 0 AND 0xfe];
          add1bf7 = xor_32 add1b andf7;
          rotr = xor_32 a add1bf7;
          rotr = [rotr ! 1, rotr ! 2, rotr ! 3, rotr ! 0];
          temp = xor_32 add1bf7 rotr;
          tempb = xor_32 swap_halfs rotl
      in xor_32 temp tempb)"

definition aes_round :: "bytes \<times> bytes \<Rightarrow> nat \<Rightarrow> bytes \<times> bytes" where
  "aes_round s rnd =
     (case s of (round_key, ciphertext) \<Rightarrow>
        (let intermediatea = byte_sub ciphertext;
             intermediateb = shift_row intermediatea;
             intermediatea = mix_column (take 4 intermediateb) @ mix_column (take 4 (drop 4 intermediateb)) @
               mix_column (take 4 (drop 8 intermediateb)) @ mix_column (take 4 (drop 12 intermediateb))
         in (next_key round_key rnd, xor_128 intermediatea round_key)))"

definition aes128k128d :: "bytes \<Rightarrow> bytes \<Rightarrow> bytes" where
  "aes128k128d key data =
     (let round_key = take 16 key;
          ciphertext = xor_128 round_key data;
          round_key = next_key round_key 0;
          (round_key, ciphertext) = foldl aes_round (round_key, ciphertext) [1..<10]
      in xor_128 (shift_row (byte_sub ciphertext)) round_key)"

section \<open>The blocks of CCM\<close>

definition construct_mic_iv :: "bool \<Rightarrow> bool \<Rightarrow> bytes \<Rightarrow> nat \<Rightarrow> bytes \<Rightarrow> bytes" where
  "construct_mic_iv qc_exists a4_exists mpdu payload_length pn_vector =
     [0x59, if qc_exists \<and> a4_exists then mpdu ! 30 AND 0x0f
            else if qc_exists \<and> \<not> a4_exists then mpdu ! 24 AND 0x0f else 0x00] @
     map (\<lambda>i. mpdu ! (i + 8)) [2..<8] @ map (\<lambda>i. pn_vector ! (13 - i)) [8..<14] @
     [of_nat (payload_length div 256), of_nat (payload_length mod 256)]"

definition construct_mic_header1 :: "nat \<Rightarrow> bytes \<Rightarrow> bytes" where
  "construct_mic_header1 header_length mpdu =
     [of_nat ((header_length - 2) div 256), of_nat ((header_length - 2) mod 256),
      mpdu ! 0 AND 0xcf, mpdu ! 1 AND 0xc7] @ map (\<lambda>i. mpdu ! i) [4..<16]"

definition construct_mic_header2 :: "bytes \<Rightarrow> bool \<Rightarrow> bool \<Rightarrow> bytes" where
  "construct_mic_header2 mpdu a4_exists qc_exists =
     map (\<lambda>i. mpdu ! i) [16..<22] @ [0x00, 0x00] @
     (if \<not> qc_exists \<and> a4_exists then map (\<lambda>i. mpdu ! (24 + i)) [0..<6] @ [0, 0]
      else if qc_exists \<and> \<not> a4_exists then [mpdu ! 24 AND 0x0f, mpdu ! 25 AND 0x00, 0, 0, 0, 0, 0, 0]
      else if qc_exists \<and> a4_exists then
        map (\<lambda>i. mpdu ! (24 + i)) [0..<6] @ [mpdu ! 30 AND 0x0f, mpdu ! 31 AND 0x00]
      else [0, 0, 0, 0, 0, 0, 0, 0])"

definition construct_ctr_preload :: "bool \<Rightarrow> bool \<Rightarrow> bytes \<Rightarrow> bytes \<Rightarrow> nat \<Rightarrow> bytes" where
  "construct_ctr_preload a4_exists qc_exists mpdu pn_vector c =
     [0x01, if qc_exists \<and> a4_exists then mpdu ! 30 AND 0x0f
            else if qc_exists \<and> \<not> a4_exists then mpdu ! 24 AND 0x0f else 0x00] @
     map (\<lambda>i. mpdu ! (i + 8)) [2..<8] @ map (\<lambda>i. pn_vector ! (13 - i)) [8..<14] @
     [of_nat (c div 256), of_nat (c mod 256)]"

definition bitwise_xor :: "bytes \<Rightarrow> bytes \<Rightarrow> bytes" where
  "bitwise_xor ina inb = map (\<lambda>i. ina ! i XOR inb ! i) [0..<16]"

section \<open>The parts of the cipher\<close>

text \<open>
  The header as both functions read it: the type and subtype from the frame control (the subtype is
  shifted down before it is compared, so the comparisons with \<open>WIFI_DATA_CFACK\<close> and its like, values
  of sixteen and more, never hold), and from them whether there is a fourth address and a QoS field,
  and the header length with two bytes added for a QoS field unless it is 26.
\<close>

definition GetFrameType :: "bytes \<Rightarrow> u16" where
  "GetFrameType pbuf = of_le_bytes (take 2 pbuf) AND 0x0c"

definition get_frame_sub_type :: "bytes \<Rightarrow> u16" where
  "get_frame_sub_type pbuf = of_le_bytes (take 2 pbuf) AND 0xfc"

definition ccm_a4_exists :: "nat \<Rightarrow> bool" where
  "ccm_a4_exists hdrlen \<longleftrightarrow> \<not> (hdrlen = 24 \<or> hdrlen = 26)"

definition ccm_qc_exists :: "bytes \<Rightarrow> bool" where
  "ccm_qc_exists pframe =
     (let frtype = GetFrameType pframe;
          frsubtype = drop_bit 4 (get_frame_sub_type pframe)
      in if frtype OR frsubtype = 0x18 \<or> frtype OR frsubtype = 0x28 \<or> frtype OR frsubtype = 0x38 then True
         else if frtype = 0x08 \<and> (frsubtype = 0x08 \<or> frsubtype = 0x09 \<or> frsubtype = 0x0a \<or> frsubtype = 0x0b)
         then True
         else False)"

definition ccm_hdrlen :: "bytes \<Rightarrow> nat \<Rightarrow> nat" where
  "ccm_hdrlen pframe hdrlen = (if ccm_qc_exists pframe \<and> hdrlen \<noteq> 26 then hdrlen + 2 else hdrlen)"

definition ccm_pn :: "bytes \<Rightarrow> nat \<Rightarrow> bytes res" where
  "ccm_pn pframe hdrlen =
     rbind (mem_get pframe hdrlen 8) (\<lambda>iv. Inr [iv ! 0, iv ! 1, iv ! 4, iv ! 5, iv ! 6, iv ! 7])"

text \<open>The bytes of the header the construction of the blocks reads.\<close>

definition mpdu_need :: "bool \<Rightarrow> bool \<Rightarrow> nat" where
  "mpdu_need a4_exists qc_exists =
     (if a4_exists \<and> qc_exists then 32 else if a4_exists then 30 else if qc_exists then 26 else 22)"

text \<open>The MIC: CBC-MAC over the three blocks of the header and the payload, eight bytes of it.\<close>

fun ccm_mac_blocks :: "bytes \<Rightarrow> bytes \<Rightarrow> nat \<Rightarrow> nat \<Rightarrow> bytes \<Rightarrow> bytes res" where
  "ccm_mac_blocks key frame payload_index 0 aes_out = Inr aes_out"
| "ccm_mac_blocks key frame payload_index (Suc n) aes_out =
     rbind (mem_get frame payload_index 16) (\<lambda>block.
     ccm_mac_blocks key frame (payload_index + 16) n (aes128k128d key (bitwise_xor aes_out block)))"

definition padded :: "bytes \<Rightarrow> bytes" where
  "padded bs = bs @ replicate (16 - length bs) 0"

definition ccm_mic :: "bytes \<Rightarrow> bool \<Rightarrow> bool \<Rightarrow> nat \<Rightarrow> bytes \<Rightarrow> nat \<Rightarrow> bytes \<Rightarrow> bytes res" where
  "ccm_mic key a4_exists qc_exists hdrlen pn_vector plen frame =
     rbind (require (mpdu_need a4_exists qc_exists \<le> length frame) Read_past_end) (\<lambda>_.
     (let mic_iv = construct_mic_iv qc_exists a4_exists frame plen pn_vector;
          mic_header1 = construct_mic_header1 hdrlen frame;
          mic_header2 = construct_mic_header2 frame a4_exists qc_exists;
          aes_out = aes128k128d key mic_iv;
          aes_out = aes128k128d key (bitwise_xor aes_out mic_header1);
          aes_out = aes128k128d key (bitwise_xor aes_out mic_header2)
      in rbind (ccm_mac_blocks key frame (hdrlen + 8) (plen div 16) aes_out) (\<lambda>aes_out.
         rbind (mem_get frame (hdrlen + 8 + 16 * (plen div 16)) (plen mod 16)) (\<lambda>last_block.
         (let aes_out = (if 0 < plen mod 16
                         then aes128k128d key (bitwise_xor aes_out (padded last_block)) else aes_out)
          in Inr (take 8 aes_out))))))"

text \<open>Counter mode over the payload, in place, counters from one.\<close>

fun ccm_ctr_blocks :: "bytes \<Rightarrow> bool \<Rightarrow> bool \<Rightarrow> bytes \<Rightarrow> nat \<Rightarrow> nat \<Rightarrow> nat \<Rightarrow> bytes \<Rightarrow> bytes res" where
  "ccm_ctr_blocks key a4_exists qc_exists pn_vector i payload_index 0 frame = Inr frame"
| "ccm_ctr_blocks key a4_exists qc_exists pn_vector i payload_index (Suc n) frame =
     rbind (mem_get frame payload_index 16) (\<lambda>block.
     (let aes_out = aes128k128d key (construct_ctr_preload a4_exists qc_exists frame pn_vector (i + 1))
      in rbind (mem_put frame payload_index (bitwise_xor aes_out block)) (\<lambda>frame.
         ccm_ctr_blocks key a4_exists qc_exists pn_vector (i + 1) (payload_index + 16) n frame)))"

text \<open>A short block: padded, enciphered, the unpadded part copied back.\<close>

definition ccm_ctr_last :: "bytes \<Rightarrow> bool \<Rightarrow> bool \<Rightarrow> bytes \<Rightarrow> nat \<Rightarrow> nat \<Rightarrow> nat \<Rightarrow> bytes \<Rightarrow> bytes res" where
  "ccm_ctr_last key a4_exists qc_exists pn_vector c payload_index n frame =
     rbind (mem_get frame payload_index n) (\<lambda>block.
     (let aes_out = aes128k128d key (construct_ctr_preload a4_exists qc_exists frame pn_vector c)
      in mem_put frame payload_index (take n (bitwise_xor aes_out (padded block)))))"

definition ccm_ctr :: "bytes \<Rightarrow> bool \<Rightarrow> bool \<Rightarrow> nat \<Rightarrow> bytes \<Rightarrow> nat \<Rightarrow> bytes \<Rightarrow> bytes res" where
  "ccm_ctr key a4_exists qc_exists hdrlen pn_vector plen frame =
     rbind (require (mpdu_need a4_exists qc_exists \<le> length frame) Read_past_end) (\<lambda>_.
     rbind (ccm_ctr_blocks key a4_exists qc_exists pn_vector 0 (hdrlen + 8) (plen div 16) frame) (\<lambda>frame.
     if 0 < plen mod 16 then
       ccm_ctr_last key a4_exists qc_exists pn_vector (plen div 16 + 1)
         (hdrlen + 8 + 16 * (plen div 16)) (plen mod 16) frame
     else Inr frame))"

text \<open>The common tail: the MIC is put behind the payload, the payload enciphered, then the MIC with counter zero.\<close>

definition ccm_seal :: "bytes \<Rightarrow> bool \<Rightarrow> bool \<Rightarrow> nat \<Rightarrow> bytes \<Rightarrow> nat \<Rightarrow> bytes \<Rightarrow> bytes res" where
  "ccm_seal key a4_exists qc_exists hdrlen pn_vector plen frame =
     rbind (ccm_mic key a4_exists qc_exists hdrlen pn_vector plen frame) (\<lambda>mic.
     rbind (mem_put frame (hdrlen + 8 + plen) mic) (\<lambda>frame.
     rbind (ccm_ctr key a4_exists qc_exists hdrlen pn_vector plen frame) (\<lambda>frame.
     ccm_ctr_last key a4_exists qc_exists pn_vector 0 (hdrlen + 8 + plen) 8 frame)))"

definition aes_cipher :: "bytes \<Rightarrow> nat \<Rightarrow> bytes \<Rightarrow> nat \<Rightarrow> bytes res" where
  "aes_cipher key hdrlen0 pframe plen =
     rbind (require (2 \<le> length pframe \<and> 16 \<le> length key) Read_past_end) (\<lambda>_.
     (let a4_exists = ccm_a4_exists hdrlen0;
          qc_exists = ccm_qc_exists pframe;
          hdrlen = ccm_hdrlen pframe hdrlen0
      in rbind (ccm_pn pframe hdrlen) (\<lambda>pn_vector.
         ccm_seal key a4_exists qc_exists hdrlen pn_vector plen pframe)))"

definition MAX_MSG_SIZE :: nat where "MAX_MSG_SIZE = 2048"

text \<open>
  \<open>aes_decipher\<close>: the payload is deciphered in place, with a packet number that is read before the
  header length is corrected; the frame is copied into the static array \<open>message\<close> when it fits (the
  array keeps what it held otherwise), enciphered there again with the packet number read at the
  corrected place, and the two MICs are compared. The result is the comparison, the frame and the
  array.
\<close>

definition aes_decipher :: "bytes \<Rightarrow> nat \<Rightarrow> bytes \<Rightarrow> bytes \<Rightarrow> nat \<Rightarrow> (bool \<times> bytes \<times> bytes) res" where
  "aes_decipher key hdrlen0 message pframe plen =
     rbind (require (2 \<le> length pframe \<and> 16 \<le> length key) Read_past_end) (\<lambda>_.
     rbind (require (8 \<le> plen) Buffer_overflow) (\<lambda>_.
     rbind (ccm_pn pframe hdrlen0) (\<lambda>pn_vector.
     (let a4_exists = ccm_a4_exists hdrlen0;
          qc_exists = ccm_qc_exists pframe;
          hdrlen = ccm_hdrlen pframe hdrlen0
      in rbind (ccm_ctr key a4_exists qc_exists hdrlen pn_vector (plen - 8) pframe) (\<lambda>pframe.
         rbind (if hdrlen + plen + 8 \<le> MAX_MSG_SIZE
                then rbind (mem_get pframe 0 (hdrlen + plen + 8)) (\<lambda>m. mem_put message 0 m)
                else Inr message) (\<lambda>message.
         rbind (ccm_pn pframe hdrlen) (\<lambda>pn_vector.
         rbind (ccm_seal key a4_exists qc_exists hdrlen pn_vector (plen - 8) message) (\<lambda>message.
         rbind (mem_get pframe (hdrlen + 8 + plen - 8) 8) (\<lambda>mic1.
         rbind (mem_get message (hdrlen + 8 + plen - 8) 8) (\<lambda>mic2.
         Inr (mic1 = mic2, pframe, message)))))))))))"

section \<open>Frames\<close>

definition AES :: u8 where "AES = 0x4"

fun aes_frags :: "bytes \<Rightarrow> sec_xmit_frame \<Rightarrow> nat \<Rightarrow> nat \<Rightarrow> bytes \<Rightarrow> bytes res" where
  "aes_frags key xf 0 pframe buf = Inr buf"
| "aes_frags key xf (Suc left) pframe buf =
     (let len = frag_payload_len xf (if left = 0 then unat (xf_last_txcmdsz xf) else xf_frag_len xf)
      in rbind (require (0 \<le> len) Buffer_overflow) (\<lambda>_.
         rbind (aes_cipher key (unat (xf_hdrlen xf)) (drop pframe buf) (nat len)) (\<lambda>out.
         (let buf = take pframe buf @ out
          in if left = 0 then Inr buf
             else aes_frags key xf left (RND4 (xf_addr xf + pframe + xf_frag_len xf) - xf_addr xf) buf))))"

definition rtw_aes_encrypt :: "security_priv \<Rightarrow> sec_xmit_frame \<Rightarrow> (bool \<times> sec_xmit_frame) res" where
  "rtw_aes_encrypt psecuritypriv xf =
     (case xf_buf xf of
        None \<Rightarrow> Inr (False, xf)
      | Some buf \<Rightarrow>
          if xf_encrypt xf = AES then
            rbind (if IS_MCAST (xf_ra xf)
                   then array_get (dot118021XGrpKey psecuritypriv) (dot118021XGrpKeyid psecuritypriv)
                   else Inr (xf_UncstKey xf)) (\<lambda>prwskey.
            rbind (aes_frags prwskey xf (unat (xf_nr_frags xf)) (hw_hdr_offset xf) buf) (\<lambda>buf.
            Inr (True, xf\<lparr>xf_buf := Some buf\<rparr>)))
          else Inr (True, xf))"

text \<open>
  \<open>stainfo\<close> is the pairwise key of the sender's station entry; a group frame needs the group key
  installed, and the frame's key index to be the installed one.
\<close>

definition rtw_aes_decrypt ::
  "security_priv \<Rightarrow> bytes option \<Rightarrow> bytes \<Rightarrow> sec_recv_frame \<Rightarrow> (bool \<times> sec_recv_frame \<times> bytes) res" where
  "rtw_aes_decrypt psecuritypriv stainfo message rf =
     (if rv_encrypt rf = AES then
        (case stainfo of
           None \<Rightarrow> Inr (False, rf, message)
         | Some UncstKey \<Rightarrow>
             if IS_MCAST (rv_ra rf) \<and> \<not> binstallGrpkey psecuritypriv then Inr (False, rf, message)
             else if IS_MCAST (rv_ra rf) \<and> dot118021XGrpKeyid psecuritypriv \<noteq> rv_key_index rf
             then Inr (False, rf, message)
             else
               rbind (if IS_MCAST (rv_ra rf) then array_get (dot118021XGrpKey psecuritypriv) (rv_key_index rf)
                      else Inr UncstKey) (\<lambda>prwskey.
               (let len = int (rv_len rf) - int (unat (rv_hdrlen rf)) - int (unat (rv_iv_len rf))
                in rbind (require (0 \<le> len) Buffer_overflow) (\<lambda>_.
                   rbind (aes_decipher prwskey (unat (rv_hdrlen rf)) message (rv_data rf) (nat len))
                     (\<lambda>(res, pframe, message). Inr (res, rf\<lparr>rv_data := pframe\<rparr>, message))))))
      else Inr (True, rf, message))"

section \<open>CCM: the parts as functions of header and payload\<close>

lemma length_blocks [simp]:
  "length (xor_128 a b) = 16" "length (xor_32 a b) = 4" "length (bitwise_xor a b) = 16"
  "length (aes128k128d key data) = 16"
  by (simp_all add: xor_128_def xor_32_def bitwise_xor_def aes128k128d_def Let_def split: prod.splits)

text \<open>Only the first 32 bytes of a frame go into the blocks.\<close>

lemma construct_header [simp]:
  assumes "32 \<le> length pre"
  shows "construct_ctr_preload a4 qc (pre @ x) pn c = construct_ctr_preload a4 qc pre pn c"
    and "construct_mic_iv qc a4 (pre @ x) n pn = construct_mic_iv qc a4 pre n pn"
    and "construct_mic_header1 h (pre @ x) = construct_mic_header1 h pre"
    and "construct_mic_header2 (pre @ x) a4 qc = construct_mic_header2 pre a4 qc"
  using assms order_less_le_trans [OF _ assms, of 0]
  by (simp_all add: construct_ctr_preload_def construct_mic_iv_def construct_mic_header1_def
      construct_mic_header2_def nth_append)

text \<open>The keystream block of a counter, counter mode over a byte string, and the MIC, without a frame.\<close>

definition ctr_block :: "bytes \<Rightarrow> bool \<Rightarrow> bool \<Rightarrow> bytes \<Rightarrow> bytes \<Rightarrow> nat \<Rightarrow> bytes" where
  "ctr_block key a4 qc pre pn c = aes128k128d key (construct_ctr_preload a4 qc pre pn c)"

function ccm_stream :: "(nat \<Rightarrow> bytes) \<Rightarrow> nat \<Rightarrow> bytes \<Rightarrow> bytes" where
  "ccm_stream P i data =
     (if data = [] then [] else map2 (XOR) data (P i) @ ccm_stream P (Suc i) (drop 16 data))"
  by pat_completeness auto
termination by (relation "measure (\<lambda>(P, i, data). length data)") auto

declare ccm_stream.simps [simp del]

lemma ccm_stream_Nil [simp]: "ccm_stream P i [] = []"
  by (simp add: ccm_stream.simps)

lemma ccm_stream_short:
  "0 < length data \<Longrightarrow> length data \<le> 16 \<Longrightarrow> ccm_stream P i data = map2 (XOR) data (P i)"
  by (simp add: ccm_stream.simps [of P i data])

lemma ccm_stream_block:
  assumes "length (P i) = 16" and "length block = 16"
  shows "ccm_stream P i (block @ data) = map2 (XOR) block (P i) @ ccm_stream P (Suc i) data"
proof -
  have "map2 (XOR) (block @ data) (P i) = map2 (XOR) block (P i)"
    using zip_append1 [of block data "P i"] assms by simp
  moreover have "block @ data \<noteq> []" using assms by auto
  ultimately show ?thesis
    using assms by (simp add: ccm_stream.simps [of P i "block @ data"])
qed

lemma length_ccm_stream [simp]: "\<forall>i. length (P i) = 16 \<Longrightarrow> length (ccm_stream P i data) = length data"
proof (induction P i data rule: ccm_stream.induct)
  case (1 P i data)
  then show ?case by (cases "data = []") (simp_all add: ccm_stream.simps [of P i data])
qed

lemma map2_xor_twice_le: "length xs \<le> length ks \<Longrightarrow> map2 (XOR) (map2 (XOR) xs ks) ks = (xs :: bytes)"
proof (induction xs arbitrary: ks)
  case (Cons x xs)
  then show ?case by (cases ks) simp_all
qed simp

lemma ccm_stream_twice:
  "\<forall>i. length (P i) = 16 \<Longrightarrow> ccm_stream P i (ccm_stream P i data) = data"
proof (induction P i data rule: ccm_stream.induct)
  case (1 P i data)
  show ?case
  proof (cases "length data \<le> 16")
    case True
    then show ?thesis
      using 1(2) map2_xor_twice_le [of data "P i"]
      by (cases "data = []") (simp_all add: ccm_stream_short)
  next
    case False
    define b where "b = take 16 data"
    have d: "data = b @ drop 16 data" and b: "length b = 16"
      using False by (simp_all add: b_def)
    have "ccm_stream P i data = map2 (XOR) b (P i) @ ccm_stream P (Suc i) (drop 16 data)"
      using ccm_stream_block [of P i b "drop 16 data"] 1(2) b d by simp
    moreover have "ccm_stream P i \<dots> = map2 (XOR) (map2 (XOR) b (P i)) (P i) @ ccm_stream P (Suc i) (ccm_stream P (Suc i) (drop 16 data))"
      using 1(2) b by (intro ccm_stream_block) simp_all
    moreover have "ccm_stream P (Suc i) (ccm_stream P (Suc i) (drop 16 data)) = drop 16 data"
      using False by (intro 1(1)) (use 1(2) in auto)
    moreover have "map2 (XOR) (map2 (XOR) b (P i)) (P i) = b"
      using b 1(2) by (intro map2_xor_twice) simp
    ultimately show ?thesis using d by simp
  qed
qed

fun mac_blocks :: "bytes \<Rightarrow> bytes \<Rightarrow> nat \<Rightarrow> bytes \<Rightarrow> bytes" where
  "mac_blocks key data 0 acc = acc"
| "mac_blocks key data (Suc n) acc =
     mac_blocks key (drop 16 data) n (aes128k128d key (bitwise_xor acc (take 16 data)))"

definition ccm_tag :: "bytes \<Rightarrow> bool \<Rightarrow> bool \<Rightarrow> nat \<Rightarrow> bytes \<Rightarrow> bytes \<Rightarrow> bytes \<Rightarrow> bytes" where
  "ccm_tag key a4 qc hdrlen pn pre data =
     (let n = length data div 16; r = length data mod 16;
          acc = aes128k128d key (construct_mic_iv qc a4 pre (length data) pn);
          acc = aes128k128d key (bitwise_xor acc (construct_mic_header1 hdrlen pre));
          acc = aes128k128d key (bitwise_xor acc (construct_mic_header2 pre a4 qc));
          acc = mac_blocks key data n acc
      in take 8 (if 0 < r then aes128k128d key (bitwise_xor acc (padded (drop (16 * n) data))) else acc))"

lemma length_mac_blocks: "length acc = 16 \<Longrightarrow> length (mac_blocks key data n acc) = 16"
  by (induction key data n acc rule: mac_blocks.induct) simp_all

lemma length_ccm_tag [simp]: "length (ccm_tag key a4 qc hdrlen pn pre data) = 8"
  by (simp add: ccm_tag_def Let_def length_mac_blocks)

lemma ccm_mac_blocks_pure:
  "16 * n \<le> length data \<Longrightarrow> off = length pre \<Longrightarrow>
   ccm_mac_blocks key (pre @ data @ post) off n acc = Inr (mac_blocks key data n acc)"
proof (induction n arbitrary: data pre off acc)
  case (Suc n)
  define b where "b = take 16 data"
  define d where "d = drop 16 data"
  have data: "data = b @ d" and b: "length b = 16"
    using Suc(2) by (simp_all add: b_def d_def)
  have "mem_get (pre @ data @ post) off 16 = Inr b"
    using mem_get_middle [of 16 b off pre "d @ post"] Suc(3) by (simp add: data b)
  moreover have "ccm_mac_blocks key ((pre @ b) @ d @ post) (off + 16) n acc' = Inr (mac_blocks key d n acc')" for acc'
    using Suc(2,3) b by (intro Suc(1)) (simp_all add: data)
  ultimately show ?case
    by (simp add: data b)
qed simp

lemma mpdu_need_le: "mpdu_need a4 qc \<le> 32"
  by (simp add: mpdu_need_def)

lemma ccm_mic_tag:
  assumes "length pre = hdrlen + 8" and "32 \<le> length pre" and "plen = length data"
  shows "ccm_mic key a4 qc hdrlen pn plen (pre @ data @ post) = Inr (ccm_tag key a4 qc hdrlen pn pre data)"
proof -
  define n where "n = length data div 16"
  define r where "r = length data mod 16"
  have nr: "16 * n + r = length data" by (simp add: n_def r_def)
  have need: "mpdu_need a4 qc \<le> length (pre @ data @ post)"
    using mpdu_need_le [of a4 qc] assms(2) by simp
  have "ccm_mac_blocks key (pre @ data @ post) (hdrlen + 8) n acc = Inr (mac_blocks key data n acc)" for acc
    using nr assms(1) by (intro ccm_mac_blocks_pure) simp_all
  moreover have "mem_get (pre @ data @ post) (hdrlen + 8 + 16 * n) r = Inr (drop (16 * n) data)"
  proof -
    have "pre @ data @ post = (pre @ take (16 * n) data) @ drop (16 * n) data @ post"
      by (subst (1) append_take_drop_id [of "16 * n" data, symmetric]) (simp only: append_assoc)
    moreover have "mem_get ((pre @ take (16 * n) data) @ drop (16 * n) data @ post) (hdrlen + 8 + 16 * n) r
        = Inr (drop (16 * n) data)"
      using nr assms(1) by (intro mem_get_middle) simp_all
    ultimately show ?thesis by (rule ssubst)
  qed
  ultimately show ?thesis
    unfolding ccm_mic_def ccm_tag_def assms(3) n_def [symmetric] r_def [symmetric] Let_def
    using need assms(2) by simp
qed

lemma ccm_ctr_blocks_stream:
  assumes "32 \<le> length pre" and "P = ctr_block key a4 qc pre pn"
  shows "length data = 16 * n \<Longrightarrow> off = length pre + length dn \<Longrightarrow>
    ccm_ctr_blocks key a4 qc pn i off n (pre @ dn @ data @ post) =
      Inr (pre @ dn @ ccm_stream P (i + 1) data @ post)"
proof (induction n arbitrary: data dn off i)
  case (Suc n)
  define b where "b = take 16 data"
  define d where "d = drop 16 data"
  have data: "data = b @ d" and b: "length b = 16" and d: "length d = 16 * n"
    using Suc(2) by (simp_all add: b_def d_def)
  define x where "x = bitwise_xor (P (i + 1)) b"
  have P: "length (P j) = 16" for j by (simp add: assms(2) ctr_block_def)
  have x: "x = map2 (XOR) b (P (i + 1))"
    by (rule nth_equalityI) (simp_all add: x_def bitwise_xor_def b P xor.commute)
  have "mem_get ((pre @ dn) @ b @ (d @ post)) off 16 = Inr b"
    using Suc(3) b by (intro mem_get_middle) simp_all
  moreover have "mem_put ((pre @ dn) @ b @ (d @ post)) off x = Inr ((pre @ dn) @ x @ (d @ post))"
    using Suc(3) b by (intro mem_put_middle) (simp_all add: x_def)
  moreover have "ccm_ctr_blocks key a4 qc pn (i + 1) (off + 16) n (pre @ (dn @ x) @ d @ post) =
      Inr (pre @ (dn @ x) @ ccm_stream P (i + 1 + 1) d @ post)"
    using Suc(3) d by (intro Suc(1)) (simp_all add: x_def)
  moreover have "ccm_stream P (i + 1) data = x @ ccm_stream P (Suc (i + 1)) d"
    unfolding data x using P b by (intro ccm_stream_block)
  moreover have "aes128k128d key (construct_ctr_preload a4 qc (pre @ y) pn (i + 1)) = P (i + 1)" for y
    using assms by (simp add: ctr_block_def)
  ultimately show ?case
    by (simp add: data x_def)
qed simp

lemma ccm_ctr_last_stream:
  assumes "32 \<le> length pre" and "P = ctr_block key a4 qc pre pn"
    and "off = length pre + length dn" and "length data = n" and "n \<le> 16" and "0 < n"
  shows "ccm_ctr_last key a4 qc pn c off n (pre @ dn @ data @ post) =
      Inr (pre @ dn @ ccm_stream P c data @ post)"
proof -
  have P: "length (P j) = 16" for j by (simp add: assms(2) ctr_block_def)
  have "take n (bitwise_xor (P c) (padded data)) = map2 (XOR) data (P c)"
    using assms(4,5) by (intro nth_equalityI) (simp_all add: bitwise_xor_def padded_def nth_append P xor.commute)
  then have x: "take n (bitwise_xor (P c) (padded data)) = ccm_stream P c data"
    using assms(4-6) by (simp add: ccm_stream_short)
  have "mem_get ((pre @ dn) @ data @ post) off n = Inr data"
    using assms by (intro mem_get_middle) simp_all
  moreover have "mem_put ((pre @ dn) @ data @ post) off (ccm_stream P c data) = Inr ((pre @ dn) @ ccm_stream P c data @ post)"
    using assms P by (intro mem_put_middle) simp_all
  moreover have "aes128k128d key (construct_ctr_preload a4 qc (pre @ y) pn c) = P c" for y
    using assms by (simp add: ctr_block_def)
  ultimately show ?thesis
    by (simp add: ccm_ctr_last_def x)
qed

lemma ccm_ctr_stream:
  assumes "length pre = hdrlen + 8" and "32 \<le> length pre" and "plen = length data"
    and P_def: "P = ctr_block key a4 qc pre pn"
  shows "ccm_ctr key a4 qc hdrlen pn plen (pre @ data @ post) = Inr (pre @ ccm_stream P 1 data @ post)"
proof -
  define n where "n = length data div 16"
  define r where "r = length data mod 16"
  define b where "b = take (16 * n) data"
  define d where "d = drop (16 * n) data"
  have nr: "16 * n + r = length data" and r: "r < 16" by (simp_all add: n_def r_def)
  have data: "data = b @ d" and b: "length b = 16 * n" and d: "length d = r"
    using nr by (simp_all add: b_def d_def)
  have P: "length (P j) = 16" for j by (simp add: P_def ctr_block_def)
  have need: "mpdu_need a4 qc \<le> length (pre @ data @ post)"
    using mpdu_need_le [of a4 qc] assms(2) by simp
  have "ccm_ctr_blocks key a4 qc pn 0 (hdrlen + 8) n (pre @ [] @ b @ (d @ post)) =
      Inr (pre @ [] @ ccm_stream P (0 + 1) b @ (d @ post))"
    using assms(1,2) b by (intro ccm_ctr_blocks_stream) (simp_all add: P_def)
  then have blocks: "ccm_ctr_blocks key a4 qc pn 0 (hdrlen + 8) n (pre @ data @ post) =
      Inr (pre @ ccm_stream P 1 b @ d @ post)"
    by (simp add: data)
  have split: "ccm_stream P i (b @ d) = ccm_stream P i b @ ccm_stream P (i + n) d" for i
    using b
  proof (induction n arbitrary: b i)
    case (Suc n)
    have "ccm_stream P i ((take 16 b @ drop 16 b) @ d) =
        map2 (XOR) (take 16 b) (P i) @ ccm_stream P (Suc i) (drop 16 b @ d)"
      unfolding append_assoc using Suc(2) P by (intro ccm_stream_block) simp_all
    moreover have "ccm_stream P i (take 16 b @ drop 16 b) =
        map2 (XOR) (take 16 b) (P i) @ ccm_stream P (Suc i) (drop 16 b)"
      using Suc(2) P by (intro ccm_stream_block) simp_all
    moreover have "ccm_stream P (Suc i) (drop 16 b @ d) = ccm_stream P (Suc i) (drop 16 b) @ ccm_stream P (Suc i + n) d"
      using Suc(2) by (intro Suc(1)) simp
    ultimately show ?case by simp
  qed simp
  show ?thesis
  proof (cases "r = 0")
    case True
    then have "d = []" using d by simp
    then show ?thesis
      unfolding ccm_ctr_def assms(3) n_def [symmetric] r_def [symmetric]
      using need blocks True by (simp add: data)
  next
    case False
    have "ccm_ctr_last key a4 qc pn (n + 1) (hdrlen + 8 + 16 * n) r (pre @ ccm_stream P 1 b @ d @ post) =
        Inr (pre @ ccm_stream P 1 b @ ccm_stream P (n + 1) d @ post)"
      using assms(1,2) b d r False P by (intro ccm_ctr_last_stream) (simp_all add: P_def)
    then show ?thesis
      unfolding ccm_ctr_def assms(3) n_def [symmetric] r_def [symmetric]
      using need blocks False split [of 1] by (simp add: data)
  qed
qed

lemma ccm_seal_pure:
  assumes "length pre = hdrlen + 8" and "32 \<le> length pre" and "plen = length data" and "length room = 8"
    and P_def: "P = ctr_block key a4 qc pre pn"
  shows "ccm_seal key a4 qc hdrlen pn plen (pre @ data @ room @ post) =
    Inr (pre @ ccm_stream P 1 data @ ccm_stream P 0 (ccm_tag key a4 qc hdrlen pn pre data) @ post)"
proof -
  let ?t = "ccm_tag key a4 qc hdrlen pn pre data"
  have P: "length (P j) = 16" for j by (simp add: P_def ctr_block_def)
  have "mem_put ((pre @ data) @ room @ post) (hdrlen + 8 + plen) ?t = Inr ((pre @ data) @ ?t @ post)"
    using assms by (intro mem_put_middle) simp_all
  moreover have "ccm_ctr key a4 qc hdrlen pn plen (pre @ data @ (?t @ post)) = Inr (pre @ ccm_stream P 1 data @ (?t @ post))"
    using assms(1-3) P_def by (rule ccm_ctr_stream)
  moreover have "ccm_ctr_last key a4 qc pn 0 (hdrlen + 8 + plen) 8 (pre @ ccm_stream P 1 data @ ?t @ post) =
      Inr (pre @ ccm_stream P 1 data @ ccm_stream P 0 ?t @ post)"
    using assms P by (intro ccm_ctr_last_stream) simp_all
  ultimately show ?thesis
    using ccm_mic_tag [OF assms(1,2,3)] by (simp add: ccm_seal_def)
qed

section \<open>Round trip\<close>

text \<open>
  A header length both functions agree on: the QoS field is part of it exactly when it is 26, or
  there is none. (With a fourth address and a QoS field the length is 32, to which both add two.)
\<close>

definition ccm_plain_hdrlen :: "bytes \<Rightarrow> nat \<Rightarrow> bool" where
  "ccm_plain_hdrlen hdr hdrlen \<longleftrightarrow> 24 \<le> hdrlen \<and> (ccm_qc_exists hdr \<longrightarrow> hdrlen = 26)"

lemma ccm_qc_exists_append: "2 \<le> length hdr \<Longrightarrow> ccm_qc_exists (hdr @ x) = ccm_qc_exists hdr"
  by (simp add: ccm_qc_exists_def GetFrameType_def get_frame_sub_type_def)

lemma ccm_pn_append:
  assumes "length iv = 8"
  shows "ccm_pn (hdr @ iv @ x) (length hdr) = Inr [iv ! 0, iv ! 1, iv ! 4, iv ! 5, iv ! 6, iv ! 7]"
  by (simp add: ccm_pn_def assms)

definition ccm_sealed :: "bytes \<Rightarrow> bytes \<Rightarrow> bytes \<Rightarrow> bytes \<Rightarrow> bytes" where
  "ccm_sealed key hdr iv data =
     (let a4 = ccm_a4_exists (length hdr); qc = ccm_qc_exists hdr;
          pn = [iv ! 0, iv ! 1, iv ! 4, iv ! 5, iv ! 6, iv ! 7];
          P = ctr_block key a4 qc (hdr @ iv) pn
      in ccm_stream P 1 data @ ccm_stream P 0 (ccm_tag key a4 qc (length hdr) pn (hdr @ iv) data))"

lemma length_ccm_sealed [simp]: "length (ccm_sealed key hdr iv data) = length data + 8"
  by (simp add: ccm_sealed_def Let_def ctr_block_def)

lemma aes_cipher_sealed:
  assumes "length iv = 8" and "ccm_plain_hdrlen hdr (length hdr)" and "16 \<le> length key"
    and "length room = 8" and "plen = length data"
  shows "aes_cipher key (length hdr) (hdr @ iv @ data @ room @ post) plen =
    Inr (hdr @ iv @ ccm_sealed key hdr iv data @ post)"
proof -
  have h: "24 \<le> length hdr" and q: "ccm_qc_exists (hdr @ x) = ccm_qc_exists hdr" for x
    using assms(2) by (auto simp: ccm_plain_hdrlen_def intro!: ccm_qc_exists_append)
  have l: "ccm_hdrlen (hdr @ x) (length hdr) = length hdr" for x
    using assms(2) by (auto simp: ccm_hdrlen_def ccm_plain_hdrlen_def q)
  have "ccm_seal key a4 qc (length hdr) pn plen ((hdr @ iv) @ data @ room @ post) =
      Inr ((hdr @ iv) @ ccm_stream P 1 data @ ccm_stream P 0 (ccm_tag key a4 qc (length hdr) pn (hdr @ iv) data) @ post)"
    if "P = ctr_block key a4 qc (hdr @ iv) pn" for a4 qc pn P
    using assms h that by (intro ccm_seal_pure) simp_all
  then show ?thesis
    using h assms(3) unfolding aes_cipher_def Let_def l q ccm_pn_append [OF assms(1)]
    by (simp add: ccm_sealed_def Let_def)
qed

lemma aes_decipher_sealed:
  assumes "length iv = 8" and "ccm_plain_hdrlen hdr (length hdr)" and "16 \<le> length key"
    and "length message = MAX_MSG_SIZE" and "length hdr + length data + 16 \<le> MAX_MSG_SIZE"
    and "plen = length data + 8"
  shows "\<exists>mic message'. length mic = 8 \<and>
    aes_decipher key (length hdr) message (hdr @ iv @ ccm_sealed key hdr iv data) plen =
      Inr (True, hdr @ iv @ data @ mic, message')"
proof -
  define a4 where "a4 = ccm_a4_exists (length hdr)"
  define qc where "qc = ccm_qc_exists hdr"
  define pn where "pn = [iv ! 0, iv ! 1, iv ! 4, iv ! 5, iv ! 6, iv ! 7]"
  define P where "P = ctr_block key a4 qc (hdr @ iv) pn"
  define mic where "mic = ccm_stream P 0 (ccm_tag key a4 qc (length hdr) pn (hdr @ iv) data)"
  define rest where "rest = drop (length hdr + length data + 16) message"
  have P: "\<forall>j. length (P j) = 16" by (simp add: P_def ctr_block_def)
  have mic: "length mic = 8" by (simp add: mic_def P)
  have h: "24 \<le> length hdr" and q: "ccm_qc_exists (hdr @ x) = qc" for x
    using assms(2) by (auto simp: ccm_plain_hdrlen_def qc_def intro!: ccm_qc_exists_append)
  have l: "ccm_hdrlen (hdr @ x) (length hdr) = length hdr" for x
    using assms(2) by (auto simp: ccm_hdrlen_def ccm_plain_hdrlen_def q qc_def)
  have pn: "ccm_pn (hdr @ iv @ x) (length hdr) = Inr pn" for x
    by (simp add: ccm_pn_append [OF assms(1)] pn_def)
  have sealed: "ccm_sealed key hdr iv data = ccm_stream P 1 data @ mic"
    by (simp add: ccm_sealed_def Let_def P_def a4_def qc_def pn_def mic_def)
  have "ccm_ctr key a4 qc (length hdr) pn (length data) ((hdr @ iv) @ ccm_stream P 1 data @ mic) =
      Inr ((hdr @ iv) @ ccm_stream P 1 (ccm_stream P 1 data) @ mic)"
    using assms(1) h P by (intro ccm_ctr_stream) (simp_all add: P_def)
  then have ctr: "ccm_ctr key a4 qc (length hdr) pn (length data) (hdr @ iv @ ccm_stream P 1 data @ mic) =
      Inr (hdr @ iv @ data @ mic)"
    by (simp add: ccm_stream_twice P)
  have put: "mem_put message 0 (hdr @ iv @ data @ mic) = Inr (hdr @ iv @ data @ mic @ rest)"
    using assms(1,4,5) mic by (simp add: mem_put_def rest_def ac_simps)
  have "ccm_seal key a4 qc (length hdr) pn (length data) ((hdr @ iv) @ data @ mic @ rest) =
      Inr ((hdr @ iv) @ ccm_stream P 1 data @ mic @ rest)"
    unfolding mic_def using assms(1) h mic by (intro ccm_seal_pure) (simp_all add: P_def mic_def)
  then have seal: "ccm_seal key a4 qc (length hdr) pn (length data) (hdr @ iv @ data @ mic @ rest) =
      Inr (hdr @ iv @ ccm_stream P 1 data @ mic @ rest)"
    by simp
  have get: "mem_get (hdr @ iv @ data @ mic) 0 (length hdr + plen + 8) = Inr (hdr @ iv @ data @ mic)"
    using assms(1,6) mic by (simp add: mem_get_def)
  have m1: "mem_get (hdr @ iv @ data @ mic) (length hdr + plen) 8 = Inr mic"
    using mem_get_middle [of 8 mic "length hdr + plen" "hdr @ iv @ data" "[]"] assms(1,6) mic by simp
  have m2: "mem_get (hdr @ iv @ ccm_stream P 1 data @ mic @ rest) (length hdr + plen) 8 = Inr mic"
    using mem_get_middle [of 8 mic "length hdr + plen" "hdr @ iv @ ccm_stream P 1 data" rest] assms(1,6) mic P by simp
  have "aes_decipher key (length hdr) message (hdr @ iv @ ccm_sealed key hdr iv data) plen =
      Inr (True, hdr @ iv @ data @ mic, hdr @ iv @ ccm_stream P 1 data @ mic @ rest)"
  proof -
    have r: "require (2 \<le> length (hdr @ x) \<and> 16 \<le> length key) Read_past_end = Inr ()"
      "require (8 \<le> plen) Buffer_overflow = Inr ()" for x
      using h assms(3,6) by simp_all
    have e: "length hdr + plen + 8 \<le> MAX_MSG_SIZE" "length hdr + 8 + plen - 8 = length hdr + plen"
      "plen - 8 = length data"
      using assms(5,6) by simp_all
    show ?thesis
      unfolding aes_decipher_def Let_def l q sealed pn a4_def [symmetric] r e rbind_Inr ctr get put
        if_P [OF e(1)] seal m1 m2 by simp
  qed
  then show ?thesis using mic by blast
qed

text \<open>
  C24: A unicast frame in one fragment that \<open>rtw_aes_encrypt\<close> enciphers in place is accepted by
  \<open>rtw_aes_decrypt\<close> when the receiver's station entry holds the same key: the MIC check succeeds and
  the frame holds header, vector and payload again, as long as the header length is one both agree
  on and the frame fits into the array \<open>message\<close>, whatever that array held before.
\<close>
theorem aes_roundtrip:
  assumes "xf_buf xf = Some (desc @ hdr @ iv @ data @ room @ rest)" and "xf_nr_frags xf = 1"
    and "length desc = hw_hdr_offset xf" and "length hdr = unat (xf_hdrlen xf)"
    and "unat (xf_iv_len xf) = 8" and "length iv = 8" and "xf_icv_len xf = 8" and "length room = 8"
    and "unat (xf_last_txcmdsz xf) = length hdr + 8 + length data + 8"
    and "xf_encrypt xf = AES" and "rv_encrypt rf = AES"
    and "\<not> IS_MCAST (xf_ra xf)" and "rv_ra rf = xf_ra xf" and "16 \<le> length (xf_UncstKey xf)"
    and "unat (rv_hdrlen rf) = length hdr" and "unat (rv_iv_len rf) = 8"
    and "ccm_plain_hdrlen hdr (length hdr)" and "length message = MAX_MSG_SIZE"
    and "length hdr + length data + 16 \<le> MAX_MSG_SIZE"
  shows "\<exists>c mic message'. length c = length data + 8 \<and> length mic = 8 \<and>
           rtw_aes_encrypt sp xf = Inr (True, xf\<lparr>xf_buf := Some (desc @ hdr @ iv @ c @ rest)\<rparr>) \<and>
           rtw_aes_decrypt rp (Some (xf_UncstKey xf)) message
               (rf\<lparr>rv_data := hdr @ iv @ c, rv_len := length (hdr @ iv @ c)\<rparr>) =
             Inr (True, rf\<lparr>rv_data := hdr @ iv @ data @ mic, rv_len := length (hdr @ iv @ c)\<rparr>, message')"
proof -
  define c where "c = ccm_sealed (xf_UncstKey xf) hdr iv data"
  have c: "length c = length data + 8" by (simp add: c_def)
  have "aes_cipher (xf_UncstKey xf) (length hdr) (hdr @ iv @ data @ room @ rest) (length data) =
      Inr (hdr @ iv @ c @ rest)"
    unfolding c_def by (rule aes_cipher_sealed) (use assms in auto)
  moreover have "frag_payload_len xf (unat (xf_last_txcmdsz xf)) = int (length data)"
    using assms(4,5,7,9) by (simp add: frag_payload_len_def)
  ultimately have frags: "aes_frags (xf_UncstKey xf) xf 1 (length desc) (desc @ hdr @ iv @ data @ room @ rest) =
      Inr (desc @ hdr @ iv @ c @ rest)"
    unfolding One_nat_def aes_frags.simps using assms(4) by simp
  have enc: "rtw_aes_encrypt sp xf = Inr (True, xf\<lparr>xf_buf := Some (desc @ hdr @ iv @ c @ rest)\<rparr>)"
    using frags assms(1-3,10,12) by (simp add: rtw_aes_encrypt_def)
  obtain mic message' where mic: "length mic = 8"
    and dec: "aes_decipher (xf_UncstKey xf) (length hdr) message (hdr @ iv @ c) (length c) =
        Inr (True, hdr @ iv @ data @ mic, message')"
    using aes_decipher_sealed [OF assms(6,17,14,18,19) refl] c unfolding c_def by auto
  have "rtw_aes_decrypt rp (Some (xf_UncstKey xf)) message
      (rf\<lparr>rv_data := hdr @ iv @ c, rv_len := length (hdr @ iv @ c)\<rparr>) =
      Inr (True, rf\<lparr>rv_data := hdr @ iv @ data @ mic, rv_len := length (hdr @ iv @ c)\<rparr>, message')"
    using dec assms(6,11-13,15,16) by (simp add: rtw_aes_decrypt_def)
  then show ?thesis using c mic enc by blast
qed

definition aes_example_xmit :: sec_xmit_frame where
  "aes_example_xmit = \<lparr>xf_buf = Some (replicate 32 0 @ replicate 24 8 @ replicate 8 1 @ [0xAA, 0xBB] @ replicate 8 0 @ []),
     xf_addr = 0, xf_TXDESC_SIZE = 32, xf_pkt_offset = 0, xf_encrypt = AES, xf_nr_frags = 1,
     xf_hdrlen = 24, xf_iv_len = 8, xf_icv_len = 8, xf_last_txcmdsz = 42, xf_frag_len = 1536,
     xf_ra = replicate 6 2, xf_ta = replicate 6 4, xf_UncstKey = replicate 16 7\<rparr>"

definition aes_example_recv :: sec_recv_frame where
  "aes_example_recv = \<lparr>rv_data = [], rv_len = 0, rv_encrypt = AES, rv_hdrlen = 24, rv_iv_len = 8,
     rv_key_index = 0, rv_ra = replicate 6 2, rv_ta = replicate 6 4\<rparr>"

lemma ccm_plain_example: "ccm_plain_hdrlen (replicate 24 8) 24"
proof -
  have "take 2 (replicate 24 (8 :: u8)) = [8, 8]"
    by (simp add: numeral_eq_Suc)
  then show ?thesis
    by (simp add: ccm_plain_hdrlen_def ccm_qc_exists_def GetFrameType_def get_frame_sub_type_def)
qed

theorem aes_roundtrip_witness:
  "\<exists>c mic message' rf'. length c = 10 \<and> length mic = 8 \<and>
     rtw_aes_decrypt wep_example_priv (Some (replicate 16 7)) (replicate 2048 0)
       (aes_example_recv\<lparr>rv_data := replicate 24 8 @ replicate 8 1 @ c,
         rv_len := length (replicate 24 (8 :: u8) @ replicate 8 1 @ c)\<rparr>) = Inr (True, rf', message') \<and>
     rv_data rf' = replicate 24 8 @ replicate 8 1 @ [0xAA, 0xBB] @ mic"
proof -
  have "\<not> IS_MCAST (xf_ra aes_example_xmit)"
    by (simp add: IS_MCAST_def aes_example_xmit_def numeral_eq_Suc)
  then have "\<exists>c mic message'. length c = length [0xAA, 0xBB :: u8] + 8 \<and> length mic = 8 \<and>
     rtw_aes_encrypt wep_example_priv aes_example_xmit = Inr (True, aes_example_xmit\<lparr>xf_buf := Some (replicate 32 0 @ replicate 24 8 @ replicate 8 1 @ c @ [])\<rparr>) \<and>
     rtw_aes_decrypt wep_example_priv (Some (xf_UncstKey aes_example_xmit)) (replicate 2048 0)
       (aes_example_recv\<lparr>rv_data := replicate 24 8 @ replicate 8 1 @ c,
         rv_len := length (replicate 24 (8 :: u8) @ replicate 8 1 @ c)\<rparr>) =
       Inr (True, aes_example_recv\<lparr>rv_data := replicate 24 8 @ replicate 8 1 @ [0xAA, 0xBB] @ mic,
         rv_len := length (replicate 24 (8 :: u8) @ replicate 8 1 @ c)\<rparr>, message')"
    by (intro aes_roundtrip [where room = "replicate 8 0"])
      (simp_all add: aes_example_xmit_def aes_example_recv_def hw_hdr_offset_def ccm_plain_example MAX_MSG_SIZE_def)
  then obtain c mic message' where "length c = 10" "length mic = 8"
    "rtw_aes_decrypt wep_example_priv (Some (replicate 16 7)) (replicate 2048 0)
       (aes_example_recv\<lparr>rv_data := replicate 24 8 @ replicate 8 1 @ c,
         rv_len := length (replicate 24 (8 :: u8) @ replicate 8 1 @ c)\<rparr>) =
       Inr (True, aes_example_recv\<lparr>rv_data := replicate 24 8 @ replicate 8 1 @ [0xAA, 0xBB] @ mic,
         rv_len := length (replicate 24 (8 :: u8) @ replicate 8 1 @ c)\<rparr>, message')"
    by (auto simp: aes_example_xmit_def)
  then show ?thesis by (intro exI conjI) (assumption | simp)+
qed

section \<open>The layers of AES\<close>

text \<open>Doubling in the field of AES.\<close>

definition xtime :: "u8 \<Rightarrow> u8" where
  "xtime a = push_bit 1 a XOR (if bit a 7 then 0x1b else 0)"

text \<open>
  \<open>mix_column\<close>, written with byte rotations and carries, is the multiplication of the column by
  the matrix of the standard: twice a byte, three times the next, and the other two.
\<close>
theorem mix_column_matrix:
  "mix_column [a0, a1, a2, a3] =
    [xtime a0 XOR (xtime a1 XOR a1) XOR a2 XOR a3,
     a0 XOR xtime a1 XOR (xtime a2 XOR a2) XOR a3,
     a0 XOR a1 XOR xtime a2 XOR (xtime a3 XOR a3),
     (xtime a0 XOR a0) XOR a1 XOR a2 XOR xtime a3]"
proof -
  have top: "w AND 0x80 = 0x80 \<longleftrightarrow> bit w 7" for w :: u8
    using and_push_bit_1 [of w 7] by (cases "bit w 7") simp_all
  have m7: "0x7f = (mask 7 :: u8)" and fe: "0xfe = (NOT 1 :: u8)"
    by (simp_all add: mask_eq_exp_minus_1)
  have low: "\<not> bit (w AND 0x7f) 7" for w :: u8
    unfolding m7 by (simp add: bit_and_iff bit_mask_iff)
  have dbl: "push_bit 1 (w AND 0x7f) = push_bit 1 w" and dbl': "push_bit 1 w AND 0xfe = push_bit 1 w" for w :: u8
    by (rule bit_word_eqI; unfold m7 fe bit_push_bit_iff bit_and_iff bit_mask_iff bit_not_iff bit_1_iff; auto)+
  have p: "push_bit 1 v = v * 2" for v :: u8
    by simp
  have dbl2: "(w AND 0x7f) * 2 = w * 2" and dbl2': "w * 2 AND 0xfe = w * 2" for w :: u8
    using dbl [of w] dbl' [of w] by (simp_all only: p)
  show ?thesis
    by (simp add: mix_column_def andf7_step_def xor_32_def upt_conv_Cons top low Let_def dbl2 dbl2' xtime_def
      xor.assoc xor.commute xor.left_commute split del: if_split)
qed

text \<open>A test for distinct words that splits the list by one bit after the other.\<close>

fun radix_distinct :: "nat \<Rightarrow> 'a::len word list \<Rightarrow> bool" where
  "radix_distinct 0 xs = (case xs of [] \<Rightarrow> True | [x] \<Rightarrow> True | _ \<Rightarrow> False)"
| "radix_distinct (Suc n) xs \<longleftrightarrow>
     radix_distinct n (filter (\<lambda>x. bit x n) xs) \<and> radix_distinct n (filter (\<lambda>x. \<not> bit x n) xs)"

lemma distinct_filter_split: "distinct (filter P xs) \<Longrightarrow> distinct (filter (\<lambda>x. \<not> P x) xs) \<Longrightarrow> distinct xs"
  by (induction xs) (auto split: if_splits)

lemma radix_distinct: "radix_distinct n xs \<Longrightarrow> distinct xs"
  by (induction n xs rule: radix_distinct.induct)
    (auto split: list.splits intro: distinct_filter_split)

lemma distinct_sbox_table: "distinct sbox_table"
proof (rule radix_distinct)
  show "radix_distinct 8 sbox_table"
    unfolding sbox_table_def by code_simp
qed

text \<open>
  The S-box is a permutation of the bytes, and the row shift moves every byte of the block to
  exactly one place, so no information of the state is lost in either layer.
\<close>
theorem aes_layers_injective:
  "inj sbox \<and> (\<forall>a b. length a = 16 \<longrightarrow> length b = 16 \<longrightarrow> shift_row a = shift_row b \<longrightarrow> a = b)"
proof -
  have l: "length sbox_table = 256"
    unfolding sbox_table_def by simp
  have "inj sbox"
    by (rule injI) (auto simp: sbox_def nth_eq_iff_index_eq [OF distinct_sbox_table] l intro: unsigned_word_eqI)
  moreover have "a = b" if "length a = 16" "length b = 16" "shift_row a = shift_row b" for a b :: bytes
  proof (rule nth_equalityI)
    fix i assume "i < length a"
    then have "i \<in> set [0..<16]" using that(1) by simp
    moreover have "\<forall>i \<in> set [0..<16]. a ! i = b ! i"
      using that(3) by (simp add: shift_row_def upt_conv_Cons eval_nat_numeral)
    ultimately show "a ! i = b ! i" by blast
  qed (use that in simp)
  ultimately show ?thesis by blast
qed

theorem aes_layers_injective_witness:
  "sbox 0 \<noteq> sbox 1 \<and> shift_row (replicate 16 0) \<noteq> shift_row (replicate 16 1)"
proof -
  note inj = aes_layers_injective
  have "replicate 16 (0 :: u8) \<noteq> replicate 16 1" by (simp add: numeral_eq_Suc)
  then have "shift_row (replicate 16 0) \<noteq> shift_row (replicate 16 1)"
    using inj by (metis length_replicate)
  moreover have "sbox 0 \<noteq> sbox 1"
    using inj injD [of sbox 0 1] by auto
  ultimately show ?thesis by blast
qed

text \<open>
  The S-box of TKIP is the one of AES: each entry holds twice and three times the AES S-box's value
  in the field of AES, as the comment at the table says.
\<close>
theorem Sbox1_from_aes: "Sbox1 = map (\<lambda>s. Mk16 (xtime s) (xtime s XOR s)) sbox_table"
  unfolding Sbox1_def sbox_table_def by (simp add: Mk16_def xtime_def)

end
