(* ===== verification/Rx_Defrag.thy ===== *)
theory Rx_Defrag
  imports Rx_Frame Aes_Ccmp
begin

text \<open>
  What the driver does with a received data frame before it looks at the order of frames
  (\<^verbatim>\<open>kernel/core/rtw_recv.c\<close>): duplicates and packet numbers (\<open>recv_decache\<close>, \<open>recv_*_pn_decache\<close>),
  \<open>decryptor\<close>, the fragments of a frame (\<open>recvframe_defrag\<close>, \<open>recvframe_chk_defrag\<close>) and the Michael code of
  the whole (\<open>recvframe_chkmic\<close>). The theorems say what fragments in order become, what becomes of a frame
  with a wrong code, that no frame is lost or given back twice on the way, and where the copy of a
  fragment leaves its buffer.
\<close>

section \<open>Duplicates and packet numbers\<close>

text \<open>\<open>fr_psta\<close> is the station \<open>psta\<close> of the frame; the result is the code's return value.\<close>

definition recv_decache :: "rframe \<Rightarrow> rx_adapter \<Rightarrow> bool \<times> rx_adapter" where
  "recv_decache f ad =
     (let sta = stainfo_buf ad (fr_psta f);
          tid = unat (fr_priority f);
          seq_ctrl = push_bit 4 (fr_seq_num f) OR ucast (fr_frag_num f AND 0xf)
      in if 15 < tid then (False, ad)
         else if seq_ctrl = tid_rxseq sta ! tid then
           (False, set_sta (fr_psta f) (sta\<lparr>duplicate_cnt := duplicate_cnt sta + 1\<rparr>) ad)
         else (True, set_sta (fr_psta f) (sta\<lparr>tid_rxseq := (tid_rxseq sta)[tid := seq_ctrl]\<rparr>) ad))"

definition PN_LESS_CHK :: "u64 \<Rightarrow> u64 \<Rightarrow> bool" where
  "PN_LESS_CHK a b \<longleftrightarrow> (a - b) AND 0x800000000000 \<noteq> 0"

definition VALID_PN_CHK :: "u64 \<Rightarrow> u64 \<Rightarrow> bool" where
  "VALID_PN_CHK new old \<longleftrightarrow> old = 0 \<or> PN_LESS_CHK old new"

definition CCMPH_2_PN :: "u64 \<Rightarrow> u64" where
  "CCMPH_2_PN ch = (ch AND 0xffff) OR drop_bit 16 (ch AND 0xffffffff00000000)"

definition CCMPH_2_KEYID :: "u64 \<Rightarrow> nat" where
  "CCMPH_2_KEYID ch = unat (drop_bit 30 (ch AND 0xc0000000))"

definition recv_ucast_pn_decache :: "rframe \<Rightarrow> rx_adapter \<Rightarrow> (bool \<times> rx_adapter) res" where
  "recv_ucast_pn_decache f ad =
     (let sta = stainfo_buf ad (fr_psta f);
          tid = unat (fr_priority f)
      in if 15 < tid then Inr (False, ad)
         else if fr_encrypt f = AES then
           rbind (mem_get (fr_buf f) (rx_data f + unat (fr_hdrlen f)) 8) (\<lambda>iv.
           (let pkt_pn = CCMPH_2_PN (of_le_bytes iv);
                curr_pn = CCMPH_2_PN (of_le_bytes (rx_iv sta ! tid))
            in if \<not> VALID_PN_CHK pkt_pn curr_pn then Inr (True, ad)
               else Inr (True, set_sta (fr_psta f)
                      (sta\<lparr>last_tid := of_nat tid, rx_iv := (rx_iv sta)[tid := iv]\<rparr>) ad)))
         else Inr (True, ad))"

definition recv_bcast_pn_decache :: "rframe \<Rightarrow> rx_adapter \<Rightarrow> (bool \<times> rx_adapter) res" where
  "recv_bcast_pn_decache f ad =
     (if fr_encrypt f = AES \<and> station_mode ad then
        rbind (mem_get (fr_buf f) (rx_data f + unat (fr_hdrlen f)) 8) (\<lambda>iv.
        (let key_id = CCMPH_2_KEYID (of_le_bytes iv);
             pkt_pn = CCMPH_2_PN (of_le_bytes iv)
         in rbind (array_get (iv_seq ad) key_id) (\<lambda>old.
            (let curr_pn = old AND 0x0000ffffffffffff
             in if \<not> VALID_PN_CHK pkt_pn curr_pn then Inr (False, ad)
                else Inr (True, ad\<lparr>iv_seq := (iv_seq ad)[key_id := pkt_pn]\<rparr>)))))
      else Inr (True, ad))"

section \<open>Decryption\<close>

text \<open>The ciphers work on the memory from \<open>rx_data\<close> on.\<close>

definition sec_of :: "rframe \<Rightarrow> sec_recv_frame" where
  "sec_of f =
     \<lparr>rv_data = drop (rx_data f) (fr_buf f), rv_len = unat (fr_len f), rv_encrypt = fr_encrypt f,
      rv_hdrlen = fr_hdrlen f, rv_iv_len = fr_iv_len f, rv_key_index = fr_key_index f, rv_ra = fr_ra f, rv_ta = fr_ta f\<rparr>"

definition with_sec :: "rframe \<Rightarrow> sec_recv_frame \<Rightarrow> rframe" where
  "with_sec f rv = f\<lparr>fr_buf := take (rx_data f) (fr_buf f) @ rv_data rv\<rparr>"

definition rx_key_index :: "rframe \<Rightarrow> rx_adapter \<Rightarrow> nat res" where
  "rx_key_index f ad =
     (if fr_encrypt f = 0 then Inr (fr_key_index f)
      else rbind (mem_get (fr_buf f) (rx_data f + unat (fr_hdrlen f) + 3) 1) (\<lambda>b.
        (let key_index = unat (drop_bit 6 (hd b) AND 0x3)
         in Inr (if 4 < key_index then
                   (if fr_encrypt f = WEP40 \<or> fr_encrypt f = WEP104 then dot11PrivacyKeyIndex (securitypriv ad)
                    else dot118021XGrpKeyid (securitypriv ad))
                 else key_index))))"

definition sw_decrypt :: "rframe \<Rightarrow> rx_adapter \<Rightarrow> (bool \<times> rframe) res" where
  "sw_decrypt f ad =
     (let sp = securitypriv ad;
          key = map_option (\<lambda>s. UncstKey (stainfo_buf ad s)) (rtw_get_stainfo ad (fr_ta f))
      in if fr_encrypt f = WEP40 \<or> fr_encrypt f = WEP104 then
           rbind (rtw_wep_decrypt sp (sec_of f)) (\<lambda>rv. Inr (True, with_sec f rv))
         else if fr_encrypt f = TKIP then
           rbind (rtw_tkip_decrypt sp key (sec_of f)) (\<lambda>(res, rv). Inr (res, with_sec f rv))
         else if fr_encrypt f = AES then
           rbind (rtw_aes_decrypt sp key (aes_stack ad) (sec_of f)) (\<lambda>(res, rv, _). Inr (res, with_sec f rv))
         else Inr (True, f))"

definition decryptor :: "nat \<Rightarrow> rx_adapter \<Rightarrow> (nat option \<times> rx_adapter) res" where
  "decryptor i ad =
     rbind (rx_key_index (frames ad i) ad) (\<lambda>key_index.
     (let f = (frames ad i)\<lparr>fr_key_index := key_index\<rparr>
      in rbind (if fr_encrypt f \<noteq> 0 \<and> fr_bdecrypted f = 0 then
                  rbind (sw_decrypt f ad) (\<lambda>(res, f). Inr (res, f, ad\<lparr>hw_decrypted := False\<rparr>))
                else if fr_bdecrypted f = 1 \<and> 0 < fr_encrypt f \<and> (busetkipkey ad \<or> fr_encrypt f \<noteq> TKIP) then
                  Inr (True, f, ad\<lparr>hw_decrypted := True\<rparr>)
                else Inr (True, f, ad)) (\<lambda>(res, f, ad).
         if res then Inr (Some i, set_frame i (f\<lparr>fr_bdecrypted := 1\<rparr>) ad)
         else Inr (None, rtw_free_recvframe i (set_frame i f ad)))))"

section \<open>The Michael code of a frame\<close>

definition chkmic_key :: "rframe \<Rightarrow> nat \<Rightarrow> rx_adapter \<Rightarrow> bytes res" where
  "chkmic_key f s ad =
     (if IS_MCAST (fr_ra f) then array_get (grprxmickey ad) (fr_key_index f)
      else Inr (tkiprxmickey (stainfo_buf ad s)))"

text \<open>The length is computed in unsigned 32-bit integers.\<close>

definition chkmic_datalen :: "rframe \<Rightarrow> u32" where
  "chkmic_datalen f = fr_len f - ucast (fr_hdrlen f) - ucast (fr_iv_len f) - ucast (fr_icv_len f) - 8"

definition chkmic_compare :: "rframe \<Rightarrow> bytes \<Rightarrow> rx_adapter \<Rightarrow> bool res" where
  "chkmic_compare f mickey ad =
     (let datalen = unat (chkmic_datalen f);
          payload = rx_data f + unat (fr_hdrlen f) + unat (fr_iv_len f)
      in rbind (rtw_seccalctkipmic (mic_stack ad) mickey (drop (rx_data f) (fr_buf f)) (drop payload (fr_buf f))
                  datalen (fr_priority f)) (\<lambda>miccode.
         rbind (mem_get (fr_buf f) (payload + datalen) 8) (\<lambda>framemic. Inr (miccode = framemic))))"

definition recvframe_chkmic :: "nat \<Rightarrow> rx_adapter \<Rightarrow> (bool \<times> rx_adapter) res" where
  "recvframe_chkmic i ad =
     (let f = frames ad i;
          pull = (\<lambda>ad. set_frame i (ignoring (\<lambda>f. recvframe_pull_tail f 8) f) ad)
      in if fr_encrypt f \<noteq> TKIP then Inr (True, ad)
         else
           (case rtw_get_stainfo ad (fr_ta f) of
              None \<Rightarrow> Inr (True, pull ad)
            | Some s \<Rightarrow>
                if IS_MCAST (fr_ra f) \<and> \<not> binstallGrpkey (securitypriv ad) then Inr (False, ad)
                else rbind (chkmic_key f s ad) (\<lambda>mickey.
                rbind (chkmic_compare f mickey ad) (\<lambda>same.
                  if \<not> same then
                    (let report = \<not> (IS_MCAST (fr_ra f) \<and> fr_key_index f \<noteq> mlme_key_index ad)
                     in Inr (False, pull (if fr_bdecrypted f = 1 \<and> report
                               then ad\<lparr>mic_errors := mic_errors ad @ [(s, IS_MCAST (fr_ra f))]\<rparr> else ad)))
                  else
                    Inr (True, pull (if \<not> bcheck_grpkey ad \<and> IS_MCAST (fr_ra f)
                               then ad\<lparr>bcheck_grpkey := True\<rparr> else ad))))))"

section \<open>Fragments\<close>

text \<open>
  The loop of \<open>recvframe_defrag\<close>: frame \<open>i\<close> collects the fragments that follow it. The copy is made before
  \<open>recvframe_put\<close> looks whether there is room.
\<close>

fun defrag_loop :: "nat \<Rightarrow> u8 \<Rightarrow> nat list \<Rightarrow> rx_adapter \<Rightarrow> (bool \<times> rx_adapter) res" where
  "defrag_loop i curfragnum [] ad = Inr (True, ad)"
| "defrag_loop i curfragnum (n # ns) ad =
     (let nf = frames ad n
      in if curfragnum \<noteq> fr_frag_num nf then Inr (False, ad)
         else
           (let nf = ignoring (\<lambda>f. recvframe_pull f (unat (fr_hdrlen f + fr_iv_len f))) nf;
                f = ignoring (\<lambda>f. recvframe_pull_tail f (unat (fr_icv_len f))) (frames ad i)
            in rbind (mem_get (fr_buf nf) (rx_data nf) (unat (fr_len nf))) (\<lambda>data.
               rbind (memcpy_at (fr_buf f) (rx_tail f) data) (\<lambda>buf.
               (let f = ignoring (\<lambda>f. recvframe_put f (unat (fr_len nf))) (f\<lparr>fr_buf := buf\<rparr>)
                in defrag_loop i (curfragnum + 1) ns
                     (set_frame i (f\<lparr>fr_icv_len := fr_icv_len nf\<rparr>) (set_frame n nf ad)))))))"

definition recvframe_defrag :: "nat \<Rightarrow> rx_adapter \<Rightarrow> (nat option \<times> rx_adapter) res" where
  "recvframe_defrag s ad =
     (case defrag_q (stainfo_buf ad s) of
        [] \<Rightarrow> Inl Use_after_free
      | i # rest \<Rightarrow>
          (let ad = rtw_list_delete i ad;
               give_up = (\<lambda>ad. (None, rtw_free_recvframe_queue (defrag_q (stainfo_buf ad s)) ad))
           in if fr_frag_num (frames ad i) \<noteq> 0 then Inr (give_up (rtw_free_recvframe i ad))
              else rbind (defrag_loop i 1 rest ad) (\<lambda>(ok, ad).
                Inr (if ok then (Some i, rtw_free_recvframe_queue (defrag_q (stainfo_buf ad s)) ad)
                     else give_up (rtw_free_recvframe i ad)))))"

text \<open>
  The station whose queue a fragment goes to: none for a data frame of an unknown sender; other frames
  of one go to the station for broadcasts.
\<close>

definition defrag_sta :: "rframe \<Rightarrow> rx_adapter \<Rightarrow> nat option res" where
  "defrag_sta f ad =
     (case rtw_get_stainfo ad (fr_ta f) of
        Some s \<Rightarrow> Inr (Some s)
      | None \<Rightarrow>
          rbind (mem_get (fr_buf f) (rx_data f) 2) (\<lambda>fc.
          if hd fc AND 0x0c \<noteq> 0x08 then
            (case rtw_get_stainfo ad bc_addr of None \<Rightarrow> Inl Null_deref | Some s \<Rightarrow> Inr (Some s))
          else Inr None))"

definition enqueue_defrag :: "nat \<Rightarrow> nat \<Rightarrow> rx_adapter \<Rightarrow> rx_adapter" where
  "enqueue_defrag s i ad =
     set_sta s ((stainfo_buf ad s)\<lparr>defrag_q := defrag_q (stainfo_buf ad s) @ [i]\<rparr>) ad"

definition chk_defrag_queue :: "nat \<Rightarrow> rx_adapter \<Rightarrow> (nat option \<times> rx_adapter) res" where
  "chk_defrag_queue i ad =
     (let f = frames ad i
      in if fr_mfrag f = 0 \<and> fr_frag_num f = 0 then Inr (Some i, ad)
         else rbind (defrag_sta f ad) (\<lambda>q.
           if fr_mfrag f = 1 then
             (case q of
                Some s \<Rightarrow>
                  (let ad = (if fr_frag_num f = 0 then rtw_free_recvframe_queue (defrag_q (stainfo_buf ad s)) ad else ad)
                   in Inr (None, enqueue_defrag s i ad))
              | None \<Rightarrow> Inr (None, rtw_free_recvframe i ad))
           else if fr_mfrag f = 0 then
             (case q of
                Some s \<Rightarrow> recvframe_defrag s (enqueue_defrag s i ad)
              | None \<Rightarrow> Inr (None, rtw_free_recvframe i ad))
           else Inr (None, ad)))"

definition recvframe_chk_defrag :: "nat \<Rightarrow> rx_adapter \<Rightarrow> (nat option \<times> rx_adapter) res" where
  "recvframe_chk_defrag i ad =
     rbind (chk_defrag_queue i ad) (\<lambda>(r, ad).
     (case r of
        None \<Rightarrow> Inr (None, ad)
      | Some j \<Rightarrow>
          if fr_privacy (frames ad j) = 0 then Inr (Some j, ad)
          else rbind (recvframe_chkmic j ad) (\<lambda>(ok, ad).
            Inr (if ok then (Some j, ad) else (None, rtw_free_recvframe j ad)))))"

section \<open>One fragment\<close>

definition body :: "rframe \<Rightarrow> bytes" where
  "body f = drop (unat (fr_hdrlen f + fr_iv_len f)) (contents f)"

text \<open>Everything of a frame but its memory, its pointers and the length of its check value.\<close>

definition same_attrib :: "rframe \<Rightarrow> rframe \<Rightarrow> bool" where
  "same_attrib f g \<longleftrightarrow> (\<exists>b d t l c. g = f\<lparr>fr_buf := b, rx_data := d, rx_tail := t, fr_len := l, fr_icv_len := c\<rparr>)"

lemma same_attrib_refl [simp]: "same_attrib f f"
  unfolding same_attrib_def by (intro exI [of _ "fr_buf f"] exI [of _ "rx_data f"] exI [of _ "rx_tail f"] exI [of _ "fr_len f"] exI [of _ "fr_icv_len f"]) simp

lemma same_attrib_trans: "same_attrib f g \<Longrightarrow> same_attrib g h \<Longrightarrow> same_attrib f h"
  unfolding same_attrib_def by force

lemma same_attrib_fields:
  "same_attrib f g \<Longrightarrow> fr_privacy g = fr_privacy f \<and> fr_encrypt g = fr_encrypt f \<and> fr_ta g = fr_ta f \<and> fr_ra g = fr_ra f \<and>
     fr_hdrlen g = fr_hdrlen f \<and> fr_iv_len g = fr_iv_len f \<and> fr_key_index g = fr_key_index f \<and>
     fr_bdecrypted g = fr_bdecrypted f \<and> fr_priority g = fr_priority f \<and> fr_qos g = fr_qos f \<and> fr_ctrl g = fr_ctrl f"
  unfolding same_attrib_def by auto

lemma contents_overwrite:
  assumes "d \<le> a" and "a \<le> length b"
  shows "take (a + length data - d) (drop d (take a b @ data @ r)) = take (a - d) (drop d b) @ data"
proof -
  have "drop d (take a b @ data @ r) = take (a - d) (drop d b) @ data @ r"
    using assms by (simp add: drop_take)
  moreover have "length (take (a - d) (drop d b)) = a - d" and "a + length data - d = (a - d) + length data"
    using assms by simp_all
  ultimately show ?thesis by simp
qed

lemma append_fragment:
  assumes "rframe_ok f" and "unat (fr_icv_len f) \<le> length (contents f)" and "rx_tail f + length data \<le> length (fr_buf f)"
    and "length (fr_buf f) < 2 ^ 32"
  defines "f1 \<equiv> ignoring (\<lambda>f. recvframe_pull_tail f (unat (fr_icv_len f))) f"
  obtains buf f2 where "memcpy_at (fr_buf f1) (rx_tail f1) data = Inr buf"
    and "ignoring (\<lambda>f. recvframe_put f (length data)) (f1\<lparr>fr_buf := buf\<rparr>) = f2"
    and "rframe_ok f2" and "contents f2 = take (length (contents f) - unat (fr_icv_len f)) (contents f) @ data"
    and "length (fr_buf f2) = length (fr_buf f)" and "rx_tail f2 \<le> rx_tail f + length data" and "same_attrib f f2"
proof -
  define icv where "icv = unat (fr_icv_len f)"
  define a where "a = rx_tail f - icv"
  have ok: "rx_data f \<le> rx_tail f" "rx_tail f \<le> length (fr_buf f)" "unat (fr_len f) = rx_tail f - rx_data f"
    using assms(1) by (simp_all add: rframe_ok_def)
  have "rx_data f + icv \<le> rx_tail f"
    using assms(1,2) ok(1) by (simp add: icv_def)
  then have da: "rx_data f \<le> a" and aB: "a + length data \<le> length (fr_buf f)" and at: "rx_tail f = a + icv"
    using assms(3) by (simp_all add: a_def)
  have f1: "f1 = f\<lparr>rx_tail := a, fr_len := fr_len f - of_nat icv\<rparr>"
    using da at by (simp add: f1_def ignoring_def recvframe_pull_tail_def icv_def)
  define buf where "buf = take a (fr_buf f) @ data @ drop (a + length data) (fr_buf f)"
  have m: "memcpy_at (fr_buf f1) (rx_tail f1) data = Inr buf"
    using aB by (simp add: memcpy_at_def f1 buf_def)
  have lb: "length buf = length (fr_buf f)"
    using aB by (simp add: buf_def)
  define f2 where "f2 = f1\<lparr>fr_buf := buf, rx_tail := a + length data, fr_len := fr_len f1 + of_nat (length data)\<rparr>"
  have p: "ignoring (\<lambda>f. recvframe_put f (length data)) (f1\<lparr>fr_buf := buf\<rparr>) = f2"
    using aB lb by (simp add: ignoring_def recvframe_put_def f1 f2_def)
  have "unat (fr_len f - of_nat icv) = a - rx_data f"
    using unat_minus_of_nat [of icv "fr_len f"] ok(3) at da by simp
  then have "unat (fr_len f - of_nat icv + of_nat (length data)) = a + length data - rx_data f"
    using unat_plus_of_nat [of "fr_len f - of_nat icv" "length data"] assms(4) aB da by simp
  then have "rframe_ok f2"
    using assms(4) aB da lb by (simp add: rframe_ok_def f2_def f1)
  moreover have "contents f2 = take (length (contents f) - icv) (contents f) @ data"
  proof -
    have "take (a - rx_data f) (drop (rx_data f) (fr_buf f)) = take (length (contents f) - icv) (contents f)"
    proof -
      have "length (contents f) - icv = a - rx_data f" using assms(1) at by simp
      then show ?thesis using at by (simp add: contents_def min_def)
    qed
    moreover have "contents f2 = take (a + length data - rx_data f) (drop (rx_data f) buf)"
      by (simp add: contents_def f2_def f1)
    moreover have "\<dots> = take (a - rx_data f) (drop (rx_data f) (fr_buf f)) @ data"
      unfolding buf_def using aB da by (intro contents_overwrite) simp_all
    ultimately show ?thesis by (simp only:)
  qed
  moreover have "same_attrib f f2"
    unfolding same_attrib_def f2_def f1
    by (intro exI [of _ buf] exI [of _ "rx_data f"] exI [of _ "a + length data"] exI [of _ "fr_len f - of_nat icv + of_nat (length data)"] exI [of _ "fr_icv_len f"]) simp
  ultimately show ?thesis
    using lb at by (intro that [OF m p]) (simp_all add: f2_def f1 icv_def)
qed

section \<open>All fragments of a frame\<close>

text \<open>What the fragments \<open>fs\<close> make of a first fragment with the contents \<open>acc\<close> and \<open>icv\<close> bytes of check value.\<close>

fun glue :: "bytes \<Rightarrow> nat \<Rightarrow> rframe list \<Rightarrow> bytes" where
  "glue acc icv [] = acc"
| "glue acc icv (f # fs) = glue (take (length acc - icv) acc @ body f) (unat (fr_icv_len f)) fs"

definition fragment :: "nat \<Rightarrow> rframe \<Rightarrow> bool" where
  "fragment k f \<longleftrightarrow> rframe_ok f \<and> fr_frag_num f = of_nat k \<and> unat (fr_hdrlen f + fr_iv_len f) \<le> length (contents f) \<and>
     unat (fr_icv_len f) \<le> length (body f)"

lemma pulled_fragment:
  assumes "fragment k f"
  obtains g where "ignoring (\<lambda>f. recvframe_pull f (unat (fr_hdrlen f + fr_iv_len f))) f = g"
    and "contents g = body f" and "rframe_ok g" and "mem_get (fr_buf g) (rx_data g) (unat (fr_len g)) = Inr (body f)"
    and "fr_icv_len g = fr_icv_len f"
proof -
  have ok: "rframe_ok f" and l: "unat (fr_hdrlen f + fr_iv_len f) \<le> length (contents f)"
    using assms by (auto simp only: fragment_def)
  obtain g where g: "recvframe_pull f (unat (fr_hdrlen f + fr_iv_len f)) = Some g"
    using recvframe_pull_ok(1) [OF ok] l by metis
  have c: "rframe_ok g" "contents g = body f"
    using recvframe_pull_ok(2) [OF ok g] by (simp_all add: body_def)
  have "mem_get (fr_buf g) (rx_data g) (unat (fr_len g)) = Inr (contents g)"
    using c(1) by (simp add: mem_get_def contents_def rframe_ok_def)
  moreover have "fr_icv_len g = fr_icv_len f"
    using g by (auto simp: recvframe_pull_def split: if_splits)
  ultimately show ?thesis
    using that [of g] g c by (simp add: ignoring_def)
qed

lemma defrag_loop_glue:
  assumes "distinct (i # ns)" and "\<And>k. k < length ns \<Longrightarrow> fragment (c + k) (frames ad (ns ! k))"
    and "rframe_ok (frames ad i)" and "unat (fr_icv_len (frames ad i)) \<le> length (contents (frames ad i))"
    and "rx_tail (frames ad i) + (\<Sum>n\<leftarrow>ns. length (body (frames ad n))) \<le> length (fr_buf (frames ad i))"
    and "length (fr_buf (frames ad i)) < 2 ^ 32"
  shows "\<exists>fs. defrag_loop i (of_nat c) ns ad = Inr (True, ad\<lparr>frames := fs\<rparr>) \<and> rframe_ok (fs i) \<and>
    contents (fs i) = glue (contents (frames ad i)) (unat (fr_icv_len (frames ad i))) (map (frames ad) ns) \<and>
    fr_icv_len (fs i) = fr_icv_len (last (map (frames ad) (i # ns))) \<and> same_attrib (frames ad i) (fs i)"
  using assms
proof (induction ns arbitrary: c ad)
  case Nil
  show ?case
    by (rule exI [of _ "frames ad"]) (use Nil.prems in simp)
next
  case (Cons n ns)
  define f where "f = frames ad i"
  have fn: "fragment c (frames ad n)" using Cons.prems(2) [of 0] by simp
  obtain g where g: "ignoring (\<lambda>f. recvframe_pull f (unat (fr_hdrlen f + fr_iv_len f))) (frames ad n) = g"
    "contents g = body (frames ad n)" "rframe_ok g" "mem_get (fr_buf g) (rx_data g) (unat (fr_len g)) = Inr (body (frames ad n))"
    "fr_icv_len g = fr_icv_len (frames ad n)"
    using pulled_fragment [OF fn] by blast
  have lg: "unat (fr_len g) = length (body (frames ad n))"
    using fr_len_contents [OF g(3)] g(2) by simp
  have room: "rx_tail f + length (body (frames ad n)) \<le> length (fr_buf f)"
    using Cons.prems(5) by (simp add: f_def)
  let ?f1 = "ignoring (\<lambda>f. recvframe_pull_tail f (unat (fr_icv_len f))) f"
  obtain buf f2 where f2: "memcpy_at (fr_buf ?f1) (rx_tail ?f1) (body (frames ad n)) = Inr buf"
    "ignoring (\<lambda>f. recvframe_put f (length (body (frames ad n)))) (?f1\<lparr>fr_buf := buf\<rparr>) = f2"
    "rframe_ok f2" "contents f2 = take (length (contents f) - unat (fr_icv_len f)) (contents f) @ body (frames ad n)"
    "length (fr_buf f2) = length (fr_buf f)" "rx_tail f2 \<le> rx_tail f + length (body (frames ad n))" "same_attrib f f2"
    using append_fragment [of f "body (frames ad n)"] Cons.prems(3,4,6) room by (auto simp: f_def)
  define f3 where "f3 = f2\<lparr>fr_icv_len := fr_icv_len (frames ad n)\<rparr>"
  define ad' where "ad' = set_frame i f3 (set_frame n g ad)"
  have fr: "frames ad' i = f3" "\<And>m. m \<noteq> i \<Longrightarrow> m \<noteq> n \<Longrightarrow> frames ad' m = frames ad m"
    by (simp_all add: ad'_def set_frame_def)
  have out: "m \<noteq> i \<and> m \<noteq> n" if "m \<in> set ns" for m
    using Cons.prems(1) that by auto
  have ns: "map (frames ad') ns = map (frames ad) ns"
    using out by (intro map_cong refl fr(2)) auto
  have cc: "contents f3 = contents f2" "rframe_ok f3 = rframe_ok f2"
    by (simp_all add: f3_def contents_def rframe_ok_def)
  have "\<exists>fs. defrag_loop i (of_nat (c + 1)) ns ad' = Inr (True, ad'\<lparr>frames := fs\<rparr>) \<and> rframe_ok (fs i) \<and>
    contents (fs i) = glue (contents (frames ad' i)) (unat (fr_icv_len (frames ad' i))) (map (frames ad') ns) \<and>
    fr_icv_len (fs i) = fr_icv_len (last (map (frames ad') (i # ns))) \<and> same_attrib (frames ad' i) (fs i)"
  proof (rule Cons.IH)
    show "fragment (c + 1 + k) (frames ad' (ns ! k))" if "k < length ns" for k
      using Cons.prems(2) [of "k + 1"] that out [of "ns ! k"] by (simp add: fr(2))
    show "unat (fr_icv_len (frames ad' i)) \<le> length (contents (frames ad' i))"
      using fn f2(3,4) by (simp add: fr(1) cc) (simp add: f3_def fragment_def)
    have "(\<Sum>m\<leftarrow>ns. length (body (frames ad' m))) = (\<Sum>m\<leftarrow>ns. length (body (frames ad m)))"
      using arg_cong [OF ns, of "\<lambda>l. sum_list (map (\<lambda>f. length (body f)) l)"] by (simp add: o_def)
    then show "rx_tail (frames ad' i) + (\<Sum>m\<leftarrow>ns. length (body (frames ad' m))) \<le> length (fr_buf (frames ad' i))"
      using Cons.prems(5) f2(5,6) by (simp add: fr(1) f3_def f_def)
  qed (use Cons.prems f2 cc in \<open>simp_all add: fr(1) f3_def f_def\<close>)
  then obtain fs where fs: "defrag_loop i (of_nat (c + 1)) ns ad' = Inr (True, ad'\<lparr>frames := fs\<rparr>)" "rframe_ok (fs i)"
    "contents (fs i) = glue (contents f3) (unat (fr_icv_len f3)) (map (frames ad) ns)" "same_attrib f3 (fs i)"
    "fr_icv_len (fs i) = fr_icv_len (last (f3 # map (frames ad) ns))"
    unfolding list.map ns fr(1) by blast
  have "fr_icv_len (last (f3 # map (frames ad) ns)) = fr_icv_len (last (map (frames ad) (i # n # ns)))"
    by (cases ns rule: rev_cases) (simp_all add: f3_def)
  have "same_attrib f2 f3"
    unfolding same_attrib_def f3_def by (intro exI [of _ "fr_buf f2"] exI [of _ "rx_data f2"] exI [of _ "rx_tail f2"] exI [of _ "fr_len f2"]) auto
  then have at: "same_attrib f (fs i)"
    using f2(7) fs(4) same_attrib_trans by blast
  have "of_nat c = fr_frag_num (frames ad n)" using fn by (simp add: fragment_def)
  then have step: "defrag_loop i (of_nat c) (n # ns) ad = defrag_loop i (of_nat c + 1) ns ad'"
    unfolding defrag_loop.simps(2) Let_def g(1) f_def [symmetric] unfolding g(4) unfolding rbind_Inr f2(1) lg f2(2)
    by (simp add: ad'_def f3_def g(5))
  have "ad'\<lparr>frames := fs\<rparr> = ad\<lparr>frames := fs\<rparr>"
    by (simp add: ad'_def set_frame_def)
  then show ?case
    unfolding step using fs [unfolded of_nat_add of_nat_1] at cc(1) f2(4)
    by (intro exI [of _ fs]) (simp add: f_def f3_def)
qed

section \<open>No frame is lost on the way\<close>

lemma pool_ok_delete:
  assumes "pool_ok held ad" and "s < NUM_STA" and "i \<in> set (sta_places (stainfo_buf ad s))"
  shows "pool_ok (add_mset i held) (rtw_list_delete i ad)"
proof -
  have w: "rxpool.whole held ad" using assms(1) by (simp add: pool_ok_def)
  have "i \<in># places ad" using sta_in_places [OF assms(2), of ad] assms(3) by auto
  then have "count (places ad) i = 1"
    using rxpool.whole_count [OF w, of i] by (simp add: count_greater_zero_iff [symmetric] del: count_greater_zero_iff)
  then have "add_mset i (filter_mset (\<lambda>j. j \<noteq> i) (places ad)) = places ad" by (rule rxpool.filter_present)
  moreover have "places (rtw_list_delete i ad) + add_mset i held = add_mset i (filter_mset (\<lambda>j. j \<noteq> i) (places ad)) + held"
    by simp
  ultimately have "rxpool.whole (add_mset i held) (rtw_list_delete i ad)"
    using w by (simp only: rxpool.whole_def)
  moreover have "filter (\<lambda>j. j \<noteq> i) (free_recv_queue ad) = free_recv_queue ad"
    using sta_places_distinct(2) [OF w assms(2)] assms(3) by (intro filter_True) auto
  ultimately show ?thesis
    using assms(1) by (simp add: pool_ok_def rtw_list_delete_def)
qed

lemma pool_ok_enqueue:
  assumes "pool_ok (add_mset i held) ad" and "s < NUM_STA"
  shows "pool_ok held (enqueue_defrag s i ad)"
proof -
  let ?st = "(stainfo_buf ad s)\<lparr>defrag_q := defrag_q (stainfo_buf ad s) @ [i]\<rparr>"
  have "mset (sta_places ?st) = add_mset i (mset (sta_places (stainfo_buf ad s)))"
    by (simp add: sta_places_def pending_ids_def)
  then have "places (set_sta s ?st ad) = add_mset i (places ad)"
    using places_set_sta [OF assms(2), of ?st ad] by simp
  then show ?thesis
    using assms(1) by (simp add: pool_ok_def rxpool.whole_def enqueue_defrag_def) (simp add: set_sta_def)
qed

lemma pool_ok_defrag_q:
  assumes "pool_ok held ad" and "s < NUM_STA"
  shows "pool_ok held (rtw_free_recvframe_queue (defrag_q (stainfo_buf ad s)) ad)"
proof (rule pool_ok_free_queue [OF assms])
  show "set (defrag_q (stainfo_buf ad s)) \<subseteq> set (sta_places (stainfo_buf ad s))"
    by (simp add: sta_places_def)
  show "distinct (defrag_q (stainfo_buf ad s))"
    using sta_places_distinct(1) [of held ad s] assms by (simp add: pool_ok_def sta_places_def)
qed

lemma pool_ok_frames [simp]: "pool_ok held (ad\<lparr>frames := fs\<rparr>) = pool_ok held ad"
proof (rule pool_ok_cong)
  show "places (ad\<lparr>frames := fs\<rparr>) = places ad" by (rule places_cong) simp_all
qed simp_all

lemma defrag_loop_frames: "defrag_loop i c ns ad = Inr (ok, ad') \<Longrightarrow> \<exists>fs. ad' = ad\<lparr>frames := fs\<rparr>"
proof (induction i c ns ad rule: defrag_loop.induct)
  case (1 i c ad)
  then show ?case by (intro exI [of _ "frames ad"]) simp
next
  case (2 i c n ns ad)
  show ?case
  proof (cases "c = fr_frag_num (frames ad n)")
    case False
    then show ?thesis using 2(2) by (intro exI [of _ "frames ad"]) simp
  next
    case True
    then obtain g f where "defrag_loop i (c + 1) ns (set_frame i f (set_frame n g ad)) = Inr (ok, ad')"
      and "\<exists>fs. ad' = (set_frame i f (set_frame n g ad))\<lparr>frames := fs\<rparr>"
      using 2 by (auto simp: rbind_eq_Inr Let_def)
    then show ?thesis by (auto simp: set_frame_def)
  qed
qed

lemma recvframe_defrag_pool:
  assumes "pool_ok held ad" and "s < NUM_STA" and "recvframe_defrag s ad = Inr (r, ad')"
  shows "pool_ok (case r of None \<Rightarrow> held | Some j \<Rightarrow> add_mset j held) ad'"
proof -
  obtain i rest where q: "defrag_q (stainfo_buf ad s) = i # rest"
    using assms(3) by (auto simp: recvframe_defrag_def split: list.splits)
  define d where "d = rtw_list_delete i ad"
  have d: "pool_ok (add_mset i held) d"
    unfolding d_def by (rule pool_ok_delete [OF assms(1,2)]) (simp add: sta_places_def q)
  have give: "pool_ok held (rtw_free_recvframe_queue (defrag_q (stainfo_buf (rtw_free_recvframe i e) s)) (rtw_free_recvframe i e))"
    if "pool_ok (add_mset i held) e" for e
    using pool_ok_defrag_q [OF pool_ok_free_held [OF that] assms(2)] .
  show ?thesis
  proof (cases "fr_frag_num (frames d i) = 0")
    case False
    then show ?thesis
      using assms(3) give [OF d] by (auto simp: recvframe_defrag_def q Let_def simp flip: d_def)
  next
    case True
    then obtain ok e where l: "defrag_loop i 1 rest d = Inr (ok, e)"
      and r: "(r, ad') = (if ok then (Some i, rtw_free_recvframe_queue (defrag_q (stainfo_buf e s)) e)
        else (None, rtw_free_recvframe_queue (defrag_q (stainfo_buf (rtw_free_recvframe i e) s)) (rtw_free_recvframe i e)))"
      using assms(3) by (auto simp: recvframe_defrag_def q Let_def rbind_eq_Inr simp flip: d_def)
    have e: "pool_ok (add_mset i held) e"
      using defrag_loop_frames [OF l] d by auto
    then show ?thesis
      using r give [OF e] pool_ok_defrag_q [OF e assms(2)] by (cases ok) simp_all
  qed
qed

lemma defrag_sta_bound: "pool_ok held ad \<Longrightarrow> defrag_sta f ad = Inr (Some s) \<Longrightarrow> s < NUM_STA"
  using rtw_get_stainfo_bound [of held ad] by (auto simp: defrag_sta_def rbind_eq_Inr split: option.splits if_splits)

lemma chk_defrag_queue_pool:
  assumes "pool_ok (add_mset i held) ad" and "fr_mfrag (frames ad i) \<le> 1" and "chk_defrag_queue i ad = Inr (r, ad')"
  shows "pool_ok (case r of None \<Rightarrow> held | Some j \<Rightarrow> add_mset j held) ad'"
proof -
  have m: "fr_mfrag (frames ad i) = 0 \<or> fr_mfrag (frames ad i) = 1"
    using assms(2) by (auto simp: word_le_nat_alt word_unat_eq_iff)
  show ?thesis
  proof (cases "fr_mfrag (frames ad i) = 0 \<and> fr_frag_num (frames ad i) = 0")
    case True
    then show ?thesis using assms(1,3) by (auto simp: chk_defrag_queue_def)
  next
    case False
    then obtain q where q: "defrag_sta (frames ad i) ad = Inr q"
      using assms(3) by (auto simp: chk_defrag_queue_def Let_def rbind_eq_Inr)
    show ?thesis
    proof (cases q)
      case None
      then show ?thesis
        using assms(3) False m pool_ok_free_held [OF assms(1)] by (auto simp: chk_defrag_queue_def q)
    next
      case (Some s)
      then have s: "s < NUM_STA" using defrag_sta_bound [OF assms(1)] q by simp
      have "pool_ok held (enqueue_defrag s i (rtw_free_recvframe_queue (defrag_q (stainfo_buf ad s)) ad))" "pool_ok held (enqueue_defrag s i ad)"
        using pool_ok_enqueue [OF pool_ok_defrag_q [OF assms(1) s] s] pool_ok_enqueue [OF assms(1) s] by simp_all
      then show ?thesis
        using assms(3) False m Some recvframe_defrag_pool [OF _ s, of held "enqueue_defrag s i ad" r ad']
        by (auto simp: chk_defrag_queue_def q Let_def split: if_splits)
    qed
  qed
qed

lemma recvframe_chkmic_pool:
  assumes "pool_ok held ad" and "recvframe_chkmic i ad = Inr (ok, ad')"
  shows "pool_ok held ad'"
proof -
  have "pool_ok held (ad\<lparr>mic_errors := x\<rparr>) = pool_ok held ad" "pool_ok held (ad\<lparr>bcheck_grpkey := y\<rparr>) = pool_ok held ad" for x y
    by (rule pool_ok_cong; simp add: places_def)+
  then show ?thesis
    using assms by (auto simp: recvframe_chkmic_def Let_def rbind_eq_Inr split: if_splits option.splits)
qed

lemma recvframe_chk_defrag_pool:
  assumes "pool_ok (add_mset i held) ad" and "fr_mfrag (frames ad i) \<le> 1" and "recvframe_chk_defrag i ad = Inr (r, ad')"
  shows "pool_ok (case r of None \<Rightarrow> held | Some j \<Rightarrow> add_mset j held) ad'"
proof -
  obtain r1 ad1 where q: "chk_defrag_queue i ad = Inr (r1, ad1)"
    using assms(3) by (auto simp: recvframe_chk_defrag_def rbind_eq_Inr)
  note p = chk_defrag_queue_pool [OF assms(1,2) q]
  show ?thesis
  proof (cases r1)
    case (Some j)
    show ?thesis
    proof (cases "fr_privacy (frames ad1 j) = 0")
      case False
      then obtain ok ad2 where "recvframe_chkmic j ad1 = Inr (ok, ad2)" "(r, ad') = (if ok then (Some j, ad2) else (None, rtw_free_recvframe j ad2))"
        using assms(3) Some by (auto simp: recvframe_chk_defrag_def q rbind_eq_Inr)
      moreover from this have "pool_ok (add_mset j held) ad2"
        using recvframe_chkmic_pool p Some by simp
      ultimately show ?thesis
        using pool_ok_free_held by (cases ok) auto
    qed (use assms(3) Some p in \<open>auto simp: recvframe_chk_defrag_def q\<close>)
  qed (use assms(3) p in \<open>auto simp: recvframe_chk_defrag_def q\<close>)
qed


section \<open>What stays the same while fragments are collected\<close>

text \<open>The table of stations, their addresses and keys and the settings of the adapter.\<close>

definition config :: "rx_adapter \<Rightarrow> rx_adapter \<Rightarrow> bool" where
  "config ad ad' \<longleftrightarrow> sta_hash ad' = sta_hash ad \<and>
     (\<forall>s. mac_addr (stainfo_buf ad' s) = mac_addr (stainfo_buf ad s) \<and>
          tkiprxmickey (stainfo_buf ad' s) = tkiprxmickey (stainfo_buf ad s)) \<and>
     securitypriv ad' = securitypriv ad \<and> grprxmickey ad' = grprxmickey ad \<and> mlme_key_index ad' = mlme_key_index ad \<and>
     bcheck_grpkey ad' = bcheck_grpkey ad \<and> mic_stack ad' = mic_stack ad \<and> mic_errors ad' = mic_errors ad"

lemma config_refl [simp]: "config ad ad"
  by (simp add: config_def)

lemma config_trans: "config a b \<Longrightarrow> config b c \<Longrightarrow> config a c"
  by (simp add: config_def)

lemma config_steps [simp]:
  "config ad (rtw_list_delete i ad)" "config ad (rtw_free_recvframe i ad)" "config ad (enqueue_defrag s i ad)"
  "config ad (set_frame i f ad)" "config ad (ad\<lparr>frames := fs\<rparr>)"
  by (simp_all add: config_def rtw_list_delete_def sta_unlink_def rtw_free_recvframe_def set_frame_def Let_def
        enqueue_defrag_def set_sta_def)

lemma config_free_queue [simp]: "config ad (rtw_free_recvframe_queue q ad)"
  unfolding rtw_free_recvframe_queue_def
proof (induction q arbitrary: ad)
  case (Cons i q)
  show ?case using config_trans [OF config_steps(2) Cons.IH] by simp
qed simp

lemma config_get_stainfo: "config ad ad' \<Longrightarrow> rtw_get_stainfo ad' a = rtw_get_stainfo ad a"
  by (simp add: config_def rtw_get_stainfo_def)

lemma frames_free_queue: "j \<notin> set q \<Longrightarrow> frames (rtw_free_recvframe_queue q ad) j = frames ad j"
  unfolding rtw_free_recvframe_queue_def
proof (induction q arbitrary: ad)
  case (Cons i q)
  then show ?case by (simp add: rtw_free_recvframe_def rtw_list_delete_def set_frame_def Let_def)
qed simp

lemma defrag_q_free: "defrag_q (stainfo_buf (rtw_free_recvframe i ad) s) = filter (\<lambda>j. j \<noteq> i) (defrag_q (stainfo_buf ad s))"
  by (simp add: rtw_free_recvframe_def rtw_list_delete_def set_frame_def Let_def sta_unlink_def)

lemma defrag_q_free_queue:
  "defrag_q (stainfo_buf (rtw_free_recvframe_queue q ad) s) = filter (\<lambda>j. j \<notin> set q) (defrag_q (stainfo_buf ad s))"
  unfolding rtw_free_recvframe_queue_def
proof (induction q arbitrary: ad)
  case (Cons i q)
  have "filter (\<lambda>j. j \<notin> set q) (filter (\<lambda>j. j \<noteq> i) xs) = filter (\<lambda>j. j \<notin> set (i # q)) xs" for xs
    by (simp add: conj_commute)
  then show ?case using Cons.IH [of "rtw_free_recvframe i ad"] by (simp add: defrag_q_free)
qed simp

lemma set_free_queue: "set (free_recv_queue (rtw_free_recvframe_queue q ad)) = set q \<union> set (free_recv_queue ad)"
  unfolding rtw_free_recvframe_queue_def by (induction q arbitrary: ad) (auto simp: set_free_recv_queue)

lemma enqueue_defrag_simps [simp]:
  "frames (enqueue_defrag s i ad) = frames ad"
  "defrag_q (stainfo_buf (enqueue_defrag s i ad) s) = defrag_q (stainfo_buf ad s) @ [i]"
  by (simp_all add: enqueue_defrag_def set_sta_def)

lemma held_not_placed: "pool_ok (add_mset i held) ad \<Longrightarrow> s < NUM_STA \<Longrightarrow> i \<notin> set (defrag_q (stainfo_buf ad s))"
  using rxpool.whole_held [of "add_mset i held" ad i] sta_in_places [of s ad] by (auto simp: pool_ok_def sta_places_def)

section \<open>The fragments of a frame, one after the other\<close>

fun feed :: "nat list \<Rightarrow> rx_adapter \<Rightarrow> (nat option \<times> rx_adapter) res" where
  "feed [] ad = Inr (None, ad)"
| "feed (i # is) ad =
     rbind (recvframe_chk_defrag i ad) (\<lambda>(r, ad). case r of None \<Rightarrow> feed is ad | Some j \<Rightarrow> Inr (Some j, ad))"

lemma feed_first:
  assumes "pool_ok (mset (i # is)) ad" and "rtw_get_stainfo ad (fr_ta (frames ad i)) = Some s"
    and "fr_mfrag (frames ad i) = 1" and "fr_frag_num (frames ad i) = 0"
  obtains ad' where "feed (i # is) ad = feed is ad'" and "pool_ok (mset is) ad'" and "config ad ad'"
    and "defrag_q (stainfo_buf ad' s) = [i]" and "\<And>j. j \<in> set (i # is) \<Longrightarrow> frames ad' j = frames ad j"
proof -
  have s: "s < NUM_STA" using rtw_get_stainfo_bound [OF assms(1,2)] .
  define ad1 where "ad1 = rtw_free_recvframe_queue (defrag_q (stainfo_buf ad s)) ad"
  have c: "chk_defrag_queue i ad = Inr (None, enqueue_defrag s i ad1)"
    using assms by (simp add: chk_defrag_queue_def defrag_sta_def ad1_def)
  have "feed (i # is) ad = feed is (enqueue_defrag s i ad1)"
    by (simp add: recvframe_chk_defrag_def c)
  moreover have "pool_ok (mset is) (enqueue_defrag s i ad1)"
    using chk_defrag_queue_pool [of i "mset is" ad None] assms c by simp
  moreover have "config ad (enqueue_defrag s i ad1)"
    unfolding ad1_def using config_trans [OF config_free_queue config_steps(3)] .
  moreover have "defrag_q (stainfo_buf (enqueue_defrag s i ad1) s) = [i]"
    by (simp add: ad1_def defrag_q_free_queue)
  moreover have "frames (enqueue_defrag s i ad1) j = frames ad j" if j: "j \<in> set (i # is)" for j
  proof -
    have "j \<notin> set (defrag_q (stainfo_buf ad s))"
      using held_not_placed [of j "mset (i # is) - {#j#}" ad s] assms(1) s j by simp
    then show ?thesis by (simp add: ad1_def frames_free_queue)
  qed
  ultimately show ?thesis by (rule that)
qed

lemma feed_middle:
  assumes "pool_ok (mset (mid @ is)) ad" and "defrag_q (stainfo_buf ad s) = pre"
    and "\<And>j. j \<in> set mid \<Longrightarrow> rtw_get_stainfo ad (fr_ta (frames ad j)) = Some s \<and> fr_mfrag (frames ad j) = 1 \<and> fr_frag_num (frames ad j) \<noteq> 0"
  shows "\<exists>ad'. feed (mid @ is) ad = feed is ad' \<and> pool_ok (mset is) ad' \<and> config ad ad' \<and>
    defrag_q (stainfo_buf ad' s) = pre @ mid \<and> frames ad' = frames ad"
  using assms
proof (induction mid arbitrary: ad pre)
  case Nil
  then show ?case by (intro exI [of _ ad]) simp
next
  case (Cons m mid)
  have m: "rtw_get_stainfo ad (fr_ta (frames ad m)) = Some s" "fr_mfrag (frames ad m) = 1" "fr_frag_num (frames ad m) \<noteq> 0"
    using Cons.prems(3) [of m] by simp_all
  have c: "chk_defrag_queue m ad = Inr (None, enqueue_defrag s m ad)"
    using m by (simp add: chk_defrag_queue_def defrag_sta_def)
  have f: "feed ((m # mid) @ is) ad = feed (mid @ is) (enqueue_defrag s m ad)"
    by (simp add: recvframe_chk_defrag_def c)
  have "pool_ok (mset (mid @ is)) (enqueue_defrag s m ad)"
    using chk_defrag_queue_pool [of m "mset (mid @ is)" ad None] Cons.prems(1) m(2) c by simp
  moreover have "defrag_q (stainfo_buf (enqueue_defrag s m ad) s) = pre @ [m]"
    using Cons.prems(2) by simp
  ultimately obtain ad' where "feed (mid @ is) (enqueue_defrag s m ad) = feed is ad'" "pool_ok (mset is) ad'"
    "config (enqueue_defrag s m ad) ad'" "defrag_q (stainfo_buf ad' s) = (pre @ [m]) @ mid" "frames ad' = frames ad"
    using Cons.IH [of "enqueue_defrag s m ad" "pre @ [m]"] Cons.prems(3) config_get_stainfo [OF config_steps(3)] by auto
  then show ?case
    unfolding f using config_trans [OF config_steps(3)] by (intro exI [of _ ad']) auto
qed


text \<open>The reassembled frame: the first fragment with the bodies of the others behind it.\<close>

definition reassembled :: "rframe list \<Rightarrow> bytes" where
  "reassembled fs = (case fs of [] \<Rightarrow> [] | f # fs \<Rightarrow> glue (contents f) (unat (fr_icv_len f)) fs)"

definition fits :: "rframe list \<Rightarrow> bool" where
  "fits fs \<longleftrightarrow> rx_tail (hd fs) + (\<Sum>f\<leftarrow>tl fs. length (body f)) \<le> length (fr_buf (hd fs)) \<and> length (fr_buf (hd fs)) < 2 ^ 32"

text \<open>
  \<open>fragments s is ad\<close>: the frames \<open>is\<close> are, in this order, all fragments of a frame of station \<open>s\<close>.
\<close>

definition fragments :: "nat \<Rightarrow> nat list \<Rightarrow> rx_adapter \<Rightarrow> bool" where
  "fragments s is ad \<longleftrightarrow> 2 \<le> length is \<and> length is \<le> 16 \<and>
     (\<forall>k < length is. fragment k (frames ad (is ! k)) \<and>
        fr_mfrag (frames ad (is ! k)) = (if Suc k = length is then 0 else 1) \<and>
        rtw_get_stainfo ad (fr_ta (frames ad (is ! k))) = Some s)"

lemma recvframe_defrag_all:
  assumes "pool_ok {#} ad" and "s < NUM_STA" and "defrag_q (stainfo_buf ad s) = i # ns"
    and "\<And>k. k < Suc (length ns) \<Longrightarrow> fragment k (frames ad ((i # ns) ! k))"
    and "fits (map (frames ad) (i # ns))"
  shows "\<exists>ad'. recvframe_defrag s ad = Inr (Some i, ad') \<and> config ad ad' \<and> defrag_q (stainfo_buf ad' s) = [] \<and>
    rframe_ok (frames ad' i) \<and> contents (frames ad' i) = reassembled (map (frames ad) (i # ns)) \<and>
    fr_icv_len (frames ad' i) = fr_icv_len (last (map (frames ad) (i # ns))) \<and> same_attrib (frames ad i) (frames ad' i) \<and>
    set ns \<subseteq> set (free_recv_queue ad')"
proof -
  have di: "distinct (i # ns)"
    using sta_places_distinct(1) [of "{#}" ad s] assms(1-3) by (simp add: pool_ok_def sta_places_def)
  define d where "d = rtw_list_delete i ad"
  have d: "frames d = frames ad" "defrag_q (stainfo_buf d s) = ns"
    using assms(3) di by (auto simp: d_def rtw_list_delete_def sta_unlink_def intro: filter_True)
  have f0: "fragment 0 (frames ad i)" using assms(4) [of 0] by simp
  have icv: "unat (fr_icv_len (frames d i)) \<le> length (contents (frames d i))"
    using f0 unfolding d by (auto simp: fragment_def body_def)
  have "\<exists>fs. defrag_loop i (of_nat 1) ns d = Inr (True, d\<lparr>frames := fs\<rparr>) \<and> rframe_ok (fs i) \<and>
    contents (fs i) = glue (contents (frames d i)) (unat (fr_icv_len (frames d i))) (map (frames d) ns) \<and>
    fr_icv_len (fs i) = fr_icv_len (last (map (frames d) (i # ns))) \<and> same_attrib (frames d i) (fs i)"
  proof (rule defrag_loop_glue [OF di])
    show "fragment (1 + k) (frames d (ns ! k))" if "k < length ns" for k
      using assms(4) [of "Suc k"] that by (simp add: d)
  qed (use f0 icv assms(5) in \<open>simp_all add: d fragment_def fits_def o_def\<close>)
  then obtain fs where l: "defrag_loop i 1 ns d = Inr (True, d\<lparr>frames := fs\<rparr>)" "rframe_ok (fs i)"
    "contents (fs i) = reassembled (map (frames ad) (i # ns))" "same_attrib (frames ad i) (fs i)"
    "fr_icv_len (fs i) = fr_icv_len (last (map (frames ad) (i # ns)))"
    by (auto simp: d reassembled_def)
  define e where "e = d\<lparr>frames := fs\<rparr>"
  have z: "fr_frag_num (frames d i) = 0" using f0 by (simp add: d fragment_def)
  have r: "recvframe_defrag s ad = Inr (Some i, rtw_free_recvframe_queue ns e)"
    using l(1) z by (simp add: recvframe_defrag_def assms(3) Let_def e_def d flip: d_def)
  have "frames (rtw_free_recvframe_queue ns e) i = fs i"
    using di by (simp add: frames_free_queue e_def)
  moreover have "config ad (rtw_free_recvframe_queue ns e)"
    unfolding e_def d_def by (rule config_trans [OF config_trans [OF config_steps(1) config_steps(5)] config_free_queue])
  moreover have "defrag_q (stainfo_buf (rtw_free_recvframe_queue ns e) s) = []"
    by (simp add: defrag_q_free_queue e_def d)
  ultimately show ?thesis
    using r l by (intro exI [of _ "rtw_free_recvframe_queue ns e"]) (simp add: set_free_queue)
qed

text \<open>
  All fragments in order, up to the check of the Michael code: what was queued for the station is given
  back, and the last fragment makes the whole.
\<close>

lemma feed_fragments:
  assumes "pool_ok (mset is) ad" and "fragments s is ad" and "fits (map (frames ad) is)"
  obtains l ad1 ad2 where "feed is ad = feed [l] ad1" and "chk_defrag_queue l ad1 = Inr (Some (hd is), ad2)"
    and "config ad ad2" and "pool_ok {#hd is#} ad2" and "defrag_q (stainfo_buf ad2 s) = []"
    and "rframe_ok (frames ad2 (hd is))" and "contents (frames ad2 (hd is)) = reassembled (map (frames ad) is)"
    and "fr_icv_len (frames ad2 (hd is)) = fr_icv_len (frames ad (last is))" and "same_attrib (frames ad (hd is)) (frames ad2 (hd is))"
    and "set (tl is) \<subseteq> set (free_recv_queue ad2)"
proof -
  obtain i mid l where is_eq: "is = i # mid @ [l]"
  proof -
    have "is \<noteq> []" "tl is \<noteq> []" using assms(2) by (auto simp: fragments_def) (metis One_nat_def Suc_1 length_tl list.size(3) diff_is_0_eq Suc_n_not_le_n le_trans numeral_2_eq_2)
    then show ?thesis by (metis append_butlast_last_id list.collapse that)
  qed
  have fr: "fragment k (frames ad (is ! k))" "fr_mfrag (frames ad (is ! k)) = (if Suc k = length is then 0 else 1)"
    "rtw_get_stainfo ad (fr_ta (frames ad (is ! k))) = Some s" if "k < length is" for k
    using assms(2) that by (simp_all add: fragments_def)
  have len: "length is \<le> 16" using assms(2) by (simp add: fragments_def)
  obtain ad0 where a0: "feed is ad = feed (mid @ [l]) ad0" "pool_ok (mset (mid @ [l])) ad0" "config ad ad0"
    "defrag_q (stainfo_buf ad0 s) = [i]" "\<And>j. j \<in> set is \<Longrightarrow> frames ad0 j = frames ad j"
    using feed_first [of i "mid @ [l]" ad s] assms(1) fr [of 0] unfolding is_eq by (auto simp: fragment_def)
  have mid: "rtw_get_stainfo ad0 (fr_ta (frames ad0 j)) = Some s \<and> fr_mfrag (frames ad0 j) = 1 \<and> fr_frag_num (frames ad0 j) \<noteq> 0"
    if j: "j \<in> set mid" for j
  proof -
    obtain k where k: "k < length mid" "j = mid ! k" using j by (auto simp: in_set_conv_nth)
    then have "j = is ! Suc k" by (simp add: is_eq nth_append)
    moreover have "(of_nat (Suc k) :: u8) \<noteq> 0"
      using unat_of_nat_u8 [of "Suc k"] k(1) len by (auto simp: is_eq)
    ultimately show ?thesis
      using fr [of "Suc k"] k(1) a0(5) [of j] j config_get_stainfo [OF a0(3)] by (simp add: is_eq fragment_def)
  qed
  obtain ad1 where a1: "feed (mid @ [l]) ad0 = feed [l] ad1" "pool_ok {#l#} ad1" "config ad0 ad1"
    "defrag_q (stainfo_buf ad1 s) = i # mid" "frames ad1 = frames ad0"
    using feed_middle [of mid "[l]" ad0 s "[i]", OF a0(2,4) mid] by auto
  have l: "fr_mfrag (frames ad1 l) = 0" "fr_frag_num (frames ad1 l) \<noteq> 0" "rtw_get_stainfo ad1 (fr_ta (frames ad1 l)) = Some s"
  proof -
    have "l = is ! Suc (length mid)" by (simp add: is_eq nth_append)
    moreover have "(of_nat (Suc (length mid)) :: u8) \<noteq> 0"
      using unat_of_nat_u8 [of "Suc (length mid)"] len by (auto simp: is_eq)
    ultimately show "fr_mfrag (frames ad1 l) = 0" "fr_frag_num (frames ad1 l) \<noteq> 0" "rtw_get_stainfo ad1 (fr_ta (frames ad1 l)) = Some s"
      using fr [of "Suc (length mid)"] a0(5) [of l] config_get_stainfo [OF config_trans [OF a0(3) a1(3)]]
      by (simp_all add: a1(5) is_eq fragment_def)
  qed
  have s: "s < NUM_STA" using rtw_get_stainfo_bound [OF a1(2) l(3)] .
  define ad2 where "ad2 = enqueue_defrag s l ad1"
  have e: "pool_ok {#} ad2" "defrag_q (stainfo_buf ad2 s) = i # mid @ [l]" "frames ad2 = frames ad0" "config ad1 ad2"
    using pool_ok_enqueue [OF a1(2) s] a1(4,5) by (simp_all add: ad2_def)
  have same: "map (frames ad2) (i # mid @ [l]) = map (frames ad) is"
    unfolding e(3) is_eq [symmetric] using a0(5) by (intro map_cong) auto
  obtain ad3 where a3: "recvframe_defrag s ad2 = Inr (Some i, ad3)" "config ad2 ad3" "defrag_q (stainfo_buf ad3 s) = []"
    "rframe_ok (frames ad3 i)" "contents (frames ad3 i) = reassembled (map (frames ad) is)" "same_attrib (frames ad2 i) (frames ad3 i)"
    "fr_icv_len (frames ad3 i) = fr_icv_len (last (map (frames ad) is))" "set (mid @ [l]) \<subseteq> set (free_recv_queue ad3)"
  proof -
    have "fragment k (frames ad2 ((i # mid @ [l]) ! k))" if "k < Suc (length (mid @ [l]))" for k
    proof -
      have k: "k < length is" using that by (simp add: is_eq)
      show ?thesis
        using fr(1) [OF k] a0(5) [OF nth_mem [OF k]] by (simp add: e(3) flip: is_eq)
    qed
    then show ?thesis
      using recvframe_defrag_all [OF e(1) s e(2)] assms(3) that unfolding same by blast
  qed
  have c: "chk_defrag_queue l ad1 = Inr (Some (hd is), ad3)"
    using l a3(1) by (simp add: chk_defrag_queue_def defrag_sta_def is_eq ad2_def)
  have "config ad ad3"
    using config_trans [OF config_trans [OF config_trans [OF a0(3) a1(3)] e(4)] a3(2)] .
  moreover have "pool_ok {#hd is#} ad3"
    using chk_defrag_queue_pool [OF a1(2) _ c] l(1) by simp
  moreover have "same_attrib (frames ad (hd is)) (frames ad3 (hd is))"
    using a3(6) a0(5) [of i] by (simp add: is_eq e(3))
  ultimately show ?thesis
    using that [of l ad1 ad3] a0(1) a1(1) c a3 by (simp add: is_eq)
qed

section \<open>The Michael code of a frame\<close>

lemma unat_u32_minus_u8: "unat (b :: u8) \<le> unat (x :: u32) \<Longrightarrow> unat (x - ucast b) = unat x - unat b"
proof -
  assume le: "unat b \<le> unat x"
  have u: "unat (ucast b :: u32) = unat b"
    by (simp add: unsigned_ucast_eq take_bit_nat_eq_self_iff order_less_trans [OF unat_u8_less])
  then show ?thesis
    using le unat_sub [of "ucast b" x] by (simp add: word_le_nat_alt)
qed

lemma chkmic_datalen:
  assumes "unat (fr_hdrlen f) + unat (fr_iv_len f) + unat (fr_icv_len f) + 8 \<le> unat (fr_len f)"
  shows "unat (chkmic_datalen f) = unat (fr_len f) - (unat (fr_hdrlen f) + unat (fr_iv_len f) + unat (fr_icv_len f) + 8)"
proof -
  have "unat (x - 8) = unat x - 8" if "8 \<le> unat x" for x :: u32
    using unat_minus_of_nat [of 8 x] that by simp
  then show ?thesis
    using assms by (simp add: chkmic_datalen_def unat_u32_minus_u8)
qed

lemma mic_header_append:
  assumes "(if h ! 1 AND 3 = 3 then 30 else 22) \<le> length h"
  shows "mic_header (h @ t) pri = mic_header h pri"
proof -
  have "\<not> (h ! 1 AND 1 \<noteq> 0 \<and> h ! 1 AND 2 \<noteq> 0) \<or> h ! 1 AND 3 = 3"
  proof -
    have "h ! 1 AND 3 = 3" if "h ! 1 AND 1 \<noteq> 0" "h ! 1 AND 2 \<noteq> 0"
    proof (rule bit_word_eqI)
      fix n assume "n < LENGTH(8)"
      moreover have "bit (h ! 1) 0" "bit (h ! 1) 1"
        using that and_exp_eq_0_iff_not_bit [of "h ! 1" 0] and_exp_eq_0_iff_not_bit [of "h ! 1" 1] by simp_all
      moreover have "bit (3 :: u8) n \<longleftrightarrow> n = 0 \<or> n = 1"
        using bit_mask_iff [of 2 n, where 'a = u8] by (auto simp: mask_eq_exp_minus_1)
      ultimately show "bit (h ! 1 AND 3) n = bit (3 :: u8) n"
        by (auto simp: bit_and_iff)
    qed
    then show ?thesis by blast
  qed
  moreover have "22 \<le> length h" using assms by (simp split: if_splits)
  moreover from this have "(h @ t) ! 1 = h ! 1" by (simp add: nth_append)
  ultimately show ?thesis
    using assms by (auto simp: mic_header_def Let_def)
qed

text \<open>The parts of a protected frame: pseudo header and payload, the code it carries, the code it should carry.\<close>

definition mic_payload :: "nat \<Rightarrow> nat \<Rightarrow> bytes \<Rightarrow> bytes" where
  "mic_payload p c frm = take (length frm - c - 8 - p) (drop p frm)"

definition mic_carried :: "nat \<Rightarrow> bytes \<Rightarrow> bytes" where
  "mic_carried c frm = take 8 (drop (length frm - c - 8) frm)"

definition mic_right :: "bytes \<Rightarrow> nat \<Rightarrow> nat \<Rightarrow> u8 \<Rightarrow> bytes \<Rightarrow> bool" where
  "mic_right key p c pri frm \<longleftrightarrow>
     mic_carried c frm = michael_spec key (mic_header frm pri @ mic_payload p c frm)"

lemma chkmic_compare_spec:
  assumes "rframe_ok f" and "8 \<le> length key"
    and "p = unat (fr_hdrlen f) + unat (fr_iv_len f)" and "p + unat (fr_icv_len f) + 8 \<le> length (contents f)"
    and "(if contents f ! 1 AND 3 = 3 then 30 else 22) \<le> length (contents f)"
  shows "chkmic_compare f key ad = Inr (mic_right key p (unat (fr_icv_len f)) (fr_priority f) (contents f))"
proof -
  define r where "r = drop (rx_tail f) (fr_buf f)"
  have mem: "drop (rx_data f) (fr_buf f) = contents f @ r"
    using assms(1) by (simp add: r_def contents_def rframe_ok_def) (metis add.commute append_take_drop_id drop_drop le_add_diff_inverse)
  define n where "n = length (contents f) - unat (fr_icv_len f) - 8 - p"
  have len: "unat (chkmic_datalen f) = n"
    using chkmic_datalen [of f] assms(3,4) fr_len_contents [OF assms(1)] by (simp add: n_def)
  have pay: "drop (rx_data f + p) (fr_buf f) = drop p (contents f) @ r"
    using arg_cong [OF mem, of "drop p"] assms(4) by (simp add: add.commute)
  have hdr: "(if (contents f @ r) ! 1 AND 3 = 3 then 30 else 22) \<le> length (contents f @ r)"
    using assms(5) by (auto simp: nth_append split: if_splits)
  have "take n (drop p (contents f) @ r) = mic_payload p (unat (fr_icv_len f)) (contents f)"
    using assms(4) by (simp add: mic_payload_def n_def)
  then have m: "rtw_seccalctkipmic (mic_stack ad) key (contents f @ r) (drop p (contents f) @ r) n (fr_priority f) =
      Inr (michael_spec key (mic_header (contents f) (fr_priority f) @ mic_payload p (unat (fr_icv_len f)) (contents f)))"
    using seccalctkipmic_michael [OF assms(2) _ hdr, of n "drop p (contents f) @ r" "mic_stack ad" "fr_priority f"]
      mic_header_append [OF assms(5)] assms(4) by (simp add: n_def)
  have "length (contents f) - unat (fr_icv_len f) - 8 = p + n"
    using assms(4) by (simp add: n_def)
  then have c: "mem_get (fr_buf f) (rx_data f + p + n) 8 = Inr (mic_carried (unat (fr_icv_len f)) (contents f))"
  proof -
    have "drop (rx_data f + p + n) (fr_buf f) = drop (p + n) (contents f @ r)"
      using arg_cong [OF mem, of "drop (p + n)"] by (simp add: add.commute add.left_commute)
    moreover have "rx_data f + length (contents f) \<le> length (fr_buf f)"
      using assms(1) by (simp add: rframe_ok_def)
    ultimately show ?thesis
      using assms(4) \<open>length (contents f) - unat (fr_icv_len f) - 8 = p + n\<close> by (simp add: mem_get_def mic_carried_def)
  qed
  have p: "rx_data f + unat (fr_hdrlen f) + unat (fr_iv_len f) = rx_data f + p" using assms(3) by simp
  show ?thesis
    unfolding chkmic_compare_def Let_def p len mem pay m rbind_Inr c by (auto simp: mic_right_def)
qed

lemma recvframe_chkmic_spec:
  assumes "pool_ok held ad" and "rtw_get_stainfo ad (fr_ta f) = Some s" and "frames ad i = f"
    and "rframe_ok f" and "fr_encrypt f = TKIP" and "\<not> IS_MCAST (fr_ra f)" and "8 \<le> length (tkiprxmickey (stainfo_buf ad s))"
    and "p = unat (fr_hdrlen f) + unat (fr_iv_len f)" and "p + unat (fr_icv_len f) + 8 \<le> length (contents f)"
    and "(if contents f ! 1 AND 3 = 3 then 30 else 22) \<le> length (contents f)"
    and "right = mic_right (tkiprxmickey (stainfo_buf ad s)) p (unat (fr_icv_len f)) (fr_priority f) (contents f)"
  obtains ad' where "recvframe_chkmic i ad = Inr (right, ad')" and "contents (frames ad' i) = take (length (contents f) - 8) (contents f)"
    and "rframe_ok (frames ad' i)" and "stainfo_buf ad' = stainfo_buf ad"
    and "mic_errors ad' = mic_errors ad @ (if \<not> right \<and> fr_bdecrypted f = 1 then [(s, False)] else [])"
proof -
  have k: "chkmic_compare f (tkiprxmickey (stainfo_buf ad s)) ad = Inr right"
    using chkmic_compare_spec [OF assms(4,7-10)] assms(11) by simp
  obtain g where g: "recvframe_pull_tail f 8 = Some g"
  proof -
    have "\<not> rx_tail f < rx_data f + 8"
      using assms(9) length_contents [OF assms(4)] by linarith
    then show ?thesis using that by (simp add: recvframe_pull_tail_def)
  qed
  define ad' where "ad' = set_frame i g (if right then ad else if fr_bdecrypted f = 1
    then ad\<lparr>mic_errors := mic_errors ad @ [(s, False)]\<rparr> else ad)"
  have "recvframe_chkmic i ad = Inr (right, ad')"
    using assms(2,3,5,6) k g by (simp add: recvframe_chkmic_def chkmic_key_def Let_def ignoring_def ad'_def)
  moreover have "frames ad' i = g" "stainfo_buf ad' = stainfo_buf ad"
    "mic_errors ad' = mic_errors ad @ (if \<not> right \<and> fr_bdecrypted f = 1 then [(s, False)] else [])"
    by (simp_all add: ad'_def set_frame_def)
  ultimately show ?thesis
    using recvframe_pull_tail_ok [OF assms(4) g] by (intro that) simp_all
qed


lemma all_less_two: "(\<forall>k < (2 :: nat). P k) \<longleftrightarrow> P 0 \<and> P 1"
  by (auto simp: numeral_2_eq_2 less_Suc_eq)

section \<open>An example: two fragments of a frame\<close>

definition example_addr :: bytes where "example_addr = replicate 6 2"

definition example_fragment :: "u8 \<Rightarrow> nat \<Rightarrow> u8 \<Rightarrow> u8 \<Rightarrow> bytes \<Rightarrow> rframe" where
  "example_fragment pv room k mf data =
     \<lparr>fr_buf = data @ replicate room 0, rx_data = 0, rx_tail = length data, fr_len = of_nat (length data), fr_pkt = True,
      fr_hdrlen = 24, fr_iv_len = 8, fr_icv_len = 4, fr_frag_num = k, fr_mfrag = mf, fr_seq_num = 1, fr_priority = 0,
      fr_qos = 0, fr_amsdu = 0, fr_privacy = pv, fr_encrypt = TKIP, fr_bdecrypted = 1, fr_key_index = 0,
      fr_ta = example_addr, fr_ra = replicate 6 4, fr_src = example_addr, fr_dst = replicate 6 4, fr_psta = 0, fr_ctrl = None\<rparr>"

lemma example_fragment_attr [simp]:
  "fr_hdrlen (example_fragment pv room k mf data) = 24" "fr_iv_len (example_fragment pv room k mf data) = 8"
  "fr_icv_len (example_fragment pv room k mf data) = 4" "fr_mfrag (example_fragment pv room k mf data) = mf"
  "fr_privacy (example_fragment pv room k mf data) = pv" "fr_encrypt (example_fragment pv room k mf data) = TKIP"
  "fr_priority (example_fragment pv room k mf data) = 0" "fr_ta (example_fragment pv room k mf data) = example_addr"
  "rx_tail (example_fragment pv room k mf data) = length data"
  "length (fr_buf (example_fragment pv room k mf data)) = length data + room"
  "\<not> IS_MCAST (fr_ra (example_fragment pv room k mf data))"
  by (simp_all add: example_fragment_def IS_MCAST_def nth_replicate)

text \<open>Frames 0 and 1 are held, station 0 is in the table.\<close>

definition example_adapter :: "(nat \<Rightarrow> rframe) \<Rightarrow> rx_adapter" where
  "example_adapter fs =
     \<lparr>frames = fs, free_recv_queue = [2..<NR_RECVFRAME], free_recvframe_cnt = of_nat (NR_RECVFRAME - 2),
      uc_swdec_pending_queue = [], stainfo_buf = (\<lambda>s. init_stainfo example_addr),
      sta_hash = (\<lambda>h. if h = wifi_mac_hash example_addr then [0] else []), free_sta_queue = [1..<NUM_STA],
      asoc_sta_count = 1, securitypriv = wep_example_priv, grprxmickey = [], mlme_key_index = 0, bcheck_grpkey = False,
      busetkipkey = True, hw_decrypted = False, iv_seq = replicate 4 0, auth_8021X = False, station_mode = True,
      mic_errors = [], recvpriv = example_priv, delivered = [],
      mic_stack = \<lparr>mic_K0 = 0, mic_K1 = 0, mic_L = 0, mic_R = 0, mic_M = 0, mic_nBytesInM = 0\<rparr>, aes_stack = replicate 2048 0,
      st_cmds = [], skb_after = (\<lambda>k. 0), over_read = False\<rparr>"

lemma example_stainfo [simp]: "rtw_get_stainfo (example_adapter fs) example_addr = Some 0"
  by (simp add: rtw_get_stainfo_def example_adapter_def init_stainfo_def example_addr_def IS_MCAST_def numeral_eq_Suc)

lemma example_pool: "pool_ok {#0, 1#} (example_adapter fs)"
proof -
  have "mset [0..<NR_RECVFRAME] = add_mset 0 (add_mset 1 (mset [2..<NR_RECVFRAME]))"
    by (simp add: NR_RECVFRAME_def upt_conv_Cons numeral_2_eq_2 del: mset_upt)
  moreover have "sta_places (init_stainfo a) = []" for a
    by (simp add: sta_places_def pending_ids_def init_stainfo_def init_reorder_ctrl_def)
  ultimately show ?thesis
    by (auto simp: pool_ok_def rxpool.whole_def places_def example_adapter_def NUM_STA_def split: if_splits simp del: mset_upt)
qed

lemma example_fragment_ok:
  assumes "36 \<le> length data" and "length data < 1000"
  shows "fragment (unat k) (example_fragment pv room k mf data)" and "contents (example_fragment pv room k mf data) = data"
    and "body (example_fragment pv room k mf data) = drop 32 data"
proof -
  show c: "contents (example_fragment pv room k mf data) = data"
    by (simp add: contents_def example_fragment_def)
  then show b: "body (example_fragment pv room k mf data) = drop 32 data"
    by (simp add: body_def)
  have "unat (of_nat (length data) :: u32) = length data"
    using assms(2) by (simp add: unat_of_nat take_bit_eq_mod)
  then have "rframe_ok (example_fragment pv room k mf data)"
    using assms by (simp add: rframe_ok_def example_fragment_def)
  then show "fragment (unat k) (example_fragment pv room k mf data)"
    unfolding fragment_def c b using assms(1) by (simp add: example_fragment_def)
qed

definition example_two :: "u8 \<Rightarrow> nat \<Rightarrow> bytes \<Rightarrow> bytes \<Rightarrow> rx_adapter" where
  "example_two pv room d0 d1 =
     example_adapter (\<lambda>i. if i = 0 then example_fragment pv room 0 1 d0 else example_fragment pv room 1 0 d1)"

lemma example_two_frames [simp]:
  "frames (example_two pv room d0 d1) 0 = example_fragment pv room 0 1 d0"
  "frames (example_two pv room d0 d1) (Suc 0) = example_fragment pv room 1 0 d1"
  by (simp_all add: example_two_def example_adapter_def)

lemma example_two_stainfo [simp]: "rtw_get_stainfo (example_two pv room d0 d1) example_addr = Some 0"
  by (simp add: example_two_def)

lemma example_two_fragments:
  assumes "36 \<le> length d0" "length d0 < 1000" "36 \<le> length d1" "length d1 < 1000"
  shows "fragments 0 [0, 1] (example_two pv room d0 d1)"
  using example_fragment_ok(1) [OF assms(1,2), of 0 pv room 1] example_fragment_ok(1) [OF assms(3,4), of 1 pv room 0]
  by (auto simp: fragments_def less_Suc_eq)

lemma example_two_reassembled:
  assumes "36 \<le> length d0" "length d0 < 1000" "36 \<le> length d1" "length d1 < 1000"
  shows "reassembled (map (frames (example_two pv room d0 d1)) [0, 1]) = take (length d0 - 4) d0 @ drop 32 d1"
    and "fits (map (frames (example_two pv room d0 d1)) [0, 1]) \<longleftrightarrow> length d1 - 32 \<le> room \<and> length d0 + room < 2 ^ 32"
proof -
  show "reassembled (map (frames (example_two pv room d0 d1)) [0, 1]) = take (length d0 - 4) d0 @ drop 32 d1"
    using assms by (simp add: reassembled_def example_fragment_ok)
  show "fits (map (frames (example_two pv room d0 d1)) [0, 1]) \<longleftrightarrow> length d1 - 32 \<le> room \<and> length d0 + room < 2 ^ 32"
    using assms by (auto simp: fits_def example_fragment_ok)
qed

section \<open>Fragments become a frame\<close>

text \<open>
  C19: The fragments of a frame that arrive in order from one station, and fit into the buffer of the first,
  become one frame, the one of the first fragment: its header and what follows it, with the check value of
  every fragment but the last removed and the bodies of the later ones in their place. The receive frames of
  all other fragments are in the queue of free frames, nothing is left in the queue of the station, and every
  receive frame but the reassembled one, which the caller holds, is in exactly one list. This is for a frame
  without Michael code.
\<close>
theorem defrag_reassembles:
  assumes "pool_ok (mset is) ad" and "fragments s is ad" and "fits (map (frames ad) is)"
    and "fr_privacy (frames ad (hd is)) = 0 \<or> fr_encrypt (frames ad (hd is)) \<noteq> TKIP"
  shows "\<exists>ad'. feed is ad = Inr (Some (hd is), ad') \<and>
    contents (frames ad' (hd is)) = reassembled (map (frames ad) is) \<and>
    set (tl is) \<subseteq> set (free_recv_queue ad') \<and> defrag_q (stainfo_buf ad' s) = [] \<and> pool_ok {#hd is#} ad'"
proof -
  obtain l ad1 ad2 where f: "feed is ad = feed [l] ad1" "chk_defrag_queue l ad1 = Inr (Some (hd is), ad2)"
    "pool_ok {#hd is#} ad2" "defrag_q (stainfo_buf ad2 s) = []"
    "contents (frames ad2 (hd is)) = reassembled (map (frames ad) is)" "same_attrib (frames ad (hd is)) (frames ad2 (hd is))"
    "set (tl is) \<subseteq> set (free_recv_queue ad2)"
    using feed_fragments [OF assms(1-3)] by metis
  have "recvframe_chk_defrag l ad1 = Inr (Some (hd is), ad2)"
    using assms(4) same_attrib_fields [OF f(6)] by (auto simp: recvframe_chk_defrag_def f(2) recvframe_chkmic_def Let_def)
  then show ?thesis
    using f by (intro exI [of _ ad2]) simp
qed

theorem defrag_reassembles_witness:
  "\<exists>ad'. feed [0, 1] (example_two 0 100 (replicate 32 8 @ [1, 2, 3, 4] @ replicate 4 0) (replicate 32 8 @ [5, 6] @ replicate 4 0)) =
      Inr (Some 0, ad') \<and>
    contents (frames ad' 0) = replicate 32 8 @ [1, 2, 3, 4] @ [5, 6] @ replicate 4 0 \<and> defrag_q (stainfo_buf ad' 0) = [] \<and>
    1 \<in> set (free_recv_queue ad')"
proof -
  let ?d0 = "replicate 32 8 @ [1, 2, 3, 4] @ replicate 4 0 :: bytes" and ?d1 = "replicate 32 8 @ [5, 6] @ replicate 4 0 :: bytes"
  have l: "36 \<le> length ?d0" "length ?d0 < 1000" "36 \<le> length ?d1" "length ?d1 < 1000" by simp_all
  have "fr_privacy (frames (example_two 0 100 ?d0 ?d1) (hd [0, 1])) = 0"
    by simp
  moreover have "pool_ok (mset [0, 1]) (example_two 0 100 ?d0 ?d1)"
    using example_pool by (simp add: example_two_def)
  moreover have "fits (map (frames (example_two 0 100 ?d0 ?d1)) [0, 1])"
    unfolding example_two_reassembled(2) [OF l] by simp
  ultimately show ?thesis
    using defrag_reassembles [of "[0, 1]" "example_two 0 100 ?d0 ?d1" 0, unfolded example_two_reassembled(1) [OF l]]
      example_two_fragments [OF l, of 0 100] by auto
qed

lemma frame_parts:
  assumes "p + c + 8 \<le> length frm"
  shows "take (length frm - 8) frm = take p frm @ mic_payload p c frm @ take c (drop (length frm - c - 8) frm)"
    and "take (length frm - 8 - c) frm = take p frm @ mic_payload p c frm"
proof -
  define n where "n = length frm - c - 8 - p"
  have n: "length frm - c - 8 = p + n" "length frm - 8 = p + n + c" "length frm - 8 - c = p + n"
    using assms by (simp_all add: n_def)
  show "take (length frm - 8) frm = take p frm @ mic_payload p c frm @ take c (drop (length frm - c - 8) frm)"
    "take (length frm - 8 - c) frm = take p frm @ mic_payload p c frm"
    unfolding mic_payload_def n take_add drop_drop diff_add_inverse by (simp_all add: take_add drop_drop add.commute [of n p])
qed

lemma ignoring_pull_tail_contents:
  assumes "rframe_ok f" and "n \<le> length (contents f)"
  shows "contents (ignoring (\<lambda>f. recvframe_pull_tail f n) f) = take (length (contents f) - n) (contents f)"
proof -
  have "\<not> rx_tail f < rx_data f + n" using assms length_contents [OF assms(1)] by (auto simp: rframe_ok_def)
  then obtain g where "recvframe_pull_tail f n = Some g" by (simp add: recvframe_pull_tail_def)
  then show ?thesis using recvframe_pull_tail_ok(2) [OF assms(1)] by (simp add: ignoring_def)
qed

text \<open>
  C20: A frame protected by TKIP is accepted when, and only when, the code behind its reassembled payload is
  the Michael code of the standard over its addresses, its priority and the payload under the key of its
  station. Behind the payload lie the eight bytes of the code and the check value of \<open>c\<close> bytes. Of an
  accepted frame the last eight bytes are removed, so header and payload stay with the first \<open>c\<close> of these
  bytes behind them (for TKIP the first four bytes of the code); it is the removal of \<open>c\<close> bytes more, which
  \<open>wlanhdr_to_ethhdr\<close> does later, that leaves exactly header and payload. Of a refused frame every receive
  frame is in a list again, and one error is reported if the frame was marked as deciphered, and none
  otherwise. The statement is for frames to one receiver.
\<close>
theorem fragments_michael:
  assumes "pool_ok (mset is) ad" and "fragments s is ad" and "fits (map (frames ad) is)"
    and "fr_privacy (frames ad (hd is)) \<noteq> 0" and "fr_encrypt (frames ad (hd is)) = TKIP"
    and "\<not> IS_MCAST (fr_ra (frames ad (hd is)))" and "8 \<le> length (tkiprxmickey (stainfo_buf ad s))"
    and "frm = reassembled (map (frames ad) is)" and "c = unat (fr_icv_len (frames ad (last is)))"
    and "p = unat (fr_hdrlen (frames ad (hd is))) + unat (fr_iv_len (frames ad (hd is)))"
    and "p + c + 8 \<le> length frm" and "(if frm ! 1 AND 3 = 3 then 30 else 22) \<le> length frm"
  shows "\<exists>ad'. pool_ok (if mic_right (tkiprxmickey (stainfo_buf ad s)) p c (fr_priority (frames ad (hd is))) frm then {#hd is#} else {#}) ad' \<and>
    (if mic_right (tkiprxmickey (stainfo_buf ad s)) p c (fr_priority (frames ad (hd is))) frm
     then feed is ad = Inr (Some (hd is), ad') \<and>
       contents (frames ad' (hd is)) = take p frm @ mic_payload p c frm @ take c (drop (length frm - c - 8) frm) \<and>
       contents (ignoring (\<lambda>f. recvframe_pull_tail f c) (frames ad' (hd is))) = take p frm @ mic_payload p c frm \<and>
       mic_errors ad' = mic_errors ad
     else feed is ad = Inr (None, ad') \<and>
       mic_errors ad' = mic_errors ad @ (if fr_bdecrypted (frames ad (hd is)) = 1 then [(s, False)] else []))"
proof -
  define right where "right = mic_right (tkiprxmickey (stainfo_buf ad s)) p c (fr_priority (frames ad (hd is))) frm"
  obtain l ad1 ad2 where f: "feed is ad = feed [l] ad1" "chk_defrag_queue l ad1 = Inr (Some (hd is), ad2)"
    "config ad ad2" "pool_ok {#hd is#} ad2" "rframe_ok (frames ad2 (hd is))" "contents (frames ad2 (hd is)) = frm"
    "fr_icv_len (frames ad2 (hd is)) = fr_icv_len (frames ad (last is))" "same_attrib (frames ad (hd is)) (frames ad2 (hd is))"
    using feed_fragments [OF assms(1-3)] assms(8) by metis
  note at = same_attrib_fields [OF f(8)]
  have "is \<noteq> []" using assms(2) by (auto simp: fragments_def)
  then have st: "rtw_get_stainfo ad (fr_ta (frames ad (hd is))) = Some s"
    using assms(2) by (auto simp: fragments_def hd_conv_nth)
  have cfg: "tkiprxmickey (stainfo_buf ad2 s) = tkiprxmickey (stainfo_buf ad s)" "mic_errors ad2 = mic_errors ad"
    using f(3) by (simp_all add: config_def)
  obtain ad3 where m: "recvframe_chkmic (hd is) ad2 = Inr (right, ad3)" "contents (frames ad3 (hd is)) = take (length frm - 8) frm"
    "rframe_ok (frames ad3 (hd is))" "mic_errors ad3 = mic_errors ad @ (if \<not> right \<and> fr_bdecrypted (frames ad (hd is)) = 1 then [(s, False)] else [])"
  proof (rule recvframe_chkmic_spec [OF f(4) _ refl f(5), of s p right])
    show "rtw_get_stainfo ad2 (fr_ta (frames ad2 (hd is))) = Some s"
      using st at config_get_stainfo [OF f(3)] by simp
  qed (use assms(5-7,9-12) at cfg f(6,7) in \<open>simp_all add: right_def\<close>)
  have parts: "take (length frm - 8) frm = take p frm @ mic_payload p c frm @ take c (drop (length frm - c - 8) frm)"
    "take (length frm - 8 - c) frm = take p frm @ mic_payload p c frm"
    using frame_parts [OF assms(11)] .
  have cut: "contents (ignoring (\<lambda>f. recvframe_pull_tail f c) (frames ad3 (hd is))) = take p frm @ mic_payload p c frm"
  proof -
    have l: "length (take (length frm - 8) frm) = length frm - 8" by simp
    have "c \<le> length frm - 8" "min (length frm - 8 - c) (length frm - 8) = length frm - 8 - c" using assms(11) by simp_all
    then show ?thesis
      using ignoring_pull_tail_contents [OF m(3), of c] unfolding m(2) l parts(2) [symmetric] take_take by simp
  qed
  define ad4 where "ad4 = (if right then ad3 else rtw_free_recvframe (hd is) ad3)"
  have "recvframe_chk_defrag l ad1 = Inr (if right then Some (hd is) else None, ad4)"
    using assms(4) at m(1) by (simp add: recvframe_chk_defrag_def f(2) ad4_def)
  then have "feed is ad = Inr (if right then Some (hd is) else None, ad4)"
    by (simp add: f(1))
  moreover have "pool_ok (if right then {#hd is#} else {#}) ad4"
    using recvframe_chkmic_pool [OF f(4) m(1)] by (simp add: ad4_def pool_ok_free_held)
  moreover have "mic_errors ad4 = mic_errors ad3"
    using config_steps(2) [of ad3 "hd is"] by (simp add: ad4_def config_def)
  ultimately show ?thesis
    using m cut unfolding right_def [symmetric] parts(1) by (intro exI [of _ ad4]) (cases right; simp add: ad4_def)
qed

lemma length_michael_spec [simp]: "length (michael_spec key msg) = 8"
  by (simp add: michael_spec_def split: prod.splits)

theorem fragments_michael_witness:
  "\<exists>mic ad'. length mic = 8 \<and> feed [0, 1] (example_two 1 100 (replicate 32 8 @ [1, 2, 3, 4] @ replicate 4 0)
      (replicate 32 8 @ [5, 6] @ mic @ replicate 4 0)) = Inr (Some 0, ad') \<and>
    contents (frames ad' 0) = replicate 32 8 @ [1, 2, 3, 4, 5, 6] @ take 4 mic \<and> pool_ok {#0#} ad'"
proof -
  define mic where "mic = michael_spec (replicate 16 0) (mic_header (replicate 32 8) 0 @ [1, 2, 3, 4, 5, 6])"
  define d0 where "d0 = (replicate 32 8 @ [1, 2, 3, 4] @ replicate 4 0 :: bytes)"
  define d1 where "d1 = replicate 32 8 @ [5, 6] @ mic @ replicate 4 0"
  define frm where "frm = replicate 32 8 @ [1, 2, 3, 4, 5, 6] @ mic @ replicate 4 0"
  let ?ad = "example_two 1 100 d0 d1"
  have lm: "length mic = 8" by (simp add: mic_def)
  have l: "36 \<le> length d0" "length d0 < 1000" "36 \<le> length d1" "length d1 < 1000"
    by (simp_all add: d0_def d1_def lm)
  have re: "reassembled (map (frames ?ad) [0, 1]) = frm"
    unfolding example_two_reassembled(1) [OF l] by (simp add: d0_def d1_def frm_def)
  have right: "mic_right (replicate 16 0) 32 4 0 frm"
    using mic_header_append [of "replicate 32 8" "[1, 2, 3, 4, 5, 6] @ mic @ replicate 4 0" 0]
    by (simp add: mic_right_def mic_carried_def mic_payload_def frm_def lm) (simp add: mic_def)
  have key: "tkiprxmickey (stainfo_buf ?ad 0) = replicate 16 0"
    by (simp add: example_two_def example_adapter_def init_stainfo_def)
  have attr: "fr_privacy (frames ?ad (hd [0, 1])) \<noteq> 0" "fr_encrypt (frames ?ad (hd [0, 1])) = TKIP"
    "\<not> IS_MCAST (fr_ra (frames ?ad (hd [0, 1])))" "4 = unat (fr_icv_len (frames ?ad (last [0, 1])))"
    "32 = unat (fr_hdrlen (frames ?ad (hd [0, 1]))) + unat (fr_iv_len (frames ?ad (hd [0, 1])))"
    "fr_priority (frames ?ad (hd [0, 1])) = 0"
    by simp_all
  have "pool_ok (mset [0, 1]) ?ad"
    using example_pool by (simp add: example_two_def)
  moreover have "fits (map (frames ?ad) [0, 1])"
    unfolding example_two_reassembled(2) [OF l] by (simp add: d0_def d1_def lm)
  moreover have "8 \<le> length (tkiprxmickey (stainfo_buf ?ad 0))" by (simp add: key)
  moreover have "32 + 4 + 8 \<le> length frm" "(if frm ! 1 AND 3 = 3 then 30 else 22) \<le> length frm"
    by (simp_all add: frm_def lm)
  ultimately obtain ad' where "feed [0, 1] ?ad = Inr (Some 0, ad')" 
    "contents (frames ad' 0) = take 32 frm @ mic_payload 32 4 frm @ take 4 (drop (length frm - 4 - 8) frm)" "pool_ok {#0#} ad'"
    using fragments_michael [OF _ example_two_fragments [OF l] _ attr(1,2,3) _ re [symmetric] attr(4,5)] right
    unfolding key attr(6) by auto
  then show ?thesis
    unfolding d0_def d1_def by (intro exI [of _ mic] exI [of _ ad']) (simp add: frm_def lm mic_payload_def)
qed

text \<open>
  C35: The copy of a fragment is made before anyone looks whether there is room for it: when the body of the
  second fragment of a frame reaches behind the end of the first one's buffer, memory behind the buffer is
  overwritten.
\<close>
theorem defrag_overflow:
  assumes "pool_ok {#i, j#} ad" and "fragments s [i, j] ad"
    and "length (fr_buf (frames ad i)) + unat (fr_icv_len (frames ad i)) < rx_tail (frames ad i) + length (body (frames ad j))"
  shows "feed [i, j] ad = Inl Buffer_overflow"
proof -
  have fi: "fragment 0 (frames ad i)" "fr_mfrag (frames ad i) = 1" "rtw_get_stainfo ad (fr_ta (frames ad i)) = Some s"
    using assms(2) by (auto simp: fragments_def all_less_two)
  have fj: "fragment 1 (frames ad j)" "fr_mfrag (frames ad j) = 0" "rtw_get_stainfo ad (fr_ta (frames ad j)) = Some s"
    using assms(2) by (auto simp: fragments_def all_less_two)
  obtain ad1 where a: "feed [i, j] ad = feed [j] ad1" "pool_ok (mset [j]) ad1" "config ad ad1" "defrag_q (stainfo_buf ad1 s) = [i]"
    "\<And>x. x \<in> set [i, j] \<Longrightarrow> frames ad1 x = frames ad x"
  proof (rule feed_first [OF _ fi(3,2)])
    show "pool_ok (mset [i, j]) ad" "fr_frag_num (frames ad i) = 0"
      using assms(1) fi(1) by (simp_all add: fragment_def)
  qed (erule that, assumption+)
  have fr: "frames ad1 i = frames ad i" "frames ad1 j = frames ad j"
    by (rule a(5); simp)+
  have "i \<noteq> j" using rxpool.whole_count [of "{#i, j#}" ad i] assms(1) by (auto simp: pool_ok_def)
  define d where "d = rtw_list_delete i (enqueue_defrag s j ad1)"
  have d: "frames d = frames ad1" by (simp add: d_def rtw_list_delete_def)
  obtain g where g: "ignoring (\<lambda>f. recvframe_pull f (unat (fr_hdrlen f + fr_iv_len f))) (frames ad j) = g"
    "mem_get (fr_buf g) (rx_data g) (unat (fr_len g)) = Inr (body (frames ad j))"
    using pulled_fragment [OF fj(1)] by blast
  have "length (fr_buf (ignoring (\<lambda>f. recvframe_pull_tail f (unat (fr_icv_len f))) (frames ad i))) <
      rx_tail (ignoring (\<lambda>f. recvframe_pull_tail f (unat (fr_icv_len f))) (frames ad i)) + length (body (frames ad j))"
    using assms(3) by (auto simp: ignoring_def recvframe_pull_tail_def)
  then have "defrag_loop i 1 [j] d = Inl Buffer_overflow"
    using fj(1) unfolding defrag_loop.simps Let_def d fr g by (simp add: fragment_def memcpy_at_def)
  moreover have "fr_frag_num (frames d i) = 0" using fi(1) by (simp add: d fr fragment_def)
  ultimately have "recvframe_defrag s (enqueue_defrag s j ad1) = Inl Buffer_overflow"
    using a(4) \<open>i \<noteq> j\<close> by (simp add: recvframe_defrag_def Let_def flip: d_def)
  moreover have "rtw_get_stainfo ad1 (fr_ta (frames ad1 j)) = Some s"
    using fj(3) config_get_stainfo [OF a(3)] by (simp add: fr)
  ultimately show ?thesis
    using fj unfolding a(1) by (simp add: fr recvframe_chk_defrag_def chk_defrag_queue_def defrag_sta_def fragment_def)
qed


theorem defrag_overflow_witness:
  "feed [0, 1] (example_two 0 0 (replicate 40 8) (replicate 90 8)) = Inl Buffer_overflow"
proof -
  have l: "36 \<le> length (replicate 40 8 :: bytes)" "length (replicate 40 8 :: bytes) < 1000"
    "36 \<le> length (replicate 90 8 :: bytes)" "length (replicate 90 8 :: bytes) < 1000" by simp_all
  have "pool_ok {#0, 1#} (example_two 0 0 (replicate 40 8) (replicate 90 8))"
    using example_pool by (simp add: example_two_def)
  then show ?thesis
  proof (rule defrag_overflow [OF _ example_two_fragments [OF l]])
    let ?ad = "example_two 0 0 (replicate 40 8) (replicate 90 8)"
    have "length (body (frames ?ad 1)) = 58"
      using example_fragment_ok(3) [OF l(3,4)] by simp
    moreover have "length (fr_buf (frames ?ad 0)) = 40" "rx_tail (frames ?ad 0) = 40" "unat (fr_icv_len (frames ?ad 0)) = 4"
      by simp_all
    ultimately show "length (fr_buf (frames ?ad 0)) + unat (fr_icv_len (frames ?ad 0)) <
        rx_tail (frames ?ad 0) + length (body (frames ?ad 1))" by linarith
  qed
qed

section \<open>A station that leaves\<close>

lemma free_queue_defrag_q:
  assumes "set q \<inter> set (defrag_q (stainfo_buf ad s)) = {}"
  shows "defrag_q (stainfo_buf (rtw_free_recvframe_queue q ad) s) = defrag_q (stainfo_buf ad s)"
  using assms unfolding rtw_free_recvframe_queue_def
proof (induction q arbitrary: ad)
  case (Cons i q)
  have "defrag_q (stainfo_buf (rtw_free_recvframe i ad) s) = defrag_q (stainfo_buf ad s)"
    using Cons.prems by (auto simp: rtw_free_recvframe_def rtw_list_delete_def set_frame_def Let_def sta_unlink_def intro: filter_True)
  then show ?case using Cons.IH [of "rtw_free_recvframe i ad"] Cons.prems by simp
qed simp

lemma sta_places_cancel [simp]: "sta_places (cancel_timers s) = sta_places s"
  by (simp add: sta_places_def pending_ids_def cancel_timers_def o_def)

lemma pool_ok_set_sta:
  assumes "s < NUM_STA" and "sta_places st = sta_places (stainfo_buf ad s)"
  shows "pool_ok held (set_sta s st ad) \<longleftrightarrow> pool_ok held ad"
proof (rule pool_ok_cong)
  show "places (set_sta s st ad) = places ad"
    using places_set_sta [OF assms(1), of st ad] assms(2) by simp
qed (simp_all add: set_sta_def)

lemma free_reorder_pool:
  assumes "pool_ok held ad" and "s < NUM_STA"
  shows "pool_ok held (free_reorder s ad)"
    and "defrag_q (stainfo_buf (free_reorder s ad) s) = defrag_q (stainfo_buf ad s)"
proof -
  have d: "distinct (sta_places (stainfo_buf ad s))"
    using sta_places_distinct(1) [of held ad s] assms by (simp add: pool_ok_def)
  have "pool_ok held (rtw_free_recvframe_queue (pending_ids (stainfo_buf ad s)) ad)"
    using d by (intro pool_ok_free_queue [OF assms]) (auto simp: sta_places_def)
  then show "pool_ok held (free_reorder s ad)"
    using assms(2) by (simp add: free_reorder_def Let_def pool_ok_set_sta)
  show "defrag_q (stainfo_buf (free_reorder s ad) s) = defrag_q (stainfo_buf ad s)"
    using d by (simp add: free_reorder_def Let_def set_sta_def cancel_timers_def sta_places_def free_queue_defrag_q Int_commute)
qed

lemma pool_ok_table:
  assumes "pool_ok held ad" and "\<And>h. set (f h) \<subseteq> {..<NUM_STA}"
  shows "pool_ok held (ad\<lparr>sta_hash := f, asoc_sta_count := n\<rparr>)"
proof -
  have "places (ad\<lparr>sta_hash := f, asoc_sta_count := n\<rparr>) = places ad"
    by (rule places_cong) simp_all
  then show ?thesis using assms by (simp add: pool_ok_def rxpool.whole_def)
qed

lemma pool_ok_free_stas [simp]: "pool_ok held (ad\<lparr>free_sta_queue := q\<rparr>) = pool_ok held ad"
proof (rule pool_ok_cong)
  show "places (ad\<lparr>free_sta_queue := q\<rparr>) = places ad" by (rule places_cong) simp_all
qed simp_all

lemma rtw_free_stainfo_pool:
  assumes "pool_ok held ad" and "s < NUM_STA"
  shows "pool_ok held (snd (rtw_free_stainfo s ad))"
    and "defrag_q (stainfo_buf (snd (rtw_free_stainfo s ad)) s) = defrag_q (stainfo_buf ad s)"
proof -
  define ad1 where "ad1 = ad\<lparr>sta_hash := (\<lambda>h. filter (\<lambda>t. t \<noteq> s) (sta_hash ad h)), asoc_sta_count := asoc_sta_count ad - 1\<rparr>"
  have "pool_ok held ad1"
    unfolding ad1_def using assms(1) by (intro pool_ok_table) (auto simp: pool_ok_def)
  note p = free_reorder_pool [OF this assms(2)]
  show "pool_ok held (snd (rtw_free_stainfo s ad))"
    using p(1) by (simp add: rtw_free_stainfo_def release_sta_def flip: ad1_def)
  show "defrag_q (stainfo_buf (snd (rtw_free_stainfo s ad)) s) = defrag_q (stainfo_buf ad s)"
    using p(2) by (simp add: rtw_free_stainfo_def release_sta_def flip: ad1_def) (simp add: ad1_def)
qed

text \<open>
  C36: A station that leaves keeps its fragments: \<open>rtw_free_stainfo\<close> gives back the frames its reordering
  windows hold but not those of its defragmentation queue, and when the station is allocated again its
  structure is cleared. From then on these frames are in no list, and the driver never receives with them
  again.
\<close>
theorem stainfo_leaks_fragments:
  assumes "pool_ok {#} ad" and "s < NUM_STA" and "rtw_free_stainfo s ad = (True, ad1)"
    and "rtw_alloc_stainfo hwaddr ad1 = (Some s, ad2)" and "i \<in> set (defrag_q (stainfo_buf ad s))"
  shows "i \<notin># places ad2 \<and> i < NR_RECVFRAME"
proof -
  have p: "pool_ok {#} ad1" "i \<in> set (sta_places (stainfo_buf ad1 s))"
    using rtw_free_stainfo_pool [OF assms(1,2)] assms(3,5) by (simp_all add: sta_places_def)
  then have w: "rxpool.whole {#} ad1" by (simp add: pool_ok_def)
  have "mset (sta_places (init_stainfo a)) = {#}" for a
    by (simp add: sta_places_def pending_ids_def init_stainfo_def init_reorder_ctrl_def)
  then have "places (set_sta s (init_stainfo hwaddr) ad1) + mset (sta_places (stainfo_buf ad1 s)) = places ad1"
    using places_set_sta [OF assms(2), of "init_stainfo hwaddr" ad1] by simp
  moreover have "places ad2 = places (set_sta s (init_stainfo hwaddr) ad1)"
    using assms(4) by (intro places_cong) (auto simp: rtw_alloc_stainfo_def Let_def set_sta_def split: list.splits)
  ultimately have c: "count (places ad2) i + count (mset (sta_places (stainfo_buf ad1 s))) i = count (places ad1) i"
    by (metis count_union)
  moreover have "0 < count (mset (sta_places (stainfo_buf ad1 s))) i"
    using p(2) by (simp add: count_mset_gt_0)
  moreover have "count (places ad1) i \<le> 1" using rxpool.whole_count [OF w, of i] by simp
  ultimately have "count (places ad2) i = 0" and "i \<in># places ad1"
    by (simp_all flip: count_greater_zero_iff)
  then show ?thesis
    using w by (simp add: rxpool.whole_def not_in_iff)
qed

theorem stainfo_leaks_fragments_witness:
  "\<exists>ad ad1 ad2. pool_ok {#} ad \<and> rtw_free_stainfo 0 ad = (True, ad1) \<and> rtw_alloc_stainfo example_addr ad1 = (Some 0, ad2) \<and>
     1 \<notin># places ad2"
proof -
  define ad where "ad = (enqueue_defrag 0 1 (enqueue_defrag 0 0 (example_adapter undefined)))\<lparr>free_sta_queue := []\<rparr>"
  have z: "(0 :: nat) < NUM_STA" by (simp add: NUM_STA_def)
  have p: "pool_ok {#} ad"
    using pool_ok_enqueue [OF pool_ok_enqueue [OF example_pool [of undefined] z], OF z] by (simp add: ad_def)
  obtain ad1 where f: "rtw_free_stainfo 0 ad = (True, ad1)" and q: "free_sta_queue ad1 = [0]"
    by (simp add: rtw_free_stainfo_def release_sta_def free_reorder_def Let_def ad_def enqueue_defrag_def set_sta_def
        cancel_timers_def example_adapter_def init_stainfo_def pending_ids_def init_reorder_ctrl_def rtw_free_recvframe_queue_def)
  obtain ad2 where a: "rtw_alloc_stainfo example_addr ad1 = (Some 0, ad2)"
    using q by (simp add: rtw_alloc_stainfo_def Let_def)
  have "1 \<in> set (defrag_q (stainfo_buf ad 0))" by (simp add: ad_def enqueue_defrag_def set_sta_def)
  then show ?thesis
    using stainfo_leaks_fragments [OF p z f a, of 1] p f a by blast
qed

end
