(* ===== verification/Rx_Amsdu.thy ===== *)
theory Rx_Amsdu
  imports Rx_Defrag
begin

text \<open>
  Received frames that carry several packets (\<open>amsdu_to_msdu\<close> of \<^verbatim>\<open>kernel/core/rtw_recv.c\<close> with
  \<open>rtw_os_alloc_msdu_pkt\<close> of \<^verbatim>\<open>kernel/os_dep/linux/recv_linux.c\<close>), and the check of a packet before it is handed
  on (\<open>rtw_recv_indicatepkt_check\<close>, with the session tracker of \<^verbatim>\<open>kernel/core/rtw_sta_mgt.c\<close>). The theorems say that
  whatever a frame holds its buffer is not left, for which packets bytes behind the packet are looked at, and
  that an aggregate is taken apart into the packets it was made of.
\<close>

section \<open>Several packets in a frame\<close>

definition MAX_SUBFRAME_COUNT :: nat where "MAX_SUBFRAME_COUNT = 64"
definition rtw_rfc1042_header :: bytes where "rtw_rfc1042_header = [0xaa, 0xaa, 0x03, 0x00, 0x00, 0x00]"
definition rtw_bridge_tunnel_header :: bytes where "rtw_bridge_tunnel_header = [0xaa, 0xaa, 0x03, 0x00, 0x00, 0xf8]"

definition be16 :: "bytes \<Rightarrow> nat" where
  "be16 b = unat (b ! 0) * 256 + unat (b ! 1)"

definition be16_bytes :: "nat \<Rightarrow> bytes" where
  "be16_bytes n = [of_nat (n div 256), of_nat n]"

text \<open>
  Is the encapsulation of the payload one that is removed? \<open>et\<close> are the two bytes behind the first six.
\<close>

definition snap_removed :: "bytes \<Rightarrow> bytes \<Rightarrow> bool" where
  "snap_removed snap et \<longleftrightarrow>
     snap = rtw_rfc1042_header \<and> et \<noteq> [0x80, 0xf3] \<and> et \<noteq> [0x81, 0x37] \<or> snap = rtw_bridge_tunnel_header"

text \<open>
  The packet \<open>rtw_os_alloc_msdu_pkt\<close> makes of the subframe at \<open>pdata\<close>: destination and source, then the
  type and what follows, or the length and the whole payload.
\<close>

definition msdu_pkt :: "bytes \<Rightarrow> bytes \<Rightarrow> bytes" where
  "msdu_pkt addrs payload =
     (if 8 \<le> length payload \<and> snap_removed (take 6 payload) (take 2 (drop 6 payload))
      then addrs @ drop 6 payload
      else addrs @ be16_bytes (length payload) @ payload)"

text \<open>
  \<open>rtw_skb_alloc\<close> can find memory for a copy of the subframe; when it does not, the frame is cloned, and the
  packet lies in the buffer of the frame itself; when that fails too there is no packet.
\<close>

datatype msdu_mem = Msdu_copy | Msdu_clone | Msdu_none

text \<open>A read of a packet of \<open>len\<close> bytes up to \<open>reach\<close>, and the bytes it sees.\<close>

definition saw_pkt :: "nat \<Rightarrow> nat \<Rightarrow> rx_adapter \<Rightarrow> rx_adapter" where
  "saw_pkt reach len ad = ad\<lparr>over_read := (over_read ad \<or> len < reach)\<rparr>"

definition pkt_get :: "rx_adapter \<Rightarrow> bytes \<Rightarrow> nat \<Rightarrow> nat \<Rightarrow> bytes" where
  "pkt_get ad pkt off n = map (\<lambda>k. if k < length pkt then pkt ! k else skb_after ad (k - length pkt)) [off..<off + n]"

text \<open>
  The type is read from the first eight bytes of the payload, also when it has fewer: its value is used only
  for a payload of eight bytes and more. In a clone the addresses, and the length where the encapsulation
  stays, are written in front of what is left of the payload, over bytes of the subframe that have been read.
\<close>

definition rtw_os_alloc_msdu_pkt ::
    "msdu_mem \<Rightarrow> bytes \<Rightarrow> nat \<Rightarrow> nat \<Rightarrow> rx_adapter \<Rightarrow> (bytes option \<times> bytes \<times> rx_adapter) res" where
  "rtw_os_alloc_msdu_pkt m buf pdata n ad =
     (case m of
        Msdu_none \<Rightarrow> Inr (None, buf, ad)
      | _ \<Rightarrow>
          rbind (mem_get buf (pdata + 14) n) (\<lambda>payload.
          rbind (mem_get buf pdata 12) (\<lambda>addrs.
            (let sub_skb = msdu_pkt addrs payload;
                 start = pdata + 14 + n - length sub_skb;
                 ad = saw_pkt 8 n ad
             in rbind (case m of Msdu_clone \<Rightarrow> memcpy_at buf start (take (if start = pdata then 14 else 12) sub_skb) | _ \<Rightarrow> Inr buf)
                  (\<lambda>buf. Inr (Some sub_skb, buf, ad))))))"

section \<open>A look at the packet\<close>

text \<open>
  \<open>rtw_st_ctl_rx\<close> looks for the handshakes of TCP connections that a rule of the station asks for. It takes
  the packet to be as long as its headers say.
\<close>

definition rtw_st_ctl_chk_reg_s_proto :: "(u8 \<times> st_rule option) list \<Rightarrow> u8 \<Rightarrow> bool" where
  "rtw_st_ctl_chk_reg_s_proto reg s_proto = (\<exists>r\<in>set reg. fst r = s_proto)"

definition rtw_st_ctl_chk_reg_rule :: "(u8 \<times> st_rule option) list \<Rightarrow> bytes \<Rightarrow> bytes \<Rightarrow> bytes \<Rightarrow> bytes \<Rightarrow> bool" where
  "rtw_st_ctl_chk_reg_rule reg local_naddr local_port remote_naddr remote_port =
     (\<exists>r\<in>set reg. case snd r of None \<Rightarrow> False | Some rule \<Rightarrow> rule local_naddr local_port remote_naddr remote_port)"

definition rtw_st_ctl_rx :: "nat \<Rightarrow> bytes \<Rightarrow> rx_adapter \<Rightarrow> rx_adapter" where
  "rtw_st_ctl_rx sta ehdr_pos ad =
     (let get = pkt_get ad ehdr_pos;
          saw = (\<lambda>reach. saw_pkt reach (length ehdr_pos));
          reg = st_reg (stainfo_buf ad sta);
          ad = saw 14 ad
      in if get 12 2 \<noteq> [8, 0] then ad
         else
           (let ad = saw 24 ad
            in if get 23 1 \<noteq> [6] \<or> \<not> rtw_st_ctl_chk_reg_s_proto reg 6 then ad
               else
                 (let tcp = 14 + unat (get 14 1 ! 0 AND 15) * 4;
                      local_naddr = get 30 4; local_port = get (tcp + 2) 2;
                      remote_naddr = get 26 4; remote_port = get tcp 2;
                      ad = saw (max 34 (tcp + 4)) ad
                  in if \<not> rtw_st_ctl_chk_reg_rule reg local_naddr local_port remote_naddr remote_port then ad
                     else
                       (let ad = saw (tcp + 14) ad;
                            flags = get (tcp + 13) 1 ! 0;
                            ad = (if bit flags 1 \<and> bit flags 4
                                  then ad\<lparr>st_cmds := st_cmds ad @ [Session_tracker_add sta local_naddr local_port remote_naddr remote_port]\<rparr>
                                  else ad)
                        in if bit flags 0
                           then ad\<lparr>st_cmds := st_cmds ad @ [Session_tracker_del sta local_naddr local_port remote_naddr remote_port]\<rparr>
                           else ad))))"

text \<open>
  The check of a packet before it is handed on, as it is built: without WAPI there is nothing to drop, the
  port of the RTP debugging is never set, and what is left is the session tracker.
\<close>

definition rtw_recv_indicatepkt_check :: "nat \<Rightarrow> bytes \<Rightarrow> rx_adapter \<Rightarrow> bool \<times> rx_adapter" where
  "rtw_recv_indicatepkt_check i ehdr_pos ad =
     (let ad = rtw_st_ctl_rx (fr_psta (frames ad i)) ehdr_pos ad
      in (True, saw_pkt 14 (length ehdr_pos) ad))"

text \<open>
  The loop over the subframes, \<open>a_len\<close> bytes from \<open>pdata\<close> on; \<open>mem k\<close> says what memory there is for the
  packet after the first \<open>k\<close> ones. \<open>a_len\<close> is a signed integer in the code; a negative one ends the loop as
  0 does.
\<close>

function amsdu_loop ::
    "(nat \<Rightarrow> msdu_mem) \<Rightarrow> nat \<Rightarrow> bytes \<Rightarrow> nat \<Rightarrow> nat \<Rightarrow> bytes list \<Rightarrow> rx_adapter \<Rightarrow> (bytes list \<times> rx_adapter) res" where
  "amsdu_loop mem i buf pdata a_len subframes ad =
     (if a_len \<le> 14 then Inr (subframes, ad)
      else rbind (mem_get buf (pdata + 12) 2) (\<lambda>l.
        (let n = be16 l
         in if a_len < 14 + n then Inr (subframes, ad)
            else rbind (rtw_os_alloc_msdu_pkt (mem (length subframes)) buf pdata n ad) (\<lambda>(sub_pkt, buf, ad).
              (case sub_pkt of
                 None \<Rightarrow> Inr (subframes, ad)
               | Some sub_pkt \<Rightarrow>
                   (case rtw_recv_indicatepkt_check i sub_pkt ad of (ok, ad) \<Rightarrow>
                    (let subframes = (if ok then subframes @ [sub_pkt] else subframes);
                         pdata = pdata + 14;
                         a_len = a_len - 14
                     in if MAX_SUBFRAME_COUNT \<le> length subframes then Inr (subframes, ad)
                        else
                          (let pdata = pdata + n;
                               a_len = a_len - n;
                               padding_len = (if (n + 14) mod 4 = 0 then 0 else 4 - (n + 14) mod 4)
                           in if a_len = 0 then amsdu_loop mem i buf pdata a_len subframes ad
                              else if a_len < padding_len then Inr (subframes, ad)
                              else amsdu_loop mem i buf (pdata + padding_len) (a_len - padding_len) subframes ad))))))))"
  by pat_completeness auto
termination
  by (relation "measure (\<lambda>(_, _, _, _, a_len, _). a_len)") auto

declare amsdu_loop.simps [simp del]

definition amsdu_to_msdu :: "(nat \<Rightarrow> msdu_mem) \<Rightarrow> nat \<Rightarrow> rx_adapter \<Rightarrow> (bool \<times> rx_adapter) res" where
  "amsdu_to_msdu mem i ad =
     (let f = frames ad i;
          f = ignoring (\<lambda>f. recvframe_pull f (unat (fr_hdrlen f))) f;
          f = (if 0 < fr_iv_len f then ignoring (\<lambda>f. recvframe_pull f (unat (fr_iv_len f))) f else f)
      in rbind (amsdu_loop mem i (fr_buf f) (rx_data f) (nat (sint (fr_len f))) [] ad) (\<lambda>(subframes, ad).
         Inr (True, rtw_free_recvframe i
           ((set_frame i (f\<lparr>fr_len := 0\<rparr>) ad)\<lparr>delivered := delivered ad @ subframes\<rparr>))))"

section \<open>Taking an aggregate apart\<close>

lemma mem_get_ok: "off + n \<le> length buf \<Longrightarrow> mem_get buf off n = Inr (take n (drop off buf))"
  by (simp add: mem_get_def)

text \<open>
  What handling a packet does to the adapter: commands for the tracker, and perhaps a read behind the packet.
  A packet of at least 22 bytes whose payload had at least eight, and of 88 bytes when it is an IP packet, is
  long enough for every read: 14 bytes of Ethernet, sixty of IP with options, and the flags of TCP.
\<close>

definition reads_inside :: "bytes \<Rightarrow> bool" where
  "reads_inside p \<longleftrightarrow> 22 \<le> length p \<and> (take 2 (drop 12 p) = [8, 0] \<longrightarrow> 88 \<le> length p)"

definition watched :: "bytes list \<Rightarrow> rx_adapter \<Rightarrow> rx_adapter \<Rightarrow> bool" where
  "watched pkts ad ad' \<longleftrightarrow> (\<exists>c v. ad' = ad\<lparr>st_cmds := c, over_read := v\<rparr>) \<and>
     (list_all reads_inside pkts \<longrightarrow> over_read ad' = over_read ad)"

lemma watchedI:
  "ad' = ad\<lparr>st_cmds := c, over_read := v\<rparr> \<Longrightarrow> (list_all reads_inside pkts \<Longrightarrow> v = over_read ad) \<Longrightarrow> watched pkts ad ad'"
  unfolding watched_def by (intro conjI exI impI) auto

lemma watchedE:
  assumes "watched pkts ad ad'"
  obtains c v where "ad' = ad\<lparr>st_cmds := c, over_read := v\<rparr>" and "list_all reads_inside pkts \<Longrightarrow> v = over_read ad"
  using assms unfolding watched_def by auto

lemma watched_refl [simp]: "watched [] ad ad"
  by (rule watchedI [where c = "st_cmds ad" and v = "over_read ad"]) simp_all

lemma watched_trans:
  assumes "watched xs ad ad1" and "watched ys ad1 ad2"
  shows "watched (xs @ ys) ad ad2"
proof -
  obtain c v where 1: "ad1 = ad\<lparr>st_cmds := c, over_read := v\<rparr>" "list_all reads_inside xs \<Longrightarrow> v = over_read ad"
    using assms(1) by (rule watchedE) blast
  obtain c' v' where 2: "ad2 = ad1\<lparr>st_cmds := c', over_read := v'\<rparr>" "list_all reads_inside ys \<Longrightarrow> v' = over_read ad1"
    using assms(2) by (rule watchedE) blast
  show ?thesis
    by (rule watchedI [where c = c' and v = v']) (use 1 2 in auto)
qed

lemma watched_fields:
  assumes "watched pkts ad ad'"
  shows "frames ad' = frames ad" "stainfo_buf ad' = stainfo_buf ad" "free_recv_queue ad' = free_recv_queue ad"
    "free_recvframe_cnt ad' = free_recvframe_cnt ad" "uc_swdec_pending_queue ad' = uc_swdec_pending_queue ad"
    "delivered ad' = delivered ad" "auth_8021X ad' = auth_8021X ad" "recvpriv ad' = recvpriv ad" "sta_hash ad' = sta_hash ad"
  using assms by (auto elim: watchedE)

lemma watched_saw: "(reads_inside p \<Longrightarrow> reach \<le> len) \<Longrightarrow> watched [p] ad (saw_pkt reach len ad)"
  by (rule watchedI [where c = "st_cmds ad" and v = "over_read ad \<or> len < reach"]) (auto simp: saw_pkt_def)

lemma pkt_get_inside: "off + n \<le> length p \<Longrightarrow> pkt_get ad p off n = take n (drop off p)"
  by (rule nth_equalityI) (simp_all add: pkt_get_def)

lemma watched_cmd: "watched pkts ad ad1 \<Longrightarrow> watched pkts ad (ad1\<lparr>st_cmds := c\<rparr>)"
  by (erule watchedE, rule watchedI [where c = c]) simp_all

lemma watched_saw_after: "watched [p] ad ad1 \<Longrightarrow> (reads_inside p \<Longrightarrow> reach \<le> len) \<Longrightarrow> watched [p] ad (saw_pkt reach len ad1)"
  using watched_trans [OF _ watched_saw, of "[p]" ad ad1 p reach len] by (simp add: watched_def)

lemma rtw_st_ctl_rx_watched: "watched [p] ad (rtw_st_ctl_rx sta p ad)"
proof -
  define tcp where "tcp = 14 + unat (pkt_get ad p 14 1 ! 0 AND 15) * 4"
  have "unat (x AND 15) \<le> 15" for x :: u8
    using word_and_le1 [of x 15] by (simp add: word_le_nat_alt)
  then have t: "tcp \<le> 74" by (simp add: tcp_def)
  have r: "reads_inside p \<Longrightarrow> 14 \<le> length p" "reads_inside p \<Longrightarrow> pkt_get ad p 12 2 = [8, 0] \<Longrightarrow> 88 \<le> length p"
    by (auto simp: reads_inside_def pkt_get_inside)
  have g: "pkt_get (saw_pkt n l a) = pkt_get a" for n l a
    by (simp add: pkt_get_def saw_pkt_def fun_eq_iff)
  define a1 where "a1 = saw_pkt 14 (length p) ad"
  define a2 where "a2 = saw_pkt 24 (length p) a1"
  define a3 where "a3 = saw_pkt (max 34 (tcp + 4)) (length p) a2"
  define a4 where "a4 = saw_pkt (tcp + 14) (length p) a3"
  have w1: "watched [p] ad a1" unfolding a1_def using r(1) by (intro watched_saw)
  show ?thesis
  proof (cases "pkt_get ad p 12 2 = [8, 0]")
    case False
    then show ?thesis using w1 by (simp add: rtw_st_ctl_rx_def Let_def a1_def)
  next
    case True
    have w2: "watched [p] ad a2" unfolding a2_def using r(2) True by (intro watched_saw_after [OF w1]) simp
    have w3: "watched [p] ad a3" unfolding a3_def using r(2) True t by (intro watched_saw_after [OF w2]) fastforce
    have w4: "watched [p] ad a4" unfolding a4_def using r(2) True t by (intro watched_saw_after [OF w3]) fastforce
    show ?thesis
      unfolding rtw_st_ctl_rx_def Let_def a1_def [symmetric] a2_def [symmetric] tcp_def [symmetric] a3_def [symmetric] a4_def [symmetric]
      using w1 w2 w3 w4 by (simp add: watched_cmd)
  qed
qed

lemma rtw_recv_indicatepkt_check_watched:
  obtains ad' where "rtw_recv_indicatepkt_check i p ad = (True, ad')" and "watched [p] ad ad'"
proof (rule that)
  show "rtw_recv_indicatepkt_check i p ad = (True, saw_pkt 14 (length p) (rtw_st_ctl_rx (fr_psta (frames ad i)) p ad))"
    by (simp add: rtw_recv_indicatepkt_check_def Let_def)
  show "watched [p] ad (saw_pkt 14 (length p) (rtw_st_ctl_rx (fr_psta (frames ad i)) p ad))"
    by (rule watched_saw_after [OF rtw_st_ctl_rx_watched]) (simp add: reads_inside_def)
qed

text \<open>The packet of a subframe that is in the buffer, in either kind of memory; what follows the subframe stays.\<close>

lemma length_msdu_pkt: "length addrs = 12 \<Longrightarrow> length (msdu_pkt addrs pl) = (if 8 \<le> length pl \<and> snap_removed (take 6 pl) (take 2 (drop 6 pl)) then 6 + length pl else 14 + length pl)"
  by (simp add: msdu_pkt_def be16_bytes_def)

lemma rtw_os_alloc_msdu_pkt_some:
  assumes "pdata + 14 + n \<le> length buf" and "m \<noteq> Msdu_none"
  defines "pkt \<equiv> msdu_pkt (take 12 (drop pdata buf)) (take n (drop (pdata + 14) buf))"
  obtains buf' where "rtw_os_alloc_msdu_pkt m buf pdata n ad = Inr (Some pkt, buf', saw_pkt 8 n ad)"
    and "length buf' = length buf" and "drop (pdata + 14 + n) buf' = drop (pdata + 14 + n) buf"
proof -
  define start where "start = pdata + 14 + n - length pkt"
  have l: "length pkt = (if start = pdata then 14 + n else 6 + n)" "start = pdata \<or> start = pdata + 8 \<and> 8 \<le> n"
    using assms(1) length_msdu_pkt [of "take 12 (drop pdata buf)" "take n (drop (pdata + 14) buf)"]
    by (auto simp: start_def pkt_def min_def split: if_splits)
  have rd: "mem_get buf (pdata + 14) n = Inr (take n (drop (pdata + 14) buf))" "mem_get buf pdata 12 = Inr (take 12 (drop pdata buf))"
    using assms(1) by (simp_all add: mem_get_ok)
  show ?thesis
  proof (cases m)
    case Msdu_copy
    then show ?thesis using that [of buf] by (simp add: rtw_os_alloc_msdu_pkt_def rd Let_def flip: pkt_def)
  next
    case Msdu_clone
    define h where "h = take (if start = pdata then 14 else 12) pkt"
    have h: "start + length h \<le> pdata + 14 + n" using l by (auto simp: h_def)
    then have "memcpy_at buf start h = Inr (take start buf @ h @ drop (start + length h) buf)"
      using assms(1) by (simp add: memcpy_at_def)
    moreover have "length (take start buf @ h @ drop (start + length h) buf) = length buf" using h assms(1) by simp
    moreover have "drop (pdata + 14 + n) (take start buf @ h @ drop (start + length h) buf) = drop (pdata + 14 + n) buf"
      using h assms(1) by simp
    ultimately show ?thesis
      using that [of "take start buf @ h @ drop (start + length h) buf"] Msdu_clone
      by (simp add: rtw_os_alloc_msdu_pkt_def rd Let_def flip: pkt_def start_def h_def)
  qed (use assms(2) in simp)
qed

text \<open>One turn of the loop over \<open>a_len\<close> bytes that are in the buffer.\<close>

lemma amsdu_loop_stop:
  assumes "pdata + a_len \<le> length buf" and "a_len \<le> 14 \<or> a_len < 14 + be16 (take 2 (drop (pdata + 12) buf)) \<or> mem (length subs) = Msdu_none"
  shows "amsdu_loop mem i buf pdata a_len subs ad = Inr (subs, ad)"
proof (cases "a_len \<le> 14")
  case True
  then show ?thesis by (subst amsdu_loop.simps) simp
next
  case False
  then have "mem_get buf (pdata + 12) 2 = Inr (take 2 (drop (pdata + 12) buf))"
    using assms(1) by (intro mem_get_ok) simp
  then show ?thesis
    using False assms(2) by (subst amsdu_loop.simps) (auto simp: Let_def rtw_os_alloc_msdu_pkt_def)
qed

lemma amsdu_loop_step:
  fixes subs :: "bytes list"
  assumes "pdata + a_len \<le> length buf" and "14 < a_len" and "14 + be16 (take 2 (drop (pdata + 12) buf)) \<le> a_len" and "mem (length subs) \<noteq> Msdu_none"
  defines "n \<equiv> be16 (take 2 (drop (pdata + 12) buf))"
  defines "pkt \<equiv> msdu_pkt (take 12 (drop pdata buf)) (take n (drop (pdata + 14) buf))"
  defines "pad \<equiv> (if (n + 14) mod 4 = 0 then 0 else 4 - (n + 14) mod 4)"
  obtains buf' ad' where "length buf' = length buf" and "drop (pdata + 14 + n) buf' = drop (pdata + 14 + n) buf" and "watched [pkt] ad ad'"
    and "amsdu_loop mem i buf pdata a_len subs ad =
      (if 64 \<le> length (subs @ [pkt]) then Inr (subs @ [pkt], ad')
       else if a_len = 14 + n then amsdu_loop mem i buf' (pdata + 14 + n) 0 (subs @ [pkt]) ad'
       else if a_len < 14 + n + pad then Inr (subs @ [pkt], ad')
       else amsdu_loop mem i buf' (pdata + 14 + n + pad) (a_len - (14 + n + pad)) (subs @ [pkt]) ad')"
proof -
  have l: "mem_get buf (pdata + 12) 2 = Inr (take 2 (drop (pdata + 12) buf))"
    using assms(1,2) by (intro mem_get_ok) simp
  have n: "14 + n \<le> a_len" using assms(3) by (simp add: n_def)
  then have room: "pdata + 14 + n \<le> length buf" using assms(1) by simp
  obtain buf' where b: "rtw_os_alloc_msdu_pkt (mem (length subs)) buf pdata n ad = Inr (Some pkt, buf', saw_pkt 8 n ad)"
    "length buf' = length buf" "drop (pdata + 14 + n) buf' = drop (pdata + 14 + n) buf"
    using rtw_os_alloc_msdu_pkt_some [OF room assms(4), of ad] unfolding pkt_def by metis
  obtain ad' where c: "rtw_recv_indicatepkt_check i pkt (saw_pkt 8 n ad) = (True, ad')" "watched [pkt] (saw_pkt 8 n ad) ad'"
    by (rule rtw_recv_indicatepkt_check_watched)
  have "length pkt < 22" if "n < 8"
    using that room length_msdu_pkt [of "take 12 (drop pdata buf)" "take n (drop (pdata + 14) buf)"] by (simp add: pkt_def min_def)
  then have "8 \<le> n" if "reads_inside pkt"
    using that unfolding reads_inside_def by (meson not_less)
  then have "watched [pkt] ad (saw_pkt 8 n ad)" by (rule watched_saw)
  from watched_trans [OF this c(2)] have w: "watched [pkt] ad ad'" by (simp add: watched_def)
  have m: "(a_len \<le> 14) = False" "(a_len < 14 + n) = False" using assms(2) n by simp_all
  define d where "d = a_len - 14 - n"
  have run: "amsdu_loop mem i buf pdata a_len subs ad =
      (if 64 \<le> length (subs @ [pkt]) then Inr (subs @ [pkt], ad')
       else if d = 0 then amsdu_loop mem i buf' (pdata + 14 + n) d (subs @ [pkt]) ad'
       else if d < pad then Inr (subs @ [pkt], ad')
       else amsdu_loop mem i buf' (pdata + 14 + n + pad) (d - pad) (subs @ [pkt]) ad')"
    unfolding amsdu_loop.simps [of mem i buf pdata a_len subs ad] l rbind_Inr Let_def n_def [symmetric] pad_def [symmetric] m if_False b(1)
      prod.case option.case c(1) if_True MAX_SUBFRAME_COUNT_def d_def [symmetric]
    by (rule refl)
  have e: "d = 0 \<longleftrightarrow> a_len = 14 + n" "d < pad \<longleftrightarrow> a_len < 14 + n + pad" "d - pad = a_len - (14 + n + pad)"
    using n by (auto simp: d_def)
  show ?thesis
  proof (rule that [OF b(2,3) w])
    show "amsdu_loop mem i buf pdata a_len subs ad =
      (if 64 \<le> length (subs @ [pkt]) then Inr (subs @ [pkt], ad')
       else if a_len = 14 + n then amsdu_loop mem i buf' (pdata + 14 + n) 0 (subs @ [pkt]) ad'
       else if a_len < 14 + n + pad then Inr (subs @ [pkt], ad')
       else amsdu_loop mem i buf' (pdata + 14 + n + pad) (a_len - (14 + n + pad)) (subs @ [pkt]) ad')"
    proof (cases "d = 0")
      case True
      then have "a_len = 14 + n" using e(1) by blast
      then show ?thesis unfolding run using True by (simp only: refl if_True)
    next
      case False
      then have "a_len \<noteq> 14 + n" using e(1) by blast
      then show ?thesis unfolding run e(2,3) using False by (simp only: if_False)
    qed
  qed
qed

lemma amsdu_loop_safe:
  assumes "pdata + a_len \<le> length buf" and "length subs < 64"
  shows "\<exists>subs' ad'. amsdu_loop mem i buf pdata a_len subs ad = Inr (subs @ subs', ad') \<and> length (subs @ subs') \<le> 64 \<and> watched subs' ad ad'"
  using assms
proof (induction a_len arbitrary: buf pdata subs ad rule: less_induct)
  case (less a_len)
  define n where "n = be16 (take 2 (drop (pdata + 12) buf))"
  define pkt where "pkt = msdu_pkt (take 12 (drop pdata buf)) (take n (drop (pdata + 14) buf))"
  define pad where "pad = (if (n + 14) mod 4 = 0 then 0 else 4 - (n + 14) mod 4)"
  show ?case
  proof (cases "a_len \<le> 14 \<or> a_len < 14 + n \<or> mem (length subs) = Msdu_none")
    case True
    then show ?thesis
      using amsdu_loop_stop [OF less.prems(1), of mem subs i ad] less.prems(2) by (intro exI [of _ "[]"] exI [of _ ad]) (simp add: n_def)
  next
    case False
    then have r: "14 < a_len" "14 + be16 (take 2 (drop (pdata + 12) buf)) \<le> a_len" "mem (length subs) \<noteq> Msdu_none" "14 + n \<le> a_len"
      by (simp_all add: n_def)
    obtain buf' ad1 where step: "length buf' = length buf" "watched [pkt] ad ad1"
      "amsdu_loop mem i buf pdata a_len subs ad =
      (if 64 \<le> length (subs @ [pkt]) then Inr (subs @ [pkt], ad1)
       else if a_len = 14 + n then amsdu_loop mem i buf' (pdata + 14 + n) 0 (subs @ [pkt]) ad1
       else if a_len < 14 + n + pad then Inr (subs @ [pkt], ad1)
       else amsdu_loop mem i buf' (pdata + 14 + n + pad) (a_len - (14 + n + pad)) (subs @ [pkt]) ad1)"
      unfolding pkt_def pad_def n_def
      by (rule amsdu_loop_step [OF less.prems(1) r(1) r(2), where mem = mem and i = i and ad = ad, OF r(3)])
    have go: ?thesis if go1: "amsdu_loop mem i buf pdata a_len subs ad = amsdu_loop mem i buf' p m (subs @ [pkt]) ad1"
      and go2: "m < a_len" "p + m \<le> length buf" "length (subs @ [pkt]) < 64" for p m
    proof -
      obtain l ad2 where "amsdu_loop mem i buf' p m (subs @ [pkt]) ad1 = Inr ((subs @ [pkt]) @ l, ad2)"
        "length ((subs @ [pkt]) @ l) \<le> 64" "watched l ad1 ad2"
        using less.IH [of m p buf' "subs @ [pkt]" ad1] go2 step(1) by auto
      then show ?thesis
        using go1 watched_trans [OF step(2)] by (intro exI [of _ "pkt # l"] exI [of _ ad2]) simp_all
    qed
    consider "64 \<le> length (subs @ [pkt]) \<or> a_len \<noteq> 14 + n \<and> a_len < 14 + n + pad"
      | "\<not> 64 \<le> length (subs @ [pkt])" "a_len = 14 + n" | "\<not> 64 \<le> length (subs @ [pkt])" "a_len \<noteq> 14 + n" "14 + n + pad \<le> a_len"
      by linarith
    then show ?thesis
    proof cases
      case 1
      then show ?thesis
        using less.prems(2) step(2,3) by (intro exI [of _ "[pkt]"] exI [of _ ad1]) auto
    next
      case 2
      then show ?thesis
        using less.prems(1) r(1,4) step(3) by (intro go [of "pdata + 14 + n" 0]) simp_all
    next
      case 3
      then show ?thesis
        using less.prems(1) r(1,4) step(3) by (intro go [of "pdata + 14 + n + pad" "a_len - (14 + n + pad)"]) simp_all
    qed
  qed
qed

text \<open>The adapter after a loop that ends, wherever it starts.\<close>

lemma rtw_os_alloc_msdu_pkt_watched:
  assumes "rtw_os_alloc_msdu_pkt m buf pdata n ad = Inr (p, buf', ad')"
  shows "\<exists>pkts. watched pkts ad ad'"
proof -
  have "ad' = ad \<or> ad' = saw_pkt 8 n ad"
    using assms by (auto simp: rtw_os_alloc_msdu_pkt_def rbind_eq_Inr Let_def split: msdu_mem.splits)
  moreover have "watched [[]] ad (saw_pkt 8 n ad)" by (rule watched_saw) (simp add: reads_inside_def)
  ultimately show ?thesis using watched_refl [of ad] by blast
qed

lemma amsdu_loop_watched:
  "amsdu_loop mem i buf pdata a_len subs ad = Inr (l, ad') \<Longrightarrow> \<exists>pkts. watched pkts ad ad'"
proof (induction a_len arbitrary: buf pdata subs ad rule: less_induct)
  case (less a_len)
  note run = less.prems [unfolded amsdu_loop.simps [of mem i buf pdata a_len subs ad] Let_def]
  have stop: ?case if "ad' = ad" using that watched_refl by blast
  show ?case
  proof (cases "a_len \<le> 14")
    case True
    then show ?thesis using run by (intro stop) simp
  next
    case big: False
    obtain b where b: "mem_get buf (pdata + 12) 2 = Inr b" using run big by (auto simp: rbind_eq_Inr)
    define n where "n = be16 b"
    define d where "d = a_len - 14 - n"
    show ?thesis
    proof (cases "a_len < 14 + n")
      case True
      then show ?thesis using run big by (intro stop) (simp add: b n_def)
    next
      case False
      obtain sp buf1 ad1 where a: "rtw_os_alloc_msdu_pkt (mem (length subs)) buf pdata n ad = Inr (sp, buf1, ad1)"
        using run big False by (auto simp: b rbind_eq_Inr simp flip: n_def)
      obtain pk where w: "watched pk ad ad1" using rtw_os_alloc_msdu_pkt_watched [OF a] by blast
      note run1 = run [unfolded b rbind_Inr n_def [symmetric] a prod.case]
      show ?thesis
      proof (cases sp)
        case None
        then have "ad' = ad1" using run1 big False by simp
        then show ?thesis using w by blast
      next
        case (Some p)
        obtain ad2 where c: "rtw_recv_indicatepkt_check i p ad1 = (True, ad2)" "watched [p] ad1 ad2"
          by (rule rtw_recv_indicatepkt_check_watched)
        have ne: "(a_len \<le> 14) = False" "(a_len < 14 + n) = False" using big False by simp_all
        note run2 = run1 [unfolded Some option.case c(1) prod.case if_True ne if_False d_def [symmetric]]
        have "ad' = ad2 \<or> (\<exists>b p m s. m < a_len \<and> amsdu_loop mem i b p m s ad2 = Inr (l, ad'))"
        proof -
          have "d < a_len" "d - k < a_len" for k using big by (simp_all add: d_def)
          then show ?thesis using run2 by (metis (no_types, lifting) Inr_inject prod.inject)
        qed
        then obtain pk2 where "watched pk2 ad2 ad'" using less.IH watched_refl by blast
        then show ?thesis using watched_trans [OF watched_trans [OF w c(2)]] by blast
      qed
    qed
  qed
qed

lemma nat_sint_le: "nat (sint x) \<le> unat x" for x :: u32
proof -
  have "signed_take_bit 31 (uint x) \<le> uint x"
    unfolding signed_take_bit_int_less_eq_self_iff by (rule order_trans [OF _ uint_ge_0]) simp
  then have "sint x \<le> uint x" by (simp only: sint_uint) simp
  then show ?thesis by (simp only: unat_eq_nat_uint nat_mono)
qed

lemma nat_sint_small: "unat x < 2 ^ 31 \<Longrightarrow> nat (sint x) = unat x" for x :: u32
proof -
  assume "unat x < 2 ^ 31"
  then have "int (unat x) < int (2 ^ 31)" by (simp only: of_nat_less_iff)
  then have "uint x < 2 ^ 31" by (simp only: uint_nat) simp
  moreover have "- (2 ^ 31) \<le> uint x" by (rule order_trans [OF _ uint_ge_0]) simp
  ultimately have "signed_take_bit 31 (uint x) = uint x"
    by (intro signed_take_bit_int_eq_self) 
  then have "sint x = uint x" by (simp only: sint_uint) simp
  then show ?thesis by (simp only: unat_eq_nat_uint)
qed

lemma ignoring_pull_ok: "rframe_ok f \<Longrightarrow> rframe_ok (ignoring (\<lambda>f. recvframe_pull f (n f)) f)"
  using recvframe_pull_ok(2) [of f "n f"] by (auto simp: ignoring_def split: option.split)

lemma ignoring_pull_contents:
  assumes "rframe_ok f" and "n f \<le> length (contents f)"
  shows "contents (ignoring (\<lambda>f. recvframe_pull f (n f)) f) = drop (n f) (contents f)"
    and "fr_iv_len (ignoring (\<lambda>f. recvframe_pull f (n f)) f) = fr_iv_len f"
proof -
  obtain g where "recvframe_pull f (n f) = Some g" using recvframe_pull_ok(1) [OF assms(1), of "n f"] assms(2) by simp
  then show "contents (ignoring (\<lambda>f. recvframe_pull f (n f)) f) = drop (n f) (contents f)"
    "fr_iv_len (ignoring (\<lambda>f. recvframe_pull f (n f)) f) = fr_iv_len f"
    using recvframe_pull_ok(2) [OF assms(1), of "n f" g] by (auto simp: ignoring_def recvframe_pull_def split: if_splits)
qed

text \<open>The frame when the loop starts.\<close>

definition amsdu_start :: "rframe \<Rightarrow> rframe" where
  "amsdu_start f =
     (let f = ignoring (\<lambda>f. recvframe_pull f (unat (fr_hdrlen f))) f
      in if 0 < fr_iv_len f then ignoring (\<lambda>f. recvframe_pull f (unat (fr_iv_len f))) f else f)"

lemma amsdu_start_ok: "rframe_ok f \<Longrightarrow> rframe_ok (amsdu_start f)"
  by (simp add: amsdu_start_def Let_def ignoring_pull_ok)

lemma amsdu_start_contents:
  assumes "rframe_ok f" and "unat (fr_hdrlen f) + unat (fr_iv_len f) \<le> length (contents f)"
  shows "contents (amsdu_start f) = drop (unat (fr_hdrlen f) + unat (fr_iv_len f)) (contents f)"
proof -
  define g where "g = ignoring (\<lambda>f. recvframe_pull f (unat (fr_hdrlen f))) f"
  have g: "rframe_ok g" "contents g = drop (unat (fr_hdrlen f)) (contents f)" "fr_iv_len g = fr_iv_len f"
    unfolding g_def using assms ignoring_pull_ok ignoring_pull_contents [of f "\<lambda>f. unat (fr_hdrlen f)"] by simp_all
  then have "unat (fr_iv_len g) \<le> length (contents g)" using assms by simp
  from ignoring_pull_contents(1) [of g "\<lambda>f. unat (fr_iv_len f)", OF g(1) this] show ?thesis
    using g by (cases "fr_iv_len f = 0") (simp_all add: amsdu_start_def Let_def word_gt_0 add.commute flip: g_def)
qed

lemma amsdu_to_msdu_result:
  assumes "pool_ok {#i#} ad" and "amsdu_start (frames ad i) = g"
    and "amsdu_loop mem i (fr_buf g) (rx_data g) (nat (sint (fr_len g))) [] ad = Inr (l, ad1)" and w: "watched l ad ad1"
  shows "\<exists>ad'. amsdu_to_msdu mem i ad = Inr (True, ad') \<and> delivered ad' = delivered ad @ l \<and> pool_ok {#} ad' \<and> over_read ad' = over_read ad1"
proof -
  define ad2 where "ad2 = (set_frame i (g\<lparr>fr_len := 0\<rparr>) ad1)\<lparr>delivered := delivered ad1 @ l\<rparr>"
  have "amsdu_to_msdu mem i ad = Inr (True, rtw_free_recvframe i ad2)"
    using assms(3) unfolding amsdu_to_msdu_def assms(2) [unfolded amsdu_start_def] Let_def
    unfolding assms(2) [unfolded amsdu_start_def Let_def] ad2_def by simp
  moreover have "pool_ok {#} (rtw_free_recvframe i ad2)"
  proof (rule pool_ok_free_held)
    have "places ad2 = places ad" by (rule places_cong) (simp_all add: ad2_def set_frame_def watched_fields [OF w])
    then show "pool_ok {#i#} ad2"
      using assms(1) pool_ok_cong [of ad2 ad "{#i#}"] by (simp add: ad2_def set_frame_def watched_fields [OF w])
  qed
  moreover have "delivered (rtw_free_recvframe i ad2) = delivered ad @ l" "over_read (rtw_free_recvframe i ad2) = over_read ad1"
    by (simp_all add: rtw_free_recvframe_def rtw_list_delete_def set_frame_def ad2_def watched_fields [OF w])
  ultimately show ?thesis by blast
qed

text \<open>
  An aggregate as 802.11n defines it: the subframes one after the other, each but the last one padded to a
  multiple of four bytes. A subframe has two addresses and a payload.
\<close>

definition subframe :: "bytes \<times> bytes \<Rightarrow> bytes" where
  "subframe sf = fst sf @ be16_bytes (length (snd sf)) @ snd sf"

definition subframe_pad :: "bytes \<times> bytes \<Rightarrow> nat" where
  "subframe_pad sf = (let n = length (snd sf) + 14 in if n mod 4 = 0 then 0 else 4 - n mod 4)"

fun amsdu_bytes :: "(bytes \<times> bytes) list \<Rightarrow> bytes" where
  "amsdu_bytes [] = []"
| "amsdu_bytes [sf] = subframe sf"
| "amsdu_bytes (sf # sfs) = subframe sf @ replicate (subframe_pad sf) 0 @ amsdu_bytes sfs"

definition subframe_ok :: "bytes \<times> bytes \<Rightarrow> bool" where
  "subframe_ok sf \<longleftrightarrow> length (fst sf) = 12 \<and> snd sf \<noteq> [] \<and> length (snd sf) < 2 ^ 16"

lemma be16_bytes [simp]: "length (be16_bytes n) = 2" "n < 2 ^ 16 \<Longrightarrow> be16 (be16_bytes n) = n"
proof -
  show "length (be16_bytes n) = 2" by (simp add: be16_bytes_def)
  assume "n < 2 ^ 16"
  then have "n div 256 < 256" by simp
  then show "be16 (be16_bytes n) = n"
    by (simp add: be16_def be16_bytes_def unat_of_nat take_bit_eq_mod)
qed

lemma amsdu_loop_subframe:
  assumes "drop pdata buf = subframe sf @ r" and "pdata \<le> length buf" and "subframe_ok sf" and "14 + length (snd sf) \<le> a_len"
    and "a_len \<le> length (subframe sf @ r)" and "mem (length subs) \<noteq> Msdu_none"
  obtains buf' ad' where "length buf' = length buf" and "drop (pdata + (14 + length (snd sf))) buf' = drop (pdata + (14 + length (snd sf))) buf"
    and "watched [msdu_pkt (fst sf) (snd sf)] ad ad'"
    and "amsdu_loop mem i buf pdata a_len subs ad =
    (if 64 \<le> length subs + 1 then Inr (subs @ [msdu_pkt (fst sf) (snd sf)], ad')
     else if a_len = 14 + length (snd sf) then Inr (subs @ [msdu_pkt (fst sf) (snd sf)], ad')
     else if a_len < 14 + length (snd sf) + subframe_pad sf then Inr (subs @ [msdu_pkt (fst sf) (snd sf)], ad')
     else amsdu_loop mem i buf' (pdata + (14 + length (snd sf) + subframe_pad sf))
       (a_len - (14 + length (snd sf) + subframe_pad sf)) (subs @ [msdu_pkt (fst sf) (snd sf)]) ad')"
proof -
  define n where "n = length (snd sf)"
  have sf: "length (fst sf) = 12" "0 < n" "n < 2 ^ 16"
    using assms(3) by (simp_all add: subframe_ok_def n_def)
  have room: "pdata + a_len \<le> length buf"
    using assms(2,5) arg_cong [OF assms(1), of length] by simp
  have "drop (pdata + k) buf = drop k (subframe sf @ r)" for k
    by (simp add: add.commute flip: assms(1))
  then have "drop (pdata + 12) buf = be16_bytes n @ snd sf @ r" "drop (pdata + 14) buf = snd sf @ r"
    using sf(1) by (simp_all add: subframe_def n_def)
  then have rd: "be16 (take 2 (drop (pdata + 12) buf)) = n" "take n (drop (pdata + 14) buf) = snd sf" "take 12 (drop pdata buf) = fst sf"
    using sf assms(1) by (simp_all add: n_def subframe_def)
  have pad: "(if (n + 14) mod 4 = 0 then 0 else 4 - (n + 14) mod 4) = subframe_pad sf"
    by (simp add: subframe_pad_def Let_def n_def)
  have e: "amsdu_loop mem i b p 0 l a = Inr (l, a)" for b p l a
    by (subst amsdu_loop.simps) simp
  have "14 < a_len" "14 + n \<le> a_len"
    using sf(2) assms(4) unfolding n_def by linarith+
  then obtain buf' ad' where step: "length buf' = length buf" "drop (pdata + 14 + n) buf' = drop (pdata + 14 + n) buf"
    "watched [msdu_pkt (fst sf) (snd sf)] ad ad'"
    "amsdu_loop mem i buf pdata a_len subs ad =
      (if 64 \<le> length (subs @ [msdu_pkt (fst sf) (snd sf)]) then Inr (subs @ [msdu_pkt (fst sf) (snd sf)], ad')
       else if a_len = 14 + n then amsdu_loop mem i buf' (pdata + 14 + n) 0 (subs @ [msdu_pkt (fst sf) (snd sf)]) ad'
       else if a_len < 14 + n + subframe_pad sf then Inr (subs @ [msdu_pkt (fst sf) (snd sf)], ad')
       else amsdu_loop mem i buf' (pdata + 14 + n + subframe_pad sf) (a_len - (14 + n + subframe_pad sf)) (subs @ [msdu_pkt (fst sf) (snd sf)]) ad')"
    by (rule amsdu_loop_step [OF room, where mem = mem and i = i and ad = ad, OF _ _ assms(6), unfolded rd pad])
  show ?thesis
    by (rule that [OF step(1) _ step(3)]) (use step(2) in \<open>simp_all add: step(4) e add.assoc flip: n_def\<close>)
qed

lemma amsdu_loop_all:
  assumes "drop pdata buf = amsdu_bytes sfs @ r" and "pdata \<le> length buf" and "\<forall>sf\<in>set sfs. subframe_ok sf" and "length subs + length sfs \<le> 64"
    and "\<forall>k. mem k \<noteq> Msdu_none"
  shows "\<exists>ad'. amsdu_loop mem i buf pdata (length (amsdu_bytes sfs)) subs ad = Inr (subs @ map (\<lambda>sf. msdu_pkt (fst sf) (snd sf)) sfs, ad') \<and>
    watched (map (\<lambda>sf. msdu_pkt (fst sf) (snd sf)) sfs) ad ad'"
  using assms(1-4)
proof (induction sfs arbitrary: buf pdata subs ad rule: amsdu_bytes.induct)
  case 1
  then show ?case by (subst amsdu_loop.simps) simp
next
  case (2 sf)
  then have l: "length (subframe sf) = 14 + length (snd sf)" by (simp add: subframe_def subframe_ok_def)
  obtain buf' ad' where "watched [msdu_pkt (fst sf) (snd sf)] ad ad'"
    "amsdu_loop mem i buf pdata (14 + length (snd sf)) subs ad = Inr (subs @ [msdu_pkt (fst sf) (snd sf)], ad')"
  proof (rule amsdu_loop_subframe [of pdata buf sf r "14 + length (snd sf)" mem subs ad i])
    show "drop pdata buf = subframe sf @ r" "pdata \<le> length buf" "subframe_ok sf" "mem (length subs) \<noteq> Msdu_none"
      using 2 assms(5) by simp_all
  qed (use l that in auto)
  then show ?case using l by simp
next
  case (3 sf sf' sfs)
  define rest where "rest = amsdu_bytes (sf' # sfs)"
  define n where "n = 14 + length (snd sf)"
  define m where "m = n + subframe_pad sf"
  have l: "length (subframe sf) = n"
    using 3(4) by (simp add: subframe_def subframe_ok_def n_def)
  have b: "drop pdata buf = subframe sf @ replicate (subframe_pad sf) 0 @ rest @ r" "length (amsdu_bytes (sf # sf' # sfs)) = m + length rest"
    using 3(2) l by (simp_all add: rest_def m_def)
  have r: "0 < length rest"
    unfolding rest_def by (cases sfs) (simp_all add: subframe_def be16_bytes_def)
  have ok: "subframe_ok sf" using 3(4) by simp
  have a: "14 + length (snd sf) \<le> m + length rest" "m + length rest \<le> length (subframe sf @ replicate (subframe_pad sf) 0 @ rest @ r)"
    using l by (simp_all add: m_def n_def)
  obtain buf' ad1 where s: "length buf' = length buf" "drop (pdata + n) buf' = drop (pdata + n) buf"
    "watched [msdu_pkt (fst sf) (snd sf)] ad ad1"
    "amsdu_loop mem i buf pdata (m + length rest) subs ad =
    (if 64 \<le> length subs + 1 then Inr (subs @ [msdu_pkt (fst sf) (snd sf)], ad1)
     else if m + length rest = n then Inr (subs @ [msdu_pkt (fst sf) (snd sf)], ad1)
     else if m + length rest < m then Inr (subs @ [msdu_pkt (fst sf) (snd sf)], ad1)
     else amsdu_loop mem i buf' (pdata + m) (m + length rest - m) (subs @ [msdu_pkt (fst sf) (snd sf)]) ad1)"
    unfolding m_def n_def by (rule amsdu_loop_subframe [OF b(1) 3(3) ok a [unfolded m_def n_def] assms(5) [rule_format]])
  have c: "\<not> 64 \<le> length subs + 1" "m + length rest \<noteq> n" "\<not> m + length rest < m" "m + length rest - m = length rest"
    using 3(5) r by (simp_all add: m_def)
  have run: "amsdu_loop mem i buf pdata (m + length rest) subs ad = amsdu_loop mem i buf' (pdata + m) (length rest) (subs @ [msdu_pkt (fst sf) (snd sf)]) ad1"
    unfolding s(4) using c by simp
  have "drop (pdata + m) buf' = drop (subframe_pad sf) (drop (pdata + n) buf')" by (simp add: m_def add.commute add.left_commute)
  also have "\<dots> = drop m (drop pdata buf)" unfolding s(2) by (simp add: m_def add.commute add.left_commute)
  also have "\<dots> = rest @ r" unfolding b(1) by (simp add: m_def l)
  finally have d: "drop (pdata + m) buf' = amsdu_bytes (sf' # sfs) @ r" by (simp add: rest_def)
  have e: "pdata + m \<le> length buf'"
    using 3(3) s(1) arg_cong [OF b(1), of length] l by (simp add: m_def)
  have p: "\<forall>sf\<in>set (sf' # sfs). subframe_ok sf" "length (subs @ [msdu_pkt (fst sf) (snd sf)]) + length (sf' # sfs) \<le> 64"
    using 3(4,5) by simp_all
  obtain ad2 where "amsdu_loop mem i buf' (pdata + m) (length rest) (subs @ [msdu_pkt (fst sf) (snd sf)]) ad1 =
      Inr ((subs @ [msdu_pkt (fst sf) (snd sf)]) @ map (\<lambda>sf. msdu_pkt (fst sf) (snd sf)) (sf' # sfs), ad2)"
    "watched (map (\<lambda>sf. msdu_pkt (fst sf) (snd sf)) (sf' # sfs)) ad1 ad2"
    using 3(1) [OF d e p, of ad1] unfolding rest_def by blast
  then show ?case
    unfolding b(2) run using watched_trans [OF s(3)] by (intro exI [of _ ad2]) simp
qed

text \<open>An adapter with one frame in hand, the others free.\<close>

definition example_one :: "rframe \<Rightarrow> rx_adapter" where
  "example_one f = rtw_free_recvframe 1 (example_adapter (\<lambda>i. f))"

lemma example_one:
  "pool_ok {#0#} (example_one f)" "frames (example_one f) 0 = f"
  "\<not> auth_8021X (example_one f)" "delivered (example_one f) = []"
proof -
  show "pool_ok {#0#} (example_one f)"
    unfolding example_one_def by (intro pool_ok_free_held) (metis example_pool add_mset_commute)
  show "frames (example_one f) 0 = f" "\<not> auth_8021X (example_one f)" "delivered (example_one f) = []"
    by (simp_all add: example_one_def rtw_free_recvframe_def rtw_list_delete_def set_frame_def example_adapter_def Let_def)
qed

text \<open>A frame of 24 bytes of header with an IP packet of four bytes; \<open>am\<close> says that it is an aggregate.\<close>

definition example_plain :: "u8 \<Rightarrow> bytes \<Rightarrow> rframe" where
  "example_plain am pl =
     (example_fragment 0 0 0 0 (replicate 24 8 @ pl))\<lparr>fr_iv_len := 0, fr_icv_len := 0, fr_encrypt := 0, fr_amsdu := am\<rparr>"

lemma example_plain:
  assumes "12 \<le> length pl" and "length pl < 900"
  shows "rframe_ok (example_plain am pl)" and "contents (example_plain am pl) = replicate 24 8 @ pl"
proof -
  define f where "f = example_fragment 0 0 0 0 (replicate 24 8 @ pl)"
  have l: "36 \<le> length (replicate 24 8 @ pl)" "length (replicate 24 8 @ pl) < 1000" using assms by simp_all
  have "rframe_ok f" "contents f = replicate 24 8 @ pl"
    using example_fragment_ok [OF l, of 0 0 0 0] by (simp_all add: fragment_def f_def)
  then show "rframe_ok (example_plain am pl)" "contents (example_plain am pl) = replicate 24 8 @ pl"
    by (simp_all add: example_plain_def rframe_ok_def contents_def flip: f_def)
qed

text \<open>
  C17: Taking an aggregate apart is safe: whatever the contents of a received frame and whatever memory there
  is for its packets (copies, clones that lie in the frame itself, or none), \<open>amsdu_to_msdu\<close> ends, never
  parses or writes outside the buffer of the frame, hands on at most 64 packets and gives the receive frame
  back. In two places the code looks at a packet without regard to its length: at the type, also of a payload
  of fewer than eight bytes, and in the session tracker, at the headers of an IP packet. When every packet
  handed on has at least 22 bytes, and an IP packet at least 88, no byte behind a packet is read there.
\<close>
theorem amsdu_safe:
  assumes "pool_ok {#i#} ad" and "rframe_ok (frames ad i)"
  shows "\<exists>subframes ad'. amsdu_to_msdu mem i ad = Inr (True, ad') \<and> length subframes \<le> MAX_SUBFRAME_COUNT \<and>
    delivered ad' = delivered ad @ subframes \<and> pool_ok {#} ad' \<and> (list_all reads_inside subframes \<longrightarrow> over_read ad' = over_read ad)"
proof -
  define g where "g = amsdu_start (frames ad i)"
  have "rframe_ok g" unfolding g_def by (rule amsdu_start_ok [OF assms(2)])
  then have "rx_data g + nat (sint (fr_len g)) \<le> length (fr_buf g)"
    using nat_sint_le [of "fr_len g"] unfolding rframe_ok_def by linarith
  then obtain l ad1 where l: "amsdu_loop mem i (fr_buf g) (rx_data g) (nat (sint (fr_len g))) [] ad = Inr (l, ad1)" "length l \<le> 64"
    "watched l ad ad1"
    using amsdu_loop_safe [of "rx_data g" "nat (sint (fr_len g))" "fr_buf g" "[]" mem i ad] by auto
  show ?thesis
    using amsdu_to_msdu_result [OF assms(1) g_def [symmetric] l(1,3)] l(2,3) unfolding MAX_SUBFRAME_COUNT_def watched_def by metis
qed

text \<open>The packets of the example are clones; they hold eight bytes and more, and are not IP.\<close>

theorem amsdu_safe_witness:
  "\<exists>subframes ad'. amsdu_to_msdu (\<lambda>k. Msdu_clone) 0 (example_one (example_plain 1 (replicate 20 255))) = Inr (True, ad') \<and>
     length subframes \<le> MAX_SUBFRAME_COUNT \<and> delivered ad' = subframes"
proof -
  have "rframe_ok (frames (example_one (example_plain 1 (replicate 20 255))) 0)"
    unfolding example_one by (rule example_plain(1)) simp_all
  from amsdu_safe [OF example_one(1) this, of "\<lambda>k. Msdu_clone"] show ?thesis
    unfolding example_one append_Nil by blast
qed

text \<open>
  C18: An aggregate of up to 64 packets is taken apart into the packets it was built from, in order, and
  the receive frame is free again, when there is memory for every packet, be it a copy or a clone. An empty
  subframe at the end is the only one that could be lost, so payloads are taken to be nonempty.
\<close>
theorem amsdu_roundtrip:
  assumes "pool_ok {#i#} ad" and "rframe_ok (frames ad i)" and "contents (frames ad i) = hdr @ amsdu_bytes sfs"
    and "length hdr = unat (fr_hdrlen (frames ad i)) + unat (fr_iv_len (frames ad i))" and "length (contents (frames ad i)) < 2 ^ 31"
    and "\<forall>sf\<in>set sfs. subframe_ok sf" and "length sfs \<le> 64" and "\<forall>k. mem k \<noteq> Msdu_none"
  shows "\<exists>ad'. amsdu_to_msdu mem i ad = Inr (True, ad') \<and>
    delivered ad' = delivered ad @ map (\<lambda>sf. msdu_pkt (fst sf) (snd sf)) sfs \<and> pool_ok {#} ad'"
proof -
  define g where "g = amsdu_start (frames ad i)"
  have g: "rframe_ok g" "contents g = amsdu_bytes sfs"
    using amsdu_start_ok [OF assms(2)] amsdu_start_contents [OF assms(2)] assms(3,4) by (simp_all add: g_def)
  have l: "unat (fr_len g) = length (amsdu_bytes sfs)" using fr_len_contents [OF g(1)] g(2) by simp
  then have "unat (fr_len g) < 2 ^ 31" using assms(3,5) by simp
  then have n: "nat (sint (fr_len g)) = length (amsdu_bytes sfs)"
    using l by (simp add: nat_sint_small)
  have d: "drop (rx_data g) (fr_buf g) = amsdu_bytes sfs @ drop (rx_tail g - rx_data g) (drop (rx_data g) (fr_buf g))"
    unfolding g(2) [symmetric] contents_def by (rule append_take_drop_id [symmetric])
  have "rx_data g \<le> length (fr_buf g)" using g(1) unfolding rframe_ok_def by linarith
  then obtain ad1 where r: "amsdu_loop mem i (fr_buf g) (rx_data g) (nat (sint (fr_len g))) [] ad = Inr (map (\<lambda>sf. msdu_pkt (fst sf) (snd sf)) sfs, ad1)"
    "watched (map (\<lambda>sf. msdu_pkt (fst sf) (snd sf)) sfs) ad ad1"
    using amsdu_loop_all [OF d _ assms(6), of "[]" mem i ad] assms(7,8) unfolding n by auto
  show ?thesis using amsdu_to_msdu_result [OF assms(1) g_def [symmetric] r] by blast
qed

theorem amsdu_roundtrip_witness:
  "\<exists>ad'. amsdu_to_msdu (\<lambda>k. if k = 0 then Msdu_copy else Msdu_clone) 0 (example_one (example_plain 1
       (amsdu_bytes [(replicate 12 1, [5, 6, 7]), (replicate 12 2, rtw_rfc1042_header @ [8, 0, 9])]))) = Inr (True, ad') \<and>
     delivered ad' = [replicate 12 1 @ [0, 3, 5, 6, 7], replicate 12 2 @ [8, 0, 9]]"
proof -
  define sfs where "sfs = [(replicate 12 1, [5, 6, 7]), (replicate 12 2, rtw_rfc1042_header @ [8, 0, 9]) :: bytes \<times> bytes]"
  define f where "f = example_plain 1 (amsdu_bytes sfs)"
  let ?mem = "\<lambda>k :: nat. if k = 0 then Msdu_copy else Msdu_clone"
  have len: "length (amsdu_bytes sfs) = 43"
    by (simp add: sfs_def subframe_def subframe_pad_def rtw_rfc1042_header_def)
  then have f: "rframe_ok f" "contents f = replicate 24 8 @ amsdu_bytes sfs"
    unfolding f_def by (intro example_plain; simp)+
  have h: "length (replicate 24 8 :: bytes) = unat (fr_hdrlen f) + unat (fr_iv_len f)"
    by (simp add: f_def example_plain_def)
  have ok: "\<forall>sf\<in>set sfs. subframe_ok sf" "length sfs \<le> 64" "\<forall>k. ?mem k \<noteq> Msdu_none"
    by (simp_all add: sfs_def subframe_ok_def rtw_rfc1042_header_def)
  have p: "map (\<lambda>sf. msdu_pkt (fst sf) (snd sf)) sfs = [replicate 12 1 @ [0, 3, 5, 6, 7], replicate 12 2 @ [8, 0, 9]]"
    by (simp add: sfs_def msdu_pkt_def snap_removed_def rtw_rfc1042_header_def be16_bytes_def)
  obtain ad' where "amsdu_to_msdu ?mem 0 (example_one f) = Inr (True, ad')"
    "delivered ad' = [replicate 12 1 @ [0, 3, 5, 6, 7], replicate 12 2 @ [8, 0, 9]]"
    using amsdu_roundtrip [OF example_one(1), of f "replicate 24 8" sfs ?mem] f h ok len
    unfolding example_one p append_Nil by auto
  then show ?thesis unfolding f_def sfs_def by (intro exI conjI)
qed

end
