(* ===== verification/Rx_Post.thy ===== *)
theory Rx_Post
  imports Rx_Amsdu
begin

text \<open>
  The end of the driver's receive path (\<^verbatim>\<open>kernel/core/rtw_recv.c\<close>): the port that is closed until a station
  has authenticated (\<open>portctrl\<close>), the change of the header (\<open>wlanhdr_to_ethhdr\<close>), \<open>recv_process_mpdu\<close>, and
  \<open>recv_func_posthandle\<close>, which takes a frame through decryption, defragmentation, the port and the reordering
  window. The theorems say what an ordinary frame is delivered as, and that on every way through this path
  each receive frame stays in exactly one list, with one exception that is part of the statement.
\<close>

section \<open>The port\<close>

definition portctrl :: "nat \<Rightarrow> rx_adapter \<Rightarrow> (nat option \<times> rx_adapter) res" where
  "portctrl i ad =
     (let f = frames ad i
      in if auth_8021X ad then
           (case rtw_get_stainfo ad (fr_ta f) of
              None \<Rightarrow> Inr (Some i, ad)
            | Some s \<Rightarrow>
                if ieee8021x_blocked (stainfo_buf ad s) then
                  rbind (mem_get (fr_buf f) (rx_data f + unat (fr_hdrlen f) + unat (fr_iv_len f) + 6) 2) (\<lambda>ether_type.
                  Inr (if ether_type = [0x88, 0x8e] then (Some i, ad) else (None, rtw_free_recvframe i ad)))
                else Inr (Some i, ad))
         else Inr (Some i, ad))"

section \<open>The Ethernet header\<close>

text \<open>
  Without the test mode. Headers of 802.11 have at least 24 bytes, so the pointer only moves forward; a
  shorter one is taken for a fault.
\<close>

definition wlanhdr_to_ethhdr :: "rframe \<Rightarrow> (bool \<times> rframe) res" where
  "wlanhdr_to_ethhdr f =
     (let f = (if fr_encrypt f \<noteq> 0 then ignoring (\<lambda>f. recvframe_pull_tail f (unat (fr_icv_len f))) f else f);
          psnap = rx_data f + unat (fr_hdrlen f) + unat (fr_iv_len f)
      in rbind (mem_get (fr_buf f) psnap 6) (\<lambda>snap.
         rbind (if snap = rtw_rfc1042_header then mem_get (fr_buf f) (psnap + 6) 2 else Inr []) (\<lambda>psnap_type.
         (let bsnaphdr = snap_removed snap psnap_type;
              rmv_len = unat (fr_hdrlen f) + unat (fr_iv_len f) + (if bsnaphdr then 6 else 0);
              len = (ucast (fr_len f - of_nat rmv_len) :: u16)
          in rbind (mem_get (fr_buf f) (rx_data f + rmv_len) 2) (\<lambda>eth_type.
             rbind (require (14 \<le> rmv_len + (if bsnaphdr then 2 else 0)) Index_out_of_bounds) (\<lambda>_.
             (case recvframe_pull f (rmv_len + (if bsnaphdr then 2 else 0) - 14) of
                None \<Rightarrow> Inr (False, f)
              | Some f \<Rightarrow>
                  rbind (memcpy_at (fr_buf f) (rx_data f)
                    (take 6 (fr_dst f) @ take 6 (fr_src f) @ (if bsnaphdr then [] else be16_bytes (unat len)))) (\<lambda>buf.
                  Inr (True, f\<lparr>fr_buf := buf\<rparr>)))))))))"

section \<open>A frame is delivered\<close>

definition rtw_recv_indicatepkt :: "nat \<Rightarrow> rx_adapter \<Rightarrow> bool \<times> rx_adapter" where
  "rtw_recv_indicatepkt i ad =
     (let f = frames ad i
      in if fr_pkt f then
           (True, rtw_free_recvframe i
             ((set_frame i (f\<lparr>fr_pkt := False\<rparr>) ad)\<lparr>delivered := delivered ad @ [take (unat (fr_len f)) (drop (rx_data f) (fr_buf f))]\<rparr>))
         else (False, rtw_free_recvframe i ad))"

definition recv_process_mpdu :: "(nat \<Rightarrow> msdu_mem) \<Rightarrow> bool \<Rightarrow> nat \<Rightarrow> rx_adapter \<Rightarrow> (bool \<times> rx_adapter) res" where
  "recv_process_mpdu mem cannot_run i ad =
     (if fr_amsdu (frames ad i) \<noteq> 0 then amsdu_to_msdu mem i ad
      else rbind (wlanhdr_to_ethhdr (frames ad i)) (\<lambda>(ok, f).
        (let ad = set_frame i f ad
         in Inr (if \<not> ok then (False, rtw_free_recvframe i ad)
                 else if cannot_run then (True, rtw_free_recvframe i ad)
                 else
                   (case rtw_recv_indicatepkt_check i (take (unat (fr_len f)) (drop (rx_data f) (fr_buf f))) ad of (ok, ad) \<Rightarrow>
                    if \<not> ok then (False, rtw_free_recvframe i ad) else rtw_recv_indicatepkt i ad)))))"

section \<open>The whole path\<close>

definition set_ctrl :: "nat \<times> nat \<Rightarrow> reorder_ctrl \<Rightarrow> rx_adapter \<Rightarrow> rx_adapter" where
  "set_ctrl st c ad =
     set_sta (fst st) ((stainfo_buf ad (fst st))\<lparr>recvreorder_ctrl := (recvreorder_ctrl (stainfo_buf ad (fst st)))[snd st := c]\<rparr>) ad"

definition get_ctrl :: "nat \<times> nat \<Rightarrow> rx_adapter \<Rightarrow> reorder_ctrl" where
  "get_ctrl st ad = recvreorder_ctrl (stainfo_buf ad (fst st)) ! snd st"

definition mpdu_of :: "nat \<Rightarrow> rframe \<Rightarrow> mpdu" where
  "mpdu_of i f = \<lparr>mp_id = i, mp_seq = fr_seq_num f, mp_qos = fr_qos f\<rparr>"

text \<open>The frames the reordering window hands on are processed one after the other.\<close>

fun process_all :: "(nat \<Rightarrow> msdu_mem) \<Rightarrow> bool \<Rightarrow> nat list \<Rightarrow> rx_adapter \<Rightarrow> rx_adapter res" where
  "process_all mem cannot_run [] ad = Inr ad"
| "process_all mem cannot_run (i # is) ad =
     rbind (recv_process_mpdu mem cannot_run i ad) (\<lambda>(ok, ad). process_all mem cannot_run is ad)"

text \<open>
  The window of \<open>Rx_Reorder\<close> in the adapter: it decides, the frames it hands on leave its queue and are
  processed. Whether the processing of a frame succeeds depends on that frame alone.
\<close>

definition processed_ok :: "(nat \<Rightarrow> msdu_mem) \<Rightarrow> bool \<Rightarrow> rx_adapter \<Rightarrow> mpdu \<Rightarrow> bool" where
  "processed_ok mem cannot_run ad f =
     (case recv_process_mpdu mem cannot_run (mp_id f) ad of Inr (ok, _) \<Rightarrow> ok | Inl _ \<Rightarrow> False)"

definition indicate_reorder :: "(nat \<Rightarrow> msdu_mem) \<Rightarrow> bool \<Rightarrow> nat \<Rightarrow> rx_adapter \<Rightarrow> (rx_ret \<times> rx_adapter) res" where
  "indicate_reorder mem cannot_run i ad =
     (let f = frames ad i;
          before = length (indicated (recvpriv ad))
      in case recv_indicatepkt_reorder (processed_ok mem cannot_run ad) (map_option (\<lambda>st. get_ctrl st ad) (fr_ctrl f))
                (recvpriv ad) (mpdu_of i f) of
           (ret, ctrl, p) \<Rightarrow>
             (let ad = (case (fr_ctrl f, ctrl) of (Some st, Some c) \<Rightarrow> set_ctrl st c ad | _ \<Rightarrow> ad);
                  ad = ad\<lparr>recvpriv := p\<rparr>
              in rbind (process_all mem cannot_run (map mp_id (drop before (indicated p))) ad) (\<lambda>ad. Inr (ret, ad))))"

definition count_drop :: "rx_adapter \<Rightarrow> rx_adapter" where
  "count_drop ad = ad\<lparr>recvpriv := (recvpriv ad)\<lparr>rx_drop_count := rx_drop_count (recvpriv ad) + 1\<rparr>\<rparr>"

definition set_iseq :: "(reorder_ctrl option \<Rightarrow> reorder_ctrl option) \<Rightarrow> rframe \<Rightarrow> rx_adapter \<Rightarrow> rx_adapter" where
  "set_iseq g f ad =
     (case fr_ctrl f of
        None \<Rightarrow> ad
      | Some st \<Rightarrow> (case g (Some (get_ctrl st ad)) of None \<Rightarrow> ad | Some c \<Rightarrow> set_ctrl st c ad))"

text \<open>
  \<open>orig\<close> is the frame the function was called with, \<open>i\<close> the one defragmentation returns: for a fragment they
  differ. The sequence number that is set before processing is the one of \<open>orig\<close>, the frame that is given
  back when the window refuses is \<open>orig\<close> too.
\<close>

definition posthandle_tail :: "(nat \<Rightarrow> msdu_mem) \<Rightarrow> bool \<Rightarrow> nat \<Rightarrow> nat \<Rightarrow> rx_adapter \<Rightarrow> (rx_ret \<times> rx_adapter) res" where
  "posthandle_tail mem cannot_run orig i ad =
     rbind (indicate_reorder mem cannot_run i ad) (\<lambda>(ret, ad).
     (case ret of
        RX_FAIL \<Rightarrow> Inr (RX_FAIL, count_drop (rtw_free_recvframe orig ad))
      | RX_HANDLED \<Rightarrow> Inr (RX_HANDLED, ad)
      | RX_SUCCESS \<Rightarrow>
          (let f = frames ad i;
               ad = set_iseq (\<lambda>c. recv_set_iseq_before_mpdu_process c (fr_seq_num (frames ad orig))) f ad
           in rbind (recv_process_mpdu mem cannot_run i ad) (\<lambda>(ok, ad).
              (let ad = set_iseq recv_set_iseq_after_mpdu_process f ad
               in Inr (if ok then (RX_SUCCESS, ad) else (RX_FAIL, count_drop ad)))))))"

definition recv_func_posthandle :: "(nat \<Rightarrow> msdu_mem) \<Rightarrow> bool \<Rightarrow> nat \<Rightarrow> rx_adapter \<Rightarrow> (rx_ret \<times> rx_adapter) res" where
  "recv_func_posthandle mem cannot_run orig ad =
     rbind (decryptor orig ad) (\<lambda>(r, ad).
     (case r of
        None \<Rightarrow> Inr (RX_FAIL, count_drop ad)
      | Some i \<Rightarrow>
          rbind (recvframe_chk_defrag i ad) (\<lambda>(r, ad).
          (case r of
             None \<Rightarrow> Inr (RX_SUCCESS, count_drop ad)
           | Some i \<Rightarrow>
               rbind (portctrl i ad) (\<lambda>(r, ad).
               (case r of
                  None \<Rightarrow> Inr (RX_FAIL, count_drop ad)
                | Some i \<Rightarrow> posthandle_tail mem cannot_run orig i ad))))))"

section \<open>The Ethernet frame of a data frame\<close>

lemma mem_get_contents:
  assumes "rframe_ok f" and "off + n \<le> length (contents f)"
  shows "mem_get (fr_buf f) (rx_data f + off) n = Inr (take n (drop off (contents f)))"
proof -
  have l: "off + n \<le> rx_tail f - rx_data f" using assms by simp
  then have "take n (drop off (contents f)) = take n (drop (rx_data f + off) (fr_buf f))"
    by (simp add: contents_def drop_take min_def add.commute)
  moreover have "rx_data f + off + n \<le> length (fr_buf f)"
    using assms(1) l unfolding rframe_ok_def by linarith
  ultimately show ?thesis by (simp add: mem_get_ok)
qed

lemma overwrite_head:
  assumes "rframe_ok f" and "length d \<le> length (contents f)"
  obtains buf where "memcpy_at (fr_buf f) (rx_data f) d = Inr buf" and "contents (f\<lparr>fr_buf := buf\<rparr>) = d @ drop (length d) (contents f)"
    and "length buf = length (fr_buf f)"
proof -
  define b where "b = take (rx_data f) (fr_buf f) @ d @ drop (rx_data f + length d) (fr_buf f)"
  have l: "length d \<le> rx_tail f - rx_data f" using assms by simp
  then have r: "rx_data f + length d \<le> length (fr_buf f)"
    using assms(1) unfolding rframe_ok_def by linarith
  then have "drop (rx_data f) b = d @ drop (rx_data f + length d) (fr_buf f)" by (simp add: b_def)
  then have "contents (f\<lparr>fr_buf := b\<rparr>) = d @ drop (length d) (contents f)"
    using l by (simp add: contents_def drop_take take_append add.commute)
  moreover have "memcpy_at (fr_buf f) (rx_data f) d = Inr b" "length b = length (fr_buf f)"
    using r by (simp_all add: memcpy_at_def b_def)
  ultimately show ?thesis by (intro that)
qed

lemma wlanhdr_spec:
  assumes "rframe_ok f" and "fr_encrypt f = 0" and "contents f = hdr @ pl" and "length hdr = unat (fr_hdrlen f) + unat (fr_iv_len f)"
    and "14 \<le> length hdr" and "8 \<le> length pl" and "length pl < 2 ^ 16" and "length (fr_dst f) = 6" and "length (fr_src f) = 6"
  obtains g where "wlanhdr_to_ethhdr f = Inr (True, g)" and "rframe_ok g" and "contents g = msdu_pkt (fr_dst f @ fr_src f) pl"
    and "fr_pkt g = fr_pkt f"
proof -
  define snap where "snap = take 6 pl"
  define ty where "ty = take 2 (drop 6 pl)"
  define ty' where "ty' = (if snap = rtw_rfc1042_header then ty else [])"
  define b where "b = snap_removed snap ty'"
  define off where "off = length hdr + (if b then 6 else 0) + (if b then 2 else 0) - 14"
  define d where "d = fr_dst f @ fr_src f @ (if b then [] else be16_bytes (length pl))"
  have lc: "length (contents f) = length hdr + length pl" by (simp add: assms(3))
  have b: "b = snap_removed snap ty"
    by (auto simp: b_def ty'_def snap_removed_def rtw_rfc1042_header_def rtw_bridge_tunnel_header_def)
  have rd: "mem_get (fr_buf f) (rx_data f + length hdr) 6 = Inr snap" "mem_get (fr_buf f) (rx_data f + length hdr + 6) 2 = Inr ty"
    using mem_get_contents [OF assms(1), of "length hdr" 6] mem_get_contents [OF assms(1), of "length hdr + 6" 2] assms(6) lc
    by (simp_all add: assms(3) snap_def ty_def add.assoc)
  then have rd2: "(if snap = rtw_rfc1042_header then mem_get (fr_buf f) (rx_data f + length hdr + 6) 2 else Inr []) = Inr ty'"
    by (simp add: ty'_def)
  obtain e where rd3: "mem_get (fr_buf f) (rx_data f + (length hdr + (if b then 6 else 0))) 2 = Inr e"
    using mem_get_contents [OF assms(1), of "length hdr + (if b then 6 else 0)" 2] assms(6) lc by auto
  have len: "unat (ucast (fr_len f - of_nat (length hdr + (if b then 6 else 0))) :: u16) = length pl - (if b then 6 else 0)"
  proof -
    have "unat (fr_len f - of_nat (length hdr + (if b then 6 else 0))) = length pl - (if b then 6 else 0)"
      using unat_minus_of_nat [of "length hdr + (if b then 6 else 0)" "fr_len f"] fr_len_contents [OF assms(1)] lc assms(6) by auto
    then show ?thesis using assms(7) by (simp add: unsigned_ucast_eq take_bit_nat_eq_self_iff)
  qed
  have off: "off \<le> length (contents f)" "length d \<le> length (contents f) - off"
    using assms(5,6,8,9) lc by (auto simp: off_def d_def be16_bytes_def)
  define g where "g = f\<lparr>rx_data := rx_data f + off, fr_len := fr_len f - of_nat off\<rparr>"
  have pull: "recvframe_pull f off = Some g"
    using recvframe_pull_ok(1) [OF assms(1), of off] off(1) by (simp add: g_def)
  note g = recvframe_pull_ok(2) [OF assms(1) pull]
  have ga: "fr_pkt g = fr_pkt f" "fr_dst g = fr_dst f" "fr_src g = fr_src f" by (simp_all add: g_def)
  obtain buf where m: "memcpy_at (fr_buf g) (rx_data g) d = Inr buf" "contents (g\<lparr>fr_buf := buf\<rparr>) = d @ drop (length d) (contents g)"
    "length buf = length (fr_buf g)"
    using overwrite_head [of g d] off(2) g by auto
  have len': "be16_bytes (unat (ucast (fr_len f - of_nat (length hdr + (if b then 6 else 0))) :: u16)) = be16_bytes (length pl)" if "\<not> b"
    using len that by simp
  have s: "wlanhdr_to_ethhdr f = Inr (True, g\<lparr>fr_buf := buf\<rparr>)"
  proof -
    have h: "rx_data f + unat (fr_hdrlen f) + unat (fr_iv_len f) = rx_data f + length hdr" by (simp add: assms(4))
    have o: "14 \<le> length hdr + (if b then 6 else 0) + (if b then 2 else 0)" using assms(5) by simp
    have dm: "take 6 (fr_dst g) @ take 6 (fr_src g) @
        (if b then [] else be16_bytes (unat (ucast (fr_len f - of_nat (length hdr + (if b then 6 else 0))) :: u16))) = d"
      using len' by (simp add: d_def ga assms(8,9))
    show ?thesis
      unfolding wlanhdr_to_ethhdr_def Let_def
      by (simp only: assms(2) simp_thms if_False h rd(1) rbind_Inr rd2 assms(4) [symmetric] b_def [symmetric] rd3 o require_True
          off_def [symmetric] pull option.case dm m(1))
  qed
  have "rframe_ok (g\<lparr>fr_buf := buf\<rparr>)" using g m(3) by (simp add: rframe_ok_def)
  moreover have "contents (g\<lparr>fr_buf := buf\<rparr>) = msdu_pkt (fr_dst f @ fr_src f) pl"
  proof (cases b)
    case True
    then have "length d = 12" "off = length hdr - 6" by (simp_all add: d_def off_def assms(8,9))
    then have "drop (length d) (contents g) = drop 6 pl"
      using g assms(5) by (simp add: assms(3))
    then show ?thesis using m(2) True assms(6) by (simp add: d_def msdu_pkt_def b[unfolded snap_def ty_def])
  next
    case False
    then have "length d = 14" "off = length hdr - 14" by (simp_all add: d_def off_def assms(8,9) be16_bytes_def)
    then have "drop (length d) (contents g) = pl"
      using g assms(5) by (simp add: assms(3))
    then show ?thesis using m(2) False assms(6) by (simp add: d_def msdu_pkt_def b[unfolded snap_def ty_def])
  qed
  ultimately show ?thesis using that [OF s] ga(1) by simp
qed

text \<open>A frame as it is handed to \<open>recv_process_mpdu\<close>, and an adapter that does not hold it back.\<close>

definition plain_frame :: "rframe \<Rightarrow> bytes \<Rightarrow> bytes \<Rightarrow> bool" where
  "plain_frame f hdr pl \<longleftrightarrow> rframe_ok f \<and> fr_pkt f \<and> fr_encrypt f = 0 \<and> fr_privacy f = 0 \<and> fr_mfrag f = 0 \<and> fr_frag_num f = 0 \<and>
     fr_amsdu f = 0 \<and> fr_ctrl f = None \<and> contents f = hdr @ pl \<and> length hdr = unat (fr_hdrlen f) + unat (fr_iv_len f) \<and>
     14 \<le> length hdr \<and> 8 \<le> length pl \<and> length pl < 2 ^ 16 \<and> length (fr_dst f) = 6 \<and> length (fr_src f) = 6"

lemma recv_process_plain:
  assumes "plain_frame (frames ad i) hdr pl" and "pool_ok {#i#} ad"
  shows "\<exists>ad'. recv_process_mpdu mem False i ad = Inr (True, ad') \<and>
    delivered ad' = delivered ad @ [msdu_pkt (fr_dst (frames ad i) @ fr_src (frames ad i)) pl]"
proof -
  define f where "f = frames ad i"
  have f: "rframe_ok f" "fr_encrypt f = 0" "contents f = hdr @ pl" "length hdr = unat (fr_hdrlen f) + unat (fr_iv_len f)"
    "14 \<le> length hdr" "8 \<le> length pl" "length pl < 2 ^ 16" "length (fr_dst f) = 6" "length (fr_src f) = 6" "fr_amsdu f = 0" "fr_pkt f"
    using assms(1) by (simp_all add: plain_frame_def f_def)
  obtain g where g: "wlanhdr_to_ethhdr f = Inr (True, g)" "rframe_ok g" "contents g = msdu_pkt (fr_dst f @ fr_src f) pl" "fr_pkt g = fr_pkt f"
    using wlanhdr_spec [OF f(1-9)] by blast
  have "take (unat (fr_len g)) (drop (rx_data g) (fr_buf g)) = contents g"
    using g(2) by (simp add: contents_def rframe_ok_def)
  moreover obtain ad1 where c: "rtw_recv_indicatepkt_check i (contents g) (set_frame i g ad) = (True, ad1)" "watched [contents g] (set_frame i g ad) ad1"
    by (rule rtw_recv_indicatepkt_check_watched)
  moreover have "frames ad1 i = g" "delivered ad1 = delivered ad"
    using watched_fields [OF c(2)] by (simp_all add: set_frame_def)
  ultimately show ?thesis
    using g f by (simp add: recv_process_mpdu_def rtw_recv_indicatepkt_def Let_def flip: f_def)
      (simp add: set_frame_def rtw_free_recvframe_def rtw_list_delete_def Let_def)
qed

lemma posthandle_plain:
  assumes "pool_ok {#i#} ad" and "plain_frame (frames ad i) hdr pl" and "\<not> auth_8021X ad"
  shows "\<exists>ad'. recv_func_posthandle mem False i ad = Inr (RX_SUCCESS, ad') \<and>
    delivered ad' = delivered ad @ [msdu_pkt (fr_dst (frames ad i) @ fr_src (frames ad i)) pl]"
proof -
  define f where "f = (frames ad i)\<lparr>fr_bdecrypted := 1\<rparr>"
  define ad1 where "ad1 = set_frame i f ad"
  have a1: "frames ad1 i = f" "auth_8021X ad1 = auth_8021X ad" "delivered ad1 = delivered ad" "recvpriv ad1 = recvpriv ad"
    by (simp_all add: ad1_def set_frame_def)
  have pf: "plain_frame f hdr pl"
    using assms(2) by (simp add: plain_frame_def f_def rframe_ok_def contents_def)
  then have fl: "fr_encrypt f = 0" "fr_privacy f = 0" "fr_mfrag f = 0" "fr_frag_num f = 0" "fr_ctrl f = None"
    by (simp_all add: plain_frame_def)
  have "decryptor i ad = Inr (Some i, ad1)"
    using fl by (simp add: decryptor_def rx_key_index_def f_def ad1_def Let_def)
  moreover have "recvframe_chk_defrag i ad1 = Inr (Some i, ad1)"
    using fl by (simp add: recvframe_chk_defrag_def chk_defrag_queue_def a1 Let_def)
  moreover have "portctrl i ad1 = Inr (Some i, ad1)"
    using assms(3) by (simp add: portctrl_def a1 Let_def)
  moreover have "indicate_reorder mem False i ad1 = Inr (RX_SUCCESS, ad1)"
    using fl by (simp add: indicate_reorder_def recv_indicatepkt_reorder_def a1 Let_def)
  moreover obtain ad2 where "recv_process_mpdu mem False i ad1 = Inr (True, ad2)"
    "delivered ad2 = delivered ad @ [msdu_pkt (fr_dst f @ fr_src f) pl]"
    using recv_process_plain [of ad1 i hdr pl mem] pf assms(1) a1 by (auto simp: ad1_def)
  ultimately show ?thesis
    using fl by (simp add: recv_func_posthandle_def posthandle_tail_def a1 set_iseq_def Let_def) (simp add: f_def)
qed

section \<open>Where the frames are\<close>

text \<open>Every frame that points to a reordering window points to one that exists.\<close>

definition ctrls_ok :: "rx_adapter \<Rightarrow> bool" where
  "ctrls_ok ad \<longleftrightarrow> (\<forall>j s t. fr_ctrl (frames ad j) = Some (s, t) \<longrightarrow>
     s < NUM_STA \<and> t < length (recvreorder_ctrl (stainfo_buf ad s)))"

text \<open>A step that keeps these pointers and the number of windows.\<close>

definition same_ctrls :: "rx_adapter \<Rightarrow> rx_adapter \<Rightarrow> bool" where
  "same_ctrls ad ad' \<longleftrightarrow> (\<forall>j. fr_ctrl (frames ad' j) = fr_ctrl (frames ad j)) \<and>
     (\<forall>s. length (recvreorder_ctrl (stainfo_buf ad' s)) = length (recvreorder_ctrl (stainfo_buf ad s)))"

lemma same_ctrls_ok: "same_ctrls ad ad' \<Longrightarrow> ctrls_ok ad \<Longrightarrow> ctrls_ok ad'"
  by (simp add: same_ctrls_def ctrls_ok_def)

lemma same_ctrls_refl [simp]: "same_ctrls ad ad"
  by (simp add: same_ctrls_def)

lemma same_ctrls_trans: "same_ctrls a b \<Longrightarrow> same_ctrls b c \<Longrightarrow> same_ctrls a c"
  by (simp add: same_ctrls_def)

lemma same_ctrls_steps [simp]:
  "same_ctrls ad (rtw_list_delete i ad)" "same_ctrls ad (rtw_free_recvframe i ad)" "same_ctrls ad (enqueue_defrag s i ad)"
  "fr_ctrl f = fr_ctrl (frames ad i) \<Longrightarrow> same_ctrls ad (set_frame i f ad)"
  "same_ctrls ad (ad\<lparr>hw_decrypted := h\<rparr>)" "same_ctrls ad (ad\<lparr>recvpriv := p\<rparr>)" "same_ctrls ad (ad\<lparr>delivered := d\<rparr>)"
  "same_ctrls ad (ad\<lparr>mic_errors := m\<rparr>)" "same_ctrls ad (ad\<lparr>bcheck_grpkey := b\<rparr>)" "same_ctrls ad (set_ctrl st c ad)"
  by (auto simp: same_ctrls_def rtw_list_delete_def sta_unlink_def rtw_free_recvframe_def set_frame_def Let_def
        enqueue_defrag_def set_sta_def set_ctrl_def)

lemma same_ctrls_free_queue [simp]: "same_ctrls ad (rtw_free_recvframe_queue q ad)"
  unfolding rtw_free_recvframe_queue_def
proof (induction q arbitrary: ad)
  case (Cons i q)
  show ?case using same_ctrls_trans [OF same_ctrls_steps(2) Cons.IH] by simp
qed simp

lemma fr_ctrl_ignoring [simp]:
  "fr_ctrl (ignoring (\<lambda>f. recvframe_pull f (n f)) f) = fr_ctrl f"
  "fr_ctrl (ignoring (\<lambda>f. recvframe_pull_tail f (n f)) f) = fr_ctrl f"
  "fr_ctrl (ignoring (\<lambda>f. recvframe_put f (n f)) f) = fr_ctrl f"
  by (auto simp: ignoring_def recvframe_pull_def recvframe_pull_tail_def recvframe_put_def)

lemma defrag_loop_ctrls: "defrag_loop i c ns ad = Inr (ok, ad') \<Longrightarrow> same_ctrls ad ad'"
proof (induction ns arbitrary: c ad)
  case (Cons n ns)
  show ?case
  proof (cases "c = fr_frag_num (frames ad n)")
    case True
    define g where "g = ignoring (\<lambda>f. recvframe_pull f (unat (fr_hdrlen f + fr_iv_len f))) (frames ad n)"
    define h where "h = ignoring (\<lambda>f. recvframe_pull_tail f (unat (fr_icv_len f))) (frames ad i)"
    obtain data buf where d: "mem_get (fr_buf g) (rx_data g) (unat (fr_len g)) = Inr data" "memcpy_at (fr_buf h) (rx_tail h) data = Inr buf"
      using Cons.prems True by (auto simp: rbind_eq_Inr Let_def g_def h_def)
    define f where "f = (ignoring (\<lambda>f. recvframe_put f (unat (fr_len g))) (h\<lparr>fr_buf := buf\<rparr>))\<lparr>fr_icv_len := fr_icv_len g\<rparr>"
    have "defrag_loop i (c + 1) ns (set_frame i f (set_frame n g ad)) = Inr (ok, ad')"
      using Cons.prems True d by (simp add: Let_def f_def flip: g_def h_def)
    then have "same_ctrls (set_frame i f (set_frame n g ad)) ad'" by (rule Cons.IH)
    moreover have "same_ctrls ad (set_frame i f (set_frame n g ad))"
      by (auto simp: same_ctrls_def set_frame_def f_def g_def h_def)
    ultimately show ?thesis by (rule same_ctrls_trans [rotated])
  qed (use Cons.prems in simp)
qed simp

lemma recvframe_defrag_ctrls:
  assumes "recvframe_defrag s ad = Inr (r, ad')"
  shows "same_ctrls ad ad'"
proof -
  have free: "same_ctrls a (rtw_free_recvframe_queue q (rtw_free_recvframe i a))" for a q i
    using same_ctrls_trans [OF same_ctrls_steps(2) same_ctrls_free_queue] .
  obtain i rest where q: "defrag_q (stainfo_buf ad s) = i # rest"
    using assms by (auto simp: recvframe_defrag_def split: list.splits)
  define d where "d = rtw_list_delete i ad"
  have "same_ctrls d ad'"
  proof (cases "fr_frag_num (frames d i) = 0")
    case False
    then show ?thesis using assms by (auto simp: recvframe_defrag_def q Let_def free simp flip: d_def)
  next
    case True
    then obtain ok e where l: "defrag_loop i 1 rest d = Inr (ok, e)"
      and r: "(r, ad') = (if ok then (Some i, rtw_free_recvframe_queue (defrag_q (stainfo_buf e s)) e)
        else (None, rtw_free_recvframe_queue (defrag_q (stainfo_buf (rtw_free_recvframe i e) s)) (rtw_free_recvframe i e)))"
      using assms by (auto simp: recvframe_defrag_def q Let_def rbind_eq_Inr simp flip: d_def)
    have "same_ctrls e ad'" using r free by (cases ok) simp_all
    then show ?thesis by (rule same_ctrls_trans [OF defrag_loop_ctrls [OF l]])
  qed
  then show ?thesis
    unfolding d_def by (rule same_ctrls_trans [OF same_ctrls_steps(1)])
qed

lemma chk_defrag_queue_ctrls:
  assumes "chk_defrag_queue i ad = Inr (r, ad')"
  shows "same_ctrls ad ad'"
proof -
  have "same_ctrls ad (enqueue_defrag s i (rtw_free_recvframe_queue q ad))" for s q
    using same_ctrls_trans [OF same_ctrls_free_queue same_ctrls_steps(3)] .
  moreover have "same_ctrls ad ad'" if "recvframe_defrag s (enqueue_defrag s i ad) = Inr (r, ad')" for s
    using same_ctrls_trans [OF same_ctrls_steps(3) recvframe_defrag_ctrls [OF that]] .
  ultimately show ?thesis
    using assms by (auto simp: chk_defrag_queue_def Let_def rbind_eq_Inr split: if_splits option.splits)
qed

lemma recvframe_chkmic_ctrls:
  assumes "recvframe_chkmic i ad = Inr (ok, ad')"
  shows "same_ctrls ad ad'"
proof -
  have "same_ctrls ad (set_frame i (ignoring (\<lambda>f. recvframe_pull_tail f 8) (frames ad i)) a)"
    if "frames a = frames ad" "stainfo_buf a = stainfo_buf ad" for a
    using that by (simp add: same_ctrls_def set_frame_def)
  then show ?thesis
    using assms by (auto simp: recvframe_chkmic_def Let_def rbind_eq_Inr split: if_splits option.splits)
qed

lemma recvframe_chk_defrag_ctrls:
  assumes "recvframe_chk_defrag i ad = Inr (r, ad')"
  shows "same_ctrls ad ad'"
proof -
  obtain r1 ad1 where q: "chk_defrag_queue i ad = Inr (r1, ad1)"
    using assms by (auto simp: recvframe_chk_defrag_def rbind_eq_Inr)
  have "same_ctrls ad1 ad'"
  proof -
    have "same_ctrls ad1 (rtw_free_recvframe j ad2)" if "recvframe_chkmic j ad1 = Inr (ok, ad2)" for j ok ad2
      using same_ctrls_trans [OF recvframe_chkmic_ctrls [OF that] same_ctrls_steps(2)] .
    then show ?thesis
      using assms recvframe_chkmic_ctrls
      by (auto simp: recvframe_chk_defrag_def q rbind_eq_Inr split: if_splits option.splits)
  qed
  then show ?thesis by (rule same_ctrls_trans [OF chk_defrag_queue_ctrls [OF q]])
qed

lemma pool_ok_fields [simp]:
  "pool_ok held (ad\<lparr>hw_decrypted := h\<rparr>) = pool_ok held ad" "pool_ok held (ad\<lparr>recvpriv := p\<rparr>) = pool_ok held ad"
  "pool_ok held (ad\<lparr>delivered := d\<rparr>) = pool_ok held ad"
  by (rule pool_ok_cong; simp add: places_def)+

text \<open>What decryption keeps of a frame.\<close>

definition kept :: "rframe \<Rightarrow> rframe \<Rightarrow> bool" where
  "kept f g \<longleftrightarrow> fr_ctrl g = fr_ctrl f \<and> fr_mfrag g = fr_mfrag f \<and> fr_frag_num g = fr_frag_num f \<and> fr_len g = fr_len f"

lemma sw_decrypt_kept: "sw_decrypt f ad = Inr (res, g) \<Longrightarrow> kept f g"
  by (auto simp: sw_decrypt_def Let_def rbind_eq_Inr with_sec_def kept_def split: if_splits)

lemma decryptor_cases:
  assumes "decryptor i ad = Inr (r, ad')"
  obtains f h where "kept (frames ad i) f"
    and "r = Some i \<and> ad' = set_frame i f (ad\<lparr>hw_decrypted := h\<rparr>) \<or> r = None \<and> ad' = rtw_free_recvframe i (set_frame i f (ad\<lparr>hw_decrypted := h\<rparr>))"
proof -
  obtain key_index where k: "rx_key_index (frames ad i) ad = Inr key_index"
    using assms by (auto simp: decryptor_def rbind_eq_Inr)
  define f0 where "f0 = (frames ad i)\<lparr>fr_key_index := key_index\<rparr>"
  have f0: "kept (frames ad i) f0" by (simp add: f0_def kept_def)
  obtain res f h where m: "kept f0 f"
    "(if res then Inr (Some i, set_frame i (f\<lparr>fr_bdecrypted := 1\<rparr>) (ad\<lparr>hw_decrypted := h\<rparr>))
      else Inr (None, rtw_free_recvframe i (set_frame i f (ad\<lparr>hw_decrypted := h\<rparr>)))) = (Inr (r, ad') :: (nat option \<times> rx_adapter) res)"
  proof (cases "fr_encrypt f0 \<noteq> 0 \<and> fr_bdecrypted f0 = 0")
    case True
    then obtain res f where "sw_decrypt f0 ad = Inr (res, f)"
      "(if res then Inr (Some i, set_frame i (f\<lparr>fr_bdecrypted := 1\<rparr>) (ad\<lparr>hw_decrypted := False\<rparr>))
        else Inr (None, rtw_free_recvframe i (set_frame i f (ad\<lparr>hw_decrypted := False\<rparr>)))) = (Inr (r, ad') :: (nat option \<times> rx_adapter) res)"
      using assms by (auto simp: decryptor_def k Let_def rbind_eq_Inr simp flip: f0_def)
    then show ?thesis using that sw_decrypt_kept by blast
  next
    case False
    have "kept f0 f0" by (simp add: kept_def)
    moreover have "\<exists>h. (r, ad') = (Some i, set_frame i (f0\<lparr>fr_bdecrypted := 1\<rparr>) (ad\<lparr>hw_decrypted := h\<rparr>))"
    proof (cases "fr_bdecrypted f0 = 1 \<and> 0 < fr_encrypt f0 \<and> (busetkipkey ad \<or> fr_encrypt f0 \<noteq> TKIP)")
      case True
      then show ?thesis using assms False by (intro exI [of _ True]) (auto simp: decryptor_def k Let_def simp flip: f0_def)
    next
      case other: False
      then show ?thesis using assms False by (intro exI [of _ "hw_decrypted ad"]) (auto simp: decryptor_def k Let_def simp flip: f0_def)
    qed
    ultimately show ?thesis using that [of f0 True] by auto
  qed
  have "kept f0 (f\<lparr>fr_bdecrypted := 1\<rparr>)" using m(1) by (simp add: kept_def)
  then show ?thesis
    using m f0 that [of "f\<lparr>fr_bdecrypted := 1\<rparr>" h] that [of f h] by (cases res) (simp_all add: kept_def)
qed

lemma decryptor_pool:
  assumes "decryptor i ad = Inr (r, ad')" and "pool_ok (add_mset i held) ad"
  shows "r = None \<and> pool_ok held ad' \<or> r = Some i \<and> pool_ok (add_mset i held) ad' \<and> kept (frames ad i) (frames ad' i)"
    and "same_ctrls ad ad'"
proof -
  obtain f h where f: "kept (frames ad i) f"
    and r: "r = Some i \<and> ad' = set_frame i f (ad\<lparr>hw_decrypted := h\<rparr>) \<or> r = None \<and> ad' = rtw_free_recvframe i (set_frame i f (ad\<lparr>hw_decrypted := h\<rparr>))"
    using decryptor_cases [OF assms(1)] by blast
  show "r = None \<and> pool_ok held ad' \<or> r = Some i \<and> pool_ok (add_mset i held) ad' \<and> kept (frames ad i) (frames ad' i)"
    using r f assms(2) pool_ok_free_held [of i held "set_frame i f (ad\<lparr>hw_decrypted := h\<rparr>)"] by (auto simp: set_frame_def)
  have "same_ctrls (ad\<lparr>hw_decrypted := h\<rparr>) (set_frame i f (ad\<lparr>hw_decrypted := h\<rparr>))"
    using f by (intro same_ctrls_steps(4)) (simp add: kept_def)
  then have "same_ctrls ad (set_frame i f (ad\<lparr>hw_decrypted := h\<rparr>))"
    by (rule same_ctrls_trans [OF same_ctrls_steps(5)])
  then show "same_ctrls ad ad'"
    using r same_ctrls_trans [OF _ same_ctrls_steps(2)] by blast
qed

lemma portctrl_pool:
  assumes "portctrl i ad = Inr (r, ad')" and "pool_ok (add_mset i held) ad"
  shows "r = None \<and> pool_ok held ad' \<or> r = Some i \<and> ad' = ad" and "same_ctrls ad ad'"
  using assms pool_ok_free_held [OF assms(2)]
  by (auto simp: portctrl_def Let_def rbind_eq_Inr split: if_splits option.splits)

section \<open>The reordering window keeps its frames\<close>

lemma enqueue_reorder_mset: "enqueue_reorder q f = Some q' \<Longrightarrow> mset q' = add_mset f (mset q)"
  by (induction q arbitrary: q') (auto split: if_splits)

lemma indicate_loop_mset:
  "indicate_loop ok q ind p = (left, q', ind', p') \<Longrightarrow> \<exists>new. indicated p' = indicated p @ new \<and> mset q = mset q' + mset new"
proof (induction q arbitrary: ind p)
  case (Cons f fs)
  then show ?case by (auto split: if_splits) force+
qed simp

lemma indicate_in_order_mset:
  assumes "recv_indicatepkts_in_order ok c p False = (left, c', p')"
  shows "\<exists>new. indicated p' = indicated p @ new \<and> mset (pending_queue c) = mset (pending_queue c') + mset new"
proof -
  obtain q ind where "indicate_loop ok (pending_queue c) (indicate_seq c) p = (left, q, ind, p')" "pending_queue c' = q"
    using assms by (auto simp: recv_indicatepkts_in_order_def split: prod.splits)
  then show ?thesis using indicate_loop_mset by blast
qed

lemma check_indicate_seq_keeps:
  "check_indicate_seq c p sq = (ok, c', p') \<Longrightarrow> pending_queue c' = pending_queue c \<and> indicated p' = indicated p"
  by (auto simp: check_indicate_seq_def Let_def split: if_splits)

lemma reorder_mset:
  assumes "recv_indicatepkt_reorder ok (Some c) p f = (ret, ctrl, p')"
  obtains c' new where "ctrl = Some c'" and "indicated p' = indicated p @ new"
    and "mset (pending_queue c') + mset new = mset (pending_queue c) + (if ret = RX_HANDLED then {#f#} else {#})"
    and "ret \<noteq> RX_HANDLED \<Longrightarrow> new = []"
proof (cases "mp_qos f = 0 \<or> \<not> ro_enable c")
  case True
  then show ?thesis using assms that [of c "[]"] by (auto simp: recv_indicatepkt_reorder_def)
next
  case False
  obtain b c1 p1 where c1: "check_indicate_seq c p (mp_seq f) = (b, c1, p1)" by (cases "check_indicate_seq c p (mp_seq f)") auto
  note k = check_indicate_seq_keeps [OF c1]
  show ?thesis
  proof (cases b)
    case False
    then show ?thesis using assms that [of c1 "[]"] c1 k \<open>\<not> (mp_qos f = 0 \<or> \<not> ro_enable c)\<close> by (auto simp: recv_indicatepkt_reorder_def)
  next
    case True
    show ?thesis
    proof (cases "enqueue_reorder (pending_queue c1) f")
      case None
      then show ?thesis using assms that [of c1 "[]"] c1 k True False by (auto simp: recv_indicatepkt_reorder_def enqueue_reorder_recvframe_def)
    next
      case (Some q)
      obtain left c2 p2 where c2: "recv_indicatepkts_in_order ok (c1\<lparr>pending_queue := q\<rparr>) p1 False = (left, c2, p2)"
        by (cases "recv_indicatepkts_in_order ok (c1\<lparr>pending_queue := q\<rparr>) p1 False") auto
      obtain new where n: "indicated p2 = indicated p1 @ new" "mset q = mset (pending_queue c2) + mset new"
        using indicate_in_order_mset [OF c2] by auto
      have r: "ret = RX_HANDLED" "p' = p2" "\<exists>c'. ctrl = Some c' \<and> pending_queue c' = pending_queue c2"
        using assms c1 c2 Some True False by (auto simp: recv_indicatepkt_reorder_def enqueue_reorder_recvframe_def split: if_splits bool.splits)
      then show ?thesis using that [of _ new] n k enqueue_reorder_mset [OF Some] by auto
    qed
  qed
qed

section \<open>Processing a frame gives it back\<close>

lemma rbind_InrE: "rbind a b = Inr y \<Longrightarrow> (\<And>x. a = Inr x \<Longrightarrow> b x = Inr y \<Longrightarrow> P) \<Longrightarrow> P"
  by (auto simp: rbind_eq_Inr)

lemma recvframe_pull_ctrl: "recvframe_pull f n = Some g \<Longrightarrow> fr_ctrl g = fr_ctrl f"
  by (auto simp: recvframe_pull_def split: if_splits)

lemma wlanhdr_ctrl:
  assumes "wlanhdr_to_ethhdr f = Inr (ok, g)"
  shows "fr_ctrl g = fr_ctrl f"
proof -
  define f1 where "f1 = (if fr_encrypt f \<noteq> 0 then ignoring (\<lambda>f. recvframe_pull_tail f (unat (fr_icv_len f))) f else f)"
  have f1: "fr_ctrl f1 = fr_ctrl f" by (simp add: f1_def)
  show ?thesis
    using assms unfolding wlanhdr_to_ethhdr_def Let_def f1_def [symmetric]
    using f1 by (elim rbind_InrE) (auto simp: rbind_eq_Inr recvframe_pull_ctrl split: option.splits)
qed

lemma give_frame:
  assumes "pool_ok (add_mset i held) ad" and "fr_ctrl f = fr_ctrl (frames ad i)"
  shows "pool_ok held (rtw_free_recvframe i ((set_frame i f ad)\<lparr>delivered := d\<rparr>))"
    and "same_ctrls ad (rtw_free_recvframe i ((set_frame i f ad)\<lparr>delivered := d\<rparr>))"
proof -
  show "pool_ok held (rtw_free_recvframe i ((set_frame i f ad)\<lparr>delivered := d\<rparr>))"
    using assms(1) by (intro pool_ok_free_held) simp
  show "same_ctrls ad (rtw_free_recvframe i ((set_frame i f ad)\<lparr>delivered := d\<rparr>))"
    using same_ctrls_trans [OF same_ctrls_trans [OF same_ctrls_steps(4) [OF assms(2)] same_ctrls_steps(7)] same_ctrls_steps(2)] .
qed

lemma watched_pool:
  assumes "watched pkts ad ad1"
  shows "pool_ok held ad1 = pool_ok held ad" and "same_ctrls ad ad1"
proof -
  show "pool_ok held ad1 = pool_ok held ad"
    by (rule pool_ok_cong) (simp_all add: places_def watched_fields [OF assms])
  show "same_ctrls ad ad1" by (simp add: same_ctrls_def watched_fields [OF assms])
qed

lemma recv_process_mpdu_cases:
  assumes "recv_process_mpdu mem cannot_run i ad = Inr (ok, ad')"
  obtains pkts ad1 f d where "watched pkts ad ad1" and "fr_ctrl f = fr_ctrl (frames ad i)"
    and "ad' = rtw_free_recvframe i ((set_frame i f ad1)\<lparr>delivered := d\<rparr>)"
proof (cases "fr_amsdu (frames ad i) = 0")
  case True
  then obtain b f where f: "wlanhdr_to_ethhdr (frames ad i) = Inr (b, f)"
    and r: "(ok, ad') = (if \<not> b then (False, rtw_free_recvframe i (set_frame i f ad))
      else if cannot_run then (True, rtw_free_recvframe i (set_frame i f ad))
      else case rtw_recv_indicatepkt_check i (take (unat (fr_len f)) (drop (rx_data f) (fr_buf f))) (set_frame i f ad) of (ok, ad) \<Rightarrow>
        if \<not> ok then (False, rtw_free_recvframe i ad) else rtw_recv_indicatepkt i ad)"
    using assms by (auto simp: recv_process_mpdu_def rbind_eq_Inr Let_def)
  have c: "fr_ctrl f = fr_ctrl (frames ad i)" by (rule wlanhdr_ctrl [OF f])
  obtain ad2 where w: "rtw_recv_indicatepkt_check i (take (unat (fr_len f)) (drop (rx_data f) (fr_buf f))) (set_frame i f ad) = (True, ad2)"
    "watched [take (unat (fr_len f)) (drop (rx_data f) (fr_buf f))] (set_frame i f ad) ad2"
    by (rule rtw_recv_indicatepkt_check_watched)
  obtain cm v where ad2: "ad2 = (set_frame i f ad)\<lparr>st_cmds := cm, over_read := v\<rparr>"
    using w(2) by (rule watchedE) blast
  define l where "l = take (unat (fr_len f)) (drop (rx_data f) (fr_buf f))"
  have w1: "watched [l] ad (ad\<lparr>st_cmds := cm, over_read := v\<rparr>)"
    by (rule watchedI [OF refl]) (use w(2) ad2 in \<open>auto simp: l_def watched_def set_frame_def\<close>)
  have s2: "set_frame i g ad2 = (set_frame i g (ad\<lparr>st_cmds := cm, over_read := v\<rparr>))\<lparr>delivered := delivered ad\<rparr>" for g
    by (simp add: ad2 set_frame_def)
  have s1: "set_frame i f ad = (set_frame i f ad)\<lparr>delivered := delivered ad\<rparr>" by (simp add: set_frame_def)
  show ?thesis
  proof (cases "b \<and> \<not> cannot_run")
    case False
    then have "ad' = rtw_free_recvframe i ((set_frame i f ad)\<lparr>delivered := delivered ad\<rparr>)"
      using r unfolding s1 [symmetric] by (auto split: if_splits)
    then show ?thesis by (rule that [OF watched_refl c])
  next
    case run: True
    then have ri: "(ok, ad') = rtw_recv_indicatepkt i ad2" using r w(1) by simp
    have fi: "frames ad2 i = f" "delivered ad2 = delivered ad" by (simp_all add: ad2 set_frame_def)
    have s0: "ad2 = set_frame i f ad2" by (simp add: ad2 set_frame_def)
    show ?thesis
    proof (cases "fr_pkt f")
      case True
      then have "ad' = rtw_free_recvframe i ((set_frame i (f\<lparr>fr_pkt := False\<rparr>) (ad\<lparr>st_cmds := cm, over_read := v\<rparr>))\<lparr>delivered := delivered ad @ [l]\<rparr>)"
        using ri fi by (simp add: rtw_recv_indicatepkt_def Let_def s2 l_def)
      then show ?thesis by (rule that [OF w1, rotated]) (simp add: c)
    next
      case False
      then have "ad' = rtw_free_recvframe i (set_frame i f ad2)"
        using ri fi by (simp add: rtw_recv_indicatepkt_def flip: s0)
      then show ?thesis using that [OF w1 c] by (simp add: s2)
    qed
  qed
next
  case False
  define f1 where "f1 = ignoring (\<lambda>f. recvframe_pull f (unat (fr_hdrlen f))) (frames ad i)"
  define f where "f = (if 0 < fr_iv_len f1 then ignoring (\<lambda>f. recvframe_pull f (unat (fr_iv_len f))) f1 else f1)"
  have c: "fr_ctrl (f\<lparr>fr_len := 0\<rparr>) = fr_ctrl (frames ad i)" by (simp add: f_def f1_def)
  obtain l ad1 where l: "amsdu_loop mem i (fr_buf f) (rx_data f) (nat (sint (fr_len f))) [] ad = Inr (l, ad1)"
    and r: "ad' = rtw_free_recvframe i ((set_frame i (f\<lparr>fr_len := 0\<rparr>) ad1)\<lparr>delivered := delivered ad1 @ l\<rparr>)"
    using assms False unfolding recv_process_mpdu_def amsdu_to_msdu_def Let_def f1_def [symmetric] f_def [symmetric]
    by (auto simp: rbind_eq_Inr)
  then obtain pkts where "watched pkts ad ad1" using amsdu_loop_watched by blast
  then show ?thesis by (rule that [OF _ c r])
qed

lemma recv_process_mpdu_pool:
  assumes "recv_process_mpdu mem cannot_run i ad = Inr (ok, ad')" and "pool_ok (add_mset i held) ad"
  shows "pool_ok held ad'" and "same_ctrls ad ad'"
proof -
  obtain pkts ad1 f d where r: "watched pkts ad ad1" "fr_ctrl f = fr_ctrl (frames ad i)"
    "ad' = rtw_free_recvframe i ((set_frame i f ad1)\<lparr>delivered := d\<rparr>)"
    using recv_process_mpdu_cases [OF assms(1)] .
  note w = watched_pool [OF r(1)]
  have p: "pool_ok (add_mset i held) ad1" "fr_ctrl f = fr_ctrl (frames ad1 i)"
    using w(1) assms(2) r(2) watched_fields(1) [OF r(1)] by simp_all
  show "pool_ok held ad'" and "same_ctrls ad ad'"
    unfolding r(3) using give_frame [OF p] same_ctrls_trans [OF w(2)] by simp_all
qed

lemma process_all_pool:
  "process_all mem cannot_run is ad = Inr ad' \<Longrightarrow> pool_ok (mset is + held) ad \<Longrightarrow> pool_ok held ad' \<and> same_ctrls ad ad'"
proof (induction "is" arbitrary: ad)
  case (Cons i "is")
  then obtain ok ad1 where r: "recv_process_mpdu mem cannot_run i ad = Inr (ok, ad1)" "process_all mem cannot_run is ad1 = Inr ad'"
    by (auto simp: rbind_eq_Inr)
  note p = recv_process_mpdu_pool [OF r(1), of "mset is + held"]
  then have "pool_ok held ad' \<and> same_ctrls ad1 ad'" using Cons.IH [OF r(2)] Cons.prems(2) by simp
  then show ?case using p same_ctrls_trans Cons.prems(2) by auto
qed simp

section \<open>The window in the adapter\<close>

lemma concat_update:
  "n < length xs \<Longrightarrow> mset (concat (map g (xs[n := c]))) + mset (g (xs ! n)) = mset (concat (map g xs)) + mset (g c)"
proof (induction xs arbitrary: n)
  case (Cons x xs)
  then show ?case by (cases n) (simp_all add: add.assoc)
qed simp

lemma places_set_ctrl:
  assumes "s < NUM_STA" and "t < length (recvreorder_ctrl (stainfo_buf ad s))"
  shows "places (set_ctrl (s, t) c ad) + image_mset mp_id (mset (pending_queue (get_ctrl (s, t) ad))) =
    places ad + image_mset mp_id (mset (pending_queue c))"
proof -
  define st where "st = (stainfo_buf ad s)\<lparr>recvreorder_ctrl := (recvreorder_ctrl (stainfo_buf ad s))[t := c]\<rparr>"
  have "mset (pending_ids st) + image_mset mp_id (mset (pending_queue (get_ctrl (s, t) ad))) =
      mset (pending_ids (stainfo_buf ad s)) + image_mset mp_id (mset (pending_queue c))"
    using concat_update [OF assms(2), of "\<lambda>c. map mp_id (pending_queue c)" c] by (simp add: pending_ids_def st_def get_ctrl_def)
  then have "mset (sta_places st) + image_mset mp_id (mset (pending_queue (get_ctrl (s, t) ad))) =
      mset (sta_places (stainfo_buf ad s)) + image_mset mp_id (mset (pending_queue c))"
    by (simp add: sta_places_def st_def add.assoc)
  moreover have "places (set_ctrl (s, t) c ad) + mset (sta_places (stainfo_buf ad s)) = places ad + mset (sta_places st)"
    using places_set_sta [OF assms(1), of st ad] by (simp add: set_ctrl_def st_def)
  ultimately show ?thesis
    by (smt (verit, ccfv_threshold) add.assoc add.commute add_left_cancel)
qed

lemma set_ctrl_same_pending:
  assumes "s < NUM_STA" and "t < length (recvreorder_ctrl (stainfo_buf ad s))"
    and "pending_queue c = pending_queue (get_ctrl (s, t) ad)"
  shows "pool_ok held (set_ctrl (s, t) c ad) = pool_ok held ad"
  by (rule pool_ok_cong) (use places_set_ctrl [OF assms(1,2), of c] assms(3) in \<open>simp_all add: set_ctrl_def set_sta_def\<close>)

lemma indicate_reorder_pool:
  assumes "indicate_reorder mem cannot_run i ad = Inr (ret, ad')" and "pool_ok {#i#} ad" and "ctrls_ok ad"
  shows "pool_ok (if ret = RX_HANDLED then {#} else {#i#}) ad'" and "same_ctrls ad ad'"
proof -
  define f where "f = frames ad i"
  have "pool_ok (if ret = RX_HANDLED then {#} else {#i#}) ad' \<and> same_ctrls ad ad'"
  proof (cases "fr_ctrl f")
    case None
    then show ?thesis using assms by (auto simp: indicate_reorder_def Let_def recv_indicatepkt_reorder_def f_def)
  next
    case (Some st)
    obtain s t where st: "st = (s, t)" by (cases st)
    have ok: "s < NUM_STA" "t < length (recvreorder_ctrl (stainfo_buf ad s))"
      using assms(3) Some by (auto simp: ctrls_ok_def f_def st)
    obtain ret1 ctrl p where r: "recv_indicatepkt_reorder (processed_ok mem cannot_run ad) (Some (get_ctrl st ad)) (recvpriv ad) (mpdu_of i f) = (ret1, ctrl, p)"
      by (metis prod_cases3)
    obtain c new where c: "ctrl = Some c" "indicated p = indicated (recvpriv ad) @ new"
      "mset (pending_queue c) + mset new = mset (pending_queue (get_ctrl st ad)) + (if ret1 = RX_HANDLED then {#mpdu_of i f#} else {#})"
      "ret1 \<noteq> RX_HANDLED \<Longrightarrow> new = []"
      using reorder_mset [OF r] by blast
    define ad1 where "ad1 = (set_ctrl st c ad)\<lparr>recvpriv := p\<rparr>"
    have run: "process_all mem cannot_run (map mp_id new) ad1 = Inr ad'" "ret1 = ret"
      using assms(1) Some r c(1,2) by (auto simp: indicate_reorder_def Let_def rbind_eq_Inr ad1_def simp flip: f_def)
    have "places (set_ctrl st c ad) + image_mset mp_id (mset (pending_queue (get_ctrl st ad))) = places ad + image_mset mp_id (mset (pending_queue c))"
      using places_set_ctrl [OF ok] by (simp add: st)
    moreover have "image_mset mp_id (mset (pending_queue c)) + image_mset mp_id (mset new) =
        image_mset mp_id (mset (pending_queue (get_ctrl st ad))) + (if ret = RX_HANDLED then {#i#} else {#})"
      using arg_cong [OF c(3), of "image_mset mp_id"] run(2) by (simp add: mpdu_of_def)
    ultimately have "places (set_ctrl st c ad) + image_mset mp_id (mset new) = places ad + (if ret = RX_HANDLED then {#i#} else {#})"
      by (smt (verit, ccfv_threshold) add.assoc add.commute add_left_cancel)
    then have "places (set_ctrl st c ad) + (mset (map mp_id new) + (if ret = RX_HANDLED then {#} else {#i#})) = places ad + {#i#}"
      by (auto simp flip: add.assoc split: if_splits)
    then have "pool_ok (mset (map mp_id new) + (if ret = RX_HANDLED then {#} else {#i#})) (set_ctrl st c ad)"
      using assms(2) by (simp add: pool_ok_def rxpool.whole_def set_ctrl_def set_sta_def)
    then have "pool_ok (mset (map mp_id new) + (if ret = RX_HANDLED then {#} else {#i#})) ad1"
      by (simp add: ad1_def)
    moreover have "same_ctrls ad ad1"
      unfolding ad1_def using same_ctrls_trans [OF same_ctrls_steps(10,6)] .
    ultimately show ?thesis
      using process_all_pool [OF run(1)] same_ctrls_trans by blast
  qed
  then show "pool_ok (if ret = RX_HANDLED then {#} else {#i#}) ad'" and "same_ctrls ad ad'" by simp_all
qed

lemma indicate_reorder_fail:
  assumes "indicate_reorder mem cannot_run i ad = Inr (RX_FAIL, ad')"
  shows "free_recv_queue ad' = free_recv_queue ad"
proof (cases "fr_ctrl (frames ad i)")
  case None
  then show ?thesis using assms by (auto simp: indicate_reorder_def Let_def recv_indicatepkt_reorder_def)
next
  case (Some st)
  obtain ret ctrl p where r: "recv_indicatepkt_reorder (processed_ok mem cannot_run ad) (Some (get_ctrl st ad)) (recvpriv ad) (mpdu_of i (frames ad i)) = (ret, ctrl, p)"
    by (metis prod_cases3)
  obtain c new where c: "ctrl = Some c" "indicated p = indicated (recvpriv ad) @ new" "ret \<noteq> RX_HANDLED \<Longrightarrow> new = []"
    using reorder_mset [OF r] by blast
  have "process_all mem cannot_run (map mp_id new) ((set_ctrl st c ad)\<lparr>recvpriv := p\<rparr>) = Inr ad'" "ret = RX_FAIL"
    using assms Some r c(1,2) by (auto simp: indicate_reorder_def Let_def rbind_eq_Inr)
  then show ?thesis using c(3) by (auto simp: set_ctrl_def set_sta_def)
qed

lemma set_iseq_pool:
  assumes "ctrls_ok ad" and "fr_ctrl f = fr_ctrl (frames ad i)"
    and "\<And>c c'. g (Some c) = Some c' \<Longrightarrow> pending_queue c' = pending_queue c"
  shows "pool_ok held (set_iseq g f ad) = pool_ok held ad" and "same_ctrls ad (set_iseq g f ad)"
proof -
  show "pool_ok held (set_iseq g f ad) = pool_ok held ad"
  proof (cases "fr_ctrl f")
    case None
    then show ?thesis by (simp add: set_iseq_def)
  next
    case (Some st)
    obtain s t where st: "st = (s, t)" by (cases st)
    have "s < NUM_STA" "t < length (recvreorder_ctrl (stainfo_buf ad s))"
      using assms(1) Some assms(2) by (auto simp: ctrls_ok_def st)
    then show ?thesis
      using Some assms(3) set_ctrl_same_pending by (auto simp: set_iseq_def st split: option.split)
  qed
  show "same_ctrls ad (set_iseq g f ad)"
    by (simp add: set_iseq_def split: option.split)
qed

lemma count_drop_pool [simp]: "pool_ok held (count_drop ad) = pool_ok held ad" "same_ctrls ad (count_drop ad)"
  by (simp_all add: count_drop_def)

lemma recv_set_iseq_pending:
  "recv_set_iseq_before_mpdu_process (Some c) n = Some c' \<Longrightarrow> pending_queue c' = pending_queue c"
  "recv_set_iseq_after_mpdu_process (Some c) = Some c' \<Longrightarrow> pending_queue c' = pending_queue c"
  by (auto simp: recv_set_iseq_before_mpdu_process_def recv_set_iseq_after_mpdu_process_def)

lemma posthandle_tail_pool:
  assumes "posthandle_tail mem cannot_run orig i ad = Inr (ret, ad')" and "pool_ok {#i#} ad" and "ctrls_ok ad"
    and "(\<forall>ad1. indicate_reorder mem cannot_run i ad \<noteq> Inr (RX_FAIL, ad1)) \<or> orig = i"
  shows "pool_ok {#} ad' \<and> same_ctrls ad ad'"
proof -
  obtain ret1 ad1 where r: "indicate_reorder mem cannot_run i ad = Inr (ret1, ad1)"
    using assms(1) by (auto simp: posthandle_tail_def rbind_eq_Inr)
  note p = indicate_reorder_pool [OF r assms(2,3)]
  note tr = same_ctrls_trans [OF p(2)]
  show ?thesis
  proof (cases ret1)
    case RX_FAIL
    then have "ad' = count_drop (rtw_free_recvframe orig ad1)" "ret = RX_FAIL"
      using assms(1) r by (simp_all add: posthandle_tail_def)
    then show ?thesis
      using assms(4) r p(1) RX_FAIL pool_ok_free_held [of i "{#}" ad1] tr [OF same_ctrls_trans [OF same_ctrls_steps(2) count_drop_pool(2)]]
      by simp
  next
    case RX_HANDLED
    then show ?thesis using assms(1) r p by (simp add: posthandle_tail_def)
  next
    case RX_SUCCESS
    define f where "f = frames ad1 i"
    define ad2 where "ad2 = set_iseq (\<lambda>c. recv_set_iseq_before_mpdu_process c (fr_seq_num (frames ad1 orig))) f ad1"
    have "ctrls_ok ad1" using same_ctrls_ok [OF p(2) assms(3)] .
    then have a2: "pool_ok {#i#} ad2" "same_ctrls ad1 ad2" "ctrls_ok ad2"
      using set_iseq_pool [of ad1 f i "\<lambda>c. recv_set_iseq_before_mpdu_process c (fr_seq_num (frames ad1 orig))"] p(1) RX_SUCCESS
        recv_set_iseq_pending(1) same_ctrls_ok by (auto simp: ad2_def f_def)
    obtain ok ad3 where m: "recv_process_mpdu mem cannot_run i ad2 = Inr (ok, ad3)"
      and r': "ad' = set_iseq recv_set_iseq_after_mpdu_process f ad3 \<or> ad' = count_drop (set_iseq recv_set_iseq_after_mpdu_process f ad3)"
      using assms(1) r RX_SUCCESS by (auto simp: posthandle_tail_def rbind_eq_Inr Let_def simp flip: f_def ad2_def split: if_splits)
    note a3 = recv_process_mpdu_pool [OF m a2(1)]
    have fc: "fr_ctrl f = fr_ctrl (frames ad3 i)"
      using a2(2) a3(2) by (simp add: same_ctrls_def f_def)
    note s = set_iseq_pool [OF same_ctrls_ok [OF a3(2) a2(3)] fc recv_set_iseq_pending(2)]
    have "same_ctrls ad (set_iseq recv_set_iseq_after_mpdu_process f ad3)"
      by (rule tr [OF same_ctrls_trans [OF a2(2) same_ctrls_trans [OF a3(2) s(2)]]])
    then show ?thesis
      using r' a3(1) s(1) same_ctrls_trans [OF _ count_drop_pool(2)] by auto
  qed
qed

lemma u8_le_1: "x \<le> 1 \<Longrightarrow> x = 0 \<or> x = 1" for x :: u8
  by (auto simp: word_le_nat_alt word_unat_eq_iff)

lemma chk_defrag_same:
  assumes "recvframe_chk_defrag i ad = Inr (Some j, ad')" and "fr_mfrag (frames ad i) = 1 \<or> fr_frag_num (frames ad i) = 0"
    and "fr_mfrag (frames ad i) \<le> 1"
  shows "j = i"
proof -
  show ?thesis
    using assms(1,2) u8_le_1 [OF assms(3)]
    by (auto simp: recvframe_chk_defrag_def chk_defrag_queue_def Let_def rbind_eq_Inr split: if_splits option.splits)
qed

section \<open>A reassembled frame that is refused\<close>

lemma cnt_free_twice:
  assumes "pool_ok held ad" and "i \<in> set (free_recv_queue ad)"
  shows "free_recvframe_cnt (rtw_free_recvframe i ad) = of_nat (length (free_recv_queue (rtw_free_recvframe i ad)) + 1)"
proof -
  have "rxpool.whole held ad" using assms(1) by (simp add: pool_ok_def)
  then have "count (mset (free_recv_queue ad)) j \<le> 1" for j
    using rxpool.whole_count [of held ad j] by (simp add: places_def)
  then have "distinct (free_recv_queue ad)"
    by (metis count_mset_0_iff distinct_count_atmost_1 le_antisym less_one not_less)
  then have "filter (\<lambda>j. j \<noteq> i) (free_recv_queue ad) = remove1 i (free_recv_queue ad)"
    by (simp add: distinct_remove1_removeAll removeAll_filter_not_eq) (rule filter_cong; auto)
  then have "length (filter (\<lambda>j. j \<noteq> i) (free_recv_queue ad)) + 1 = length (free_recv_queue ad)"
    using assms(2) length_pos_if_in_set [OF assms(2)] by (simp add: length_remove1)
  then have "length (free_recv_queue (rtw_free_recvframe i ad)) = length (free_recv_queue ad)"
    by (simp add: rtw_free_recvframe_def rtw_list_delete_def set_frame_def Let_def)
  moreover have "free_recvframe_cnt (rtw_free_recvframe i ad) = free_recvframe_cnt ad + 1"
    by (simp add: rtw_free_recvframe_def rtw_list_delete_def set_frame_def Let_def)
  ultimately show ?thesis using assms(1) by (simp add: pool_ok_def)
qed

lemma recvframe_defrag_frees:
  assumes "recvframe_defrag s ad = Inr (Some j, ad')" and "i \<in> set (defrag_q (stainfo_buf ad s))" and "i \<noteq> j"
  shows "i \<in> set (free_recv_queue ad')"
proof -
  obtain k rest where q: "defrag_q (stainfo_buf ad s) = k # rest"
    using assms(1) by (auto simp: recvframe_defrag_def split: list.splits)
  define d where "d = rtw_list_delete k ad"
  have "fr_frag_num (frames d k) = 0" using assms(1) by (simp add: recvframe_defrag_def q Let_def flip: d_def split: if_splits)
  then obtain ok e where l: "defrag_loop k 1 rest d = Inr (ok, e)"
    and ok: "(Some j, ad') = (if ok then (Some k, rtw_free_recvframe_queue (defrag_q (stainfo_buf e s)) e)
        else (None, rtw_free_recvframe_queue (defrag_q (stainfo_buf (rtw_free_recvframe k e) s)) (rtw_free_recvframe k e)))"
    using assms(1) by (auto simp: recvframe_defrag_def q Let_def rbind_eq_Inr simp flip: d_def)
  then have r: "j = k" "ad' = rtw_free_recvframe_queue (defrag_q (stainfo_buf e s)) e" by (cases ok; simp)+
  have "defrag_q (stainfo_buf d s) = filter (\<lambda>j. j \<noteq> k) (k # rest)"
    by (simp add: d_def rtw_list_delete_def sta_unlink_def q)
  moreover have "stainfo_buf e = stainfo_buf d" using defrag_loop_frames [OF l] by auto
  ultimately have "i \<in> set (defrag_q (stainfo_buf e s))" using assms(2,3) q r(1) by simp
  then show ?thesis unfolding r(2) set_free_queue by simp
qed

lemma chk_defrag_frees:
  assumes "recvframe_chk_defrag i ad = Inr (Some j, ad')" and "i \<noteq> j"
  shows "i \<in> set (free_recv_queue ad')"
proof -
  obtain ad1 where q: "chk_defrag_queue i ad = Inr (Some j, ad1)"
    and m: "ad' = ad1 \<or> recvframe_chkmic j ad1 = Inr (True, ad')"
    using assms(1) by (auto simp: recvframe_chk_defrag_def rbind_eq_Inr split: if_splits option.splits)
  obtain s where "recvframe_defrag s (enqueue_defrag s i ad) = Inr (Some j, ad1)"
    using q assms(2) by (auto simp: chk_defrag_queue_def Let_def rbind_eq_Inr split: if_splits option.splits)
  then have "i \<in> set (free_recv_queue ad1)" by (rule recvframe_defrag_frees [OF _ _ assms(2)]) simp
  moreover have "free_recv_queue ad2 = free_recv_queue ad1" if "recvframe_chkmic j ad1 = Inr (True, ad2)" for ad2
    using that by (auto simp: recvframe_chkmic_def Let_def rbind_eq_Inr set_frame_def split: if_splits option.splits)
  ultimately show ?thesis using m by auto
qed

text \<open>The end of the path when the window refuses the reassembled frame \<open>i\<close> and the last fragment is free already.\<close>

lemma posthandle_tail_refused:
  assumes "indicate_reorder mem cannot_run i ad = Inr (RX_FAIL, ad1)" and "pool_ok {#i#} ad" and "ctrls_ok ad"
    and "orig \<in> set (free_recv_queue ad)"
  obtains ad' where "posthandle_tail mem cannot_run orig i ad = Inr (RX_FAIL, ad')" and "i \<notin># places ad'"
    and "free_recvframe_cnt ad' = of_nat (length (free_recv_queue ad') + 1)" and "same_ctrls ad ad'"
proof -
  have p: "pool_ok {#i#} ad1" and c: "same_ctrls ad ad1" using indicate_reorder_pool [OF assms(1-3)] by simp_all
  have o: "orig \<in> set (free_recv_queue ad1)" using assms(4) indicate_reorder_fail [OF assms(1)] by simp
  define ad' where "ad' = count_drop (rtw_free_recvframe orig ad1)"
  have "places ad' = places (rtw_free_recvframe orig ad1)" by (rule places_cong) (simp_all add: ad'_def count_drop_def)
  then have "i \<notin># places ad'"
    using rxpool.give_wrong [of i "{#}" ad1 orig] p o free_in_places [of ad1] by (auto simp: pool_ok_def)
  moreover have "free_recvframe_cnt ad' = of_nat (length (free_recv_queue ad') + 1)"
    using cnt_free_twice [OF p o] by (simp add: ad'_def count_drop_def)
  moreover have "same_ctrls ad ad'"
    unfolding ad'_def using same_ctrls_trans [OF c same_ctrls_trans [OF same_ctrls_steps(2) count_drop_pool(2)]] .
  ultimately show ?thesis
    by (intro that [of ad']) (simp_all add: posthandle_tail_def assms(1) ad'_def)
qed

section \<open>The frames through the whole path\<close>

lemma example_one_ctrls: "fr_ctrl f = None \<Longrightarrow> ctrls_ok (example_one f)"
proof -
  assume "fr_ctrl f = None"
  then have "ctrls_ok (example_adapter (\<lambda>i. f))" by (simp add: ctrls_ok_def example_adapter_def)
  then show "ctrls_ok (example_one f)"
    unfolding example_one_def by (rule same_ctrls_ok [OF same_ctrls_steps(2)])
qed

lemma example_plain_frame:
  assumes "12 \<le> length pl" and "length pl < 900"
  shows "plain_frame (example_plain 0 pl) (replicate 24 8) pl"
  using assms example_plain [OF assms, of 0] unfolding plain_frame_def
  by (simp add: example_plain_def example_fragment_def example_addr_def)

text \<open>
  C15: Where the receive frames are after the whole path. Whether the frame is dropped, kept as a fragment, kept
  in a reordering window, or delivered together with frames the window held, afterwards the pointers to
  reordering windows are valid, and either every receive frame is in exactly one list and the number of free
  frames is right, or the one exception has happened: the frame was the last of several fragments and the path
  failed for what they were reassembled to; then another receive frame than that of the last fragment is in
  no list, and the number of free frames is one too high.
\<close>
theorem posthandle_pool:
  assumes "pool_ok {#i#} ad" and "ctrls_ok ad" and "fr_mfrag (frames ad i) \<le> 1"
    and "recv_func_posthandle mem cannot_run i ad = Inr (ret, ad')"
  shows "ctrls_ok ad' \<and>
    (pool_ok {#} ad' \<or>
     ret = RX_FAIL \<and> fr_mfrag (frames ad i) = 0 \<and> fr_frag_num (frames ad i) \<noteq> 0 \<and>
     (\<exists>j. j \<noteq> i \<and> j \<notin># places ad' \<and> free_recvframe_cnt ad' = of_nat (length (free_recv_queue ad') + 1)))"
proof -
  obtain r1 ad1 where d: "decryptor i ad = Inr (r1, ad1)"
    using assms(4) by (auto simp: recv_func_posthandle_def rbind_eq_Inr)
  note dp = decryptor_pool [OF d assms(1)]
  note c1 = same_ctrls_ok [OF dp(2) assms(2)]
  show ?thesis
  proof (cases r1)
    case None
    then show ?thesis
      using assms(4) d dp(1) same_ctrls_ok [OF count_drop_pool(2) c1] by (auto simp: recv_func_posthandle_def)
  next
    case (Some i')
    then have i': "i' = i" "pool_ok {#i#} ad1" and k: "kept (frames ad i) (frames ad1 i)" using dp(1) by auto
    then have m: "fr_mfrag (frames ad1 i) \<le> 1" using assms(3) by (simp add: kept_def)
    obtain r2 ad2 where q: "recvframe_chk_defrag i ad1 = Inr (r2, ad2)"
      using assms(4) d Some i'(1) by (auto simp: recv_func_posthandle_def rbind_eq_Inr)
    note qp = recvframe_chk_defrag_pool [OF i'(2) m q]
    note c2 = same_ctrls_ok [OF recvframe_chk_defrag_ctrls [OF q] c1]
    show ?thesis
    proof (cases r2)
      case None
      then show ?thesis
        using assms(4) d Some i'(1) q qp same_ctrls_ok [OF count_drop_pool(2) c2] by (auto simp: recv_func_posthandle_def)
    next
      case r2: (Some j)
      obtain r3 ad3 where o: "portctrl j ad2 = Inr (r3, ad3)"
        using assms(4) d Some i'(1) q r2 by (auto simp: recv_func_posthandle_def rbind_eq_Inr)
      have pj: "pool_ok {#j#} ad2" using qp r2 by simp
      note op = portctrl_pool [OF o pj]
      note c3 = same_ctrls_ok [OF op(2) c2]
      show ?thesis
      proof (cases r3)
        case None
        then show ?thesis
          using assms(4) d Some i'(1) q r2 o op(1) same_ctrls_ok [OF count_drop_pool(2) c3] by (auto simp: recv_func_posthandle_def)
      next
        case r3: (Some j')
        then have j': "j' = j" "ad3 = ad2" using op(1) by auto
        then have t: "posthandle_tail mem cannot_run i j ad2 = Inr (ret, ad')"
          using assms(4) d Some i'(1) q r2 o r3 by (simp add: recv_func_posthandle_def)
        show ?thesis
        proof (cases "(\<exists>ad4. indicate_reorder mem cannot_run j ad2 = Inr (RX_FAIL, ad4)) \<and> i \<noteq> j")
          case False
          then show ?thesis
            using posthandle_tail_pool [OF t pj c2] same_ctrls_ok [OF _ c2] by auto
        next
          case True
          then obtain ad4 where x: "indicate_reorder mem cannot_run j ad2 = Inr (RX_FAIL, ad4)" "i \<noteq> j" by blast
          obtain ad5 where y: "posthandle_tail mem cannot_run i j ad2 = Inr (RX_FAIL, ad5)" "j \<notin># places ad5"
            "free_recvframe_cnt ad5 = of_nat (length (free_recv_queue ad5) + 1)" "same_ctrls ad2 ad5"
            using posthandle_tail_refused [OF x(1) pj c2 chk_defrag_frees [OF q [unfolded r2] x(2)]] .
          have "fr_mfrag (frames ad i) \<noteq> 1 \<and> fr_frag_num (frames ad i) \<noteq> 0"
            using chk_defrag_same [OF q [unfolded r2] _ m] k x(2) by (auto simp: kept_def)
          moreover from this have "fr_mfrag (frames ad i) = 0" using u8_le_1 [OF assms(3)] by blast
          ultimately show ?thesis
            using t y x(2) same_ctrls_ok [OF y(4) c2] by auto
        qed
      qed
    qed
  qed
qed

theorem posthandle_pool_witness:
  "\<exists>ad'. recv_func_posthandle (\<lambda>k. Msdu_copy) False 0 (example_one (example_plain 0 (replicate 12 7))) = Inr (RX_SUCCESS, ad') \<and>
     pool_ok {#} ad' \<and> ctrls_ok ad'"
proof -
  define f where "f = example_plain 0 (replicate 12 7)"
  have f: "plain_frame f (replicate 24 8) (replicate 12 7)" unfolding f_def by (rule example_plain_frame) simp_all
  then have at: "fr_ctrl f = None" "fr_mfrag f \<le> 1" "fr_frag_num f = 0" by (simp_all add: plain_frame_def)
  obtain ad' where r: "recv_func_posthandle (\<lambda>k. Msdu_copy) False 0 (example_one f) = Inr (RX_SUCCESS, ad')"
    using posthandle_plain [of 0 "example_one f"] f example_one by metis
  have "fr_mfrag (frames (example_one f) 0) \<le> 1" by (simp add: at example_one)
  from posthandle_pool [OF example_one(1) example_one_ctrls [OF at(1)] this r]
  have "pool_ok {#} ad' \<and> ctrls_ok ad'" by simp
  then show ?thesis using r unfolding f_def by blast
qed

text \<open>
  C16: A data frame that is neither encrypted nor fragmented nor an aggregate, and that no window holds back,
  is delivered: the packet has the destination and source of the frame; LLC encapsulations are removed,
  other payloads get their length in front.
\<close>
theorem posthandle_delivers:
  assumes "pool_ok {#i#} ad" and "plain_frame (frames ad i) hdr pl" and "\<not> auth_8021X ad"
  shows "\<exists>ad'. recv_func_posthandle mem False i ad = Inr (RX_SUCCESS, ad') \<and>
    delivered ad' = delivered ad @
      [fr_dst (frames ad i) @ fr_src (frames ad i) @
         (if snap_removed (take 6 pl) (take 2 (drop 6 pl)) then drop 6 pl else be16_bytes (length pl) @ pl)]"
proof -
  have "msdu_pkt (a @ b) pl = a @ b @ (if snap_removed (take 6 pl) (take 2 (drop 6 pl)) then drop 6 pl else be16_bytes (length pl) @ pl)" for a b
    using assms(2) by (simp add: msdu_pkt_def plain_frame_def)
  then show ?thesis using posthandle_plain [OF assms, of mem] by simp
qed

theorem posthandle_delivers_witness:
  "\<exists>ad'. recv_func_posthandle (\<lambda>k. Msdu_copy) False 0 (example_one (example_plain 0 (rtw_rfc1042_header @ [8, 0, 1, 2, 3, 4]))) = Inr (RX_SUCCESS, ad') \<and>
     delivered ad' = [replicate 6 4 @ replicate 6 2 @ [8, 0, 1, 2, 3, 4]]"
proof -
  define pl where "pl = rtw_rfc1042_header @ [8, 0, 1, 2, 3, 4]"
  have "length pl = 12" by (simp add: pl_def rtw_rfc1042_header_def)
  then have p: "plain_frame (frames (example_one (example_plain 0 pl)) 0) (replicate 24 8) pl"
    unfolding example_one by (intro example_plain_frame) simp_all
  have a: "fr_dst (example_plain 0 pl) = replicate 6 4" "fr_src (example_plain 0 pl) = replicate 6 2"
    by (simp_all add: example_plain_def example_fragment_def example_addr_def)
  have s: "snap_removed (take 6 pl) (take 2 [8, 0, 1, 2, 3, 4])" "drop 6 pl = [8, 0, 1, 2, 3, 4]"
    by (simp_all add: snap_removed_def rtw_rfc1042_header_def pl_def)
  obtain ad' where "recv_func_posthandle (\<lambda>k. Msdu_copy) False 0 (example_one (example_plain 0 pl)) = Inr (RX_SUCCESS, ad')"
    "delivered ad' = [replicate 6 4 @ replicate 6 2 @ [8, 0, 1, 2, 3, 4]]"
    using posthandle_delivers [OF example_one(1) p example_one(3), of "\<lambda>k. Msdu_copy"]
    using s(1) unfolding example_one a s(2) by auto
  then show ?thesis unfolding pl_def by (intro exI conjI)
qed

lemma reorder_refuses:
  assumes "fr_ctrl (frames ad i) = Some st" and "fr_qos (frames ad i) \<noteq> 0" and "ro_enable (get_ctrl st ad)"
    and "indicate_seq (get_ctrl st ad) \<noteq> 0xffff" and "SN_LESS (fr_seq_num (frames ad i)) (indicate_seq (get_ctrl st ad))"
  shows "\<exists>ad'. indicate_reorder mem cannot_run i ad = Inr (RX_FAIL, ad') \<and> free_recv_queue ad' = free_recv_queue ad"
proof -
  define p where "p = (recvpriv ad)\<lparr>ampdu_drop_count := ampdu_drop_count (recvpriv ad) + 1\<rparr>"
  have "recv_indicatepkt_reorder ok (Some (get_ctrl st ad)) (recvpriv ad) (mpdu_of i (frames ad i)) = (RX_FAIL, Some (get_ctrl st ad), p)" for ok
    using assms(2-5) by (simp add: recv_indicatepkt_reorder_def check_indicate_seq_def mpdu_of_def p_def)
  moreover have "indicated p = indicated (recvpriv ad)" by (simp add: p_def)
  ultimately show ?thesis
    using assms(1) by (simp add: indicate_reorder_def Let_def set_ctrl_def set_sta_def)
qed

text \<open>
  C37: A frame reassembled from fragments that comes too late for the reordering window is lost: the code gives
  back the fragment it was called with, which is free already, in place of the frame it holds. That frame is
  in no list from then on, and the counter of free frames is one too high.
\<close>
theorem posthandle_refused_leak:
  assumes "pool_ok {#orig#} ad" and "ctrls_ok ad" and "fr_mfrag (frames ad orig) = 0"
    and "decryptor orig ad = Inr (Some orig, ad1)" and "recvframe_chk_defrag orig ad1 = Inr (Some i, ad2)" and "i \<noteq> orig"
    and "\<not> auth_8021X ad2" and "fr_ctrl (frames ad2 i) = Some st" and "fr_qos (frames ad2 i) \<noteq> 0" and "ro_enable (get_ctrl st ad2)"
    and "indicate_seq (get_ctrl st ad2) \<noteq> 0xffff" and "SN_LESS (fr_seq_num (frames ad2 i)) (indicate_seq (get_ctrl st ad2))"
  shows "\<exists>ad'. recv_func_posthandle mem cannot_run orig ad = Inr (RX_FAIL, ad') \<and> i \<notin># places ad' \<and>
    free_recvframe_cnt ad' = of_nat (length (free_recv_queue ad') + 1)"
proof -
  have d: "pool_ok {#orig#} ad1" "fr_mfrag (frames ad1 orig) \<le> 1" "ctrls_ok ad1"
    using decryptor_pool [OF assms(4,1)] assms(3) same_ctrls_ok [OF _ assms(2)] by (auto simp: kept_def)
  have q: "pool_ok {#i#} ad2" "ctrls_ok ad2" "orig \<in> set (free_recv_queue ad2)"
    using recvframe_chk_defrag_pool [OF d(1,2) assms(5)] same_ctrls_ok [OF recvframe_chk_defrag_ctrls [OF assms(5)] d(3)]
      chk_defrag_frees [OF assms(5)] assms(6) by auto
  obtain ad3 where r: "indicate_reorder mem cannot_run i ad2 = Inr (RX_FAIL, ad3)"
    using reorder_refuses [OF assms(8-12)] by blast
  obtain ad4 where t: "posthandle_tail mem cannot_run orig i ad2 = Inr (RX_FAIL, ad4)" "i \<notin># places ad4"
    "free_recvframe_cnt ad4 = of_nat (length (free_recv_queue ad4) + 1)"
    using posthandle_tail_refused [OF r q] .
  have "portctrl i ad2 = Inr (Some i, ad2)" using assms(7) by (simp add: portctrl_def Let_def)
  then have "recv_func_posthandle mem cannot_run orig ad = Inr (RX_FAIL, ad4)"
    by (simp add: recv_func_posthandle_def assms(4,5) t(1))
  then show ?thesis using t(2,3) by blast
qed

text \<open>An example: the first fragment of frame 1 waits at station 0, whose window for class 0 expects number 5.\<close>

definition late_fragment :: "u8 \<Rightarrow> u8 \<Rightarrow> rframe" where
  "late_fragment k mf = (example_fragment 0 100 k mf (replicate 40 8))\<lparr>fr_encrypt := 0, fr_qos := 1, fr_ctrl := Some (0, 0)\<rparr>"

definition late_ctrl :: reorder_ctrl where
  "late_ctrl = init_reorder_ctrl\<lparr>ro_enable := True, indicate_seq := 5\<rparr>"

definition late_adapter :: rx_adapter where
  "late_adapter = enqueue_defrag 0 0 (set_ctrl (0, 0) late_ctrl
     (example_adapter (\<lambda>i. if i = 0 then late_fragment 0 1 else late_fragment 1 0)))"

lemma late_fragment:
  "fragment (unat k) (late_fragment k mf)" "contents (late_fragment k mf) = replicate 40 8" "body (late_fragment k mf) = replicate 8 8"
proof -
  note e = example_fragment_ok [where data = "replicate 40 8" and k = k and pv = 0 and room = 100 and mf = mf]
  show c: "contents (late_fragment k mf) = replicate 40 8" using e(2) by (simp add: late_fragment_def contents_def)
  then show b: "body (late_fragment k mf) = replicate 8 8" by (simp add: body_def late_fragment_def)
  show "fragment (unat k) (late_fragment k mf)"
    using e(1) unfolding fragment_def c b by (simp add: late_fragment_def rframe_ok_def example_fragment_def)
qed

lemma late_adapter:
  "pool_ok {#1#} late_adapter" "ctrls_ok late_adapter" "frames late_adapter 0 = late_fragment 0 1" "frames late_adapter (Suc 0) = late_fragment 1 0"
  "rtw_get_stainfo late_adapter example_addr = Some 0" "defrag_q (stainfo_buf late_adapter 0) = [0]" "get_ctrl (0, 0) late_adapter = late_ctrl"
  "\<not> auth_8021X late_adapter" "0 < length (recvreorder_ctrl (stainfo_buf late_adapter 0))"
proof -
  define ad where "ad = example_adapter (\<lambda>i. if i = 0 then late_fragment 0 1 else late_fragment 1 0)"
  have z: "(0 :: nat) < NUM_STA" by (simp add: NUM_STA_def)
  have w: "length (recvreorder_ctrl (stainfo_buf ad s)) = 16" "get_ctrl (0, 0) ad = init_reorder_ctrl" for s
    by (simp_all add: ad_def example_adapter_def init_stainfo_def get_ctrl_def)
  have "pool_ok {#0, 1#} (set_ctrl (0, 0) late_ctrl ad)"
    using set_ctrl_same_pending [OF z, of 0 ad late_ctrl] w example_pool by (simp add: late_ctrl_def flip: length_greater_0_conv) (simp add: ad_def)
  then show "pool_ok {#1#} late_adapter"
    unfolding late_adapter_def ad_def [symmetric] using pool_ok_enqueue [OF _ z] by simp
  have "ctrls_ok ad" using w z by (auto simp: ctrls_ok_def) (auto simp: ad_def example_adapter_def late_fragment_def split: if_splits)
  then show "ctrls_ok late_adapter"
    unfolding late_adapter_def ad_def [symmetric] by (rule same_ctrls_ok [OF same_ctrls_trans [OF same_ctrls_steps(10,3)]])
  show "frames late_adapter 0 = late_fragment 0 1" "frames late_adapter (Suc 0) = late_fragment 1 0"
    by (simp_all add: late_adapter_def set_ctrl_def set_sta_def example_adapter_def)
  show "defrag_q (stainfo_buf late_adapter 0) = [0]" "\<not> auth_8021X late_adapter" "get_ctrl (0, 0) late_adapter = late_ctrl"
    "0 < length (recvreorder_ctrl (stainfo_buf late_adapter 0))"
    using w by (simp_all add: late_adapter_def get_ctrl_def set_ctrl_def enqueue_defrag_def set_sta_def flip: ad_def)
      (simp_all add: ad_def example_adapter_def init_stainfo_def)
  have "rtw_get_stainfo (set_ctrl (0, 0) late_ctrl ad) example_addr = rtw_get_stainfo ad example_addr"
    by (rule config_get_stainfo) (simp add: config_def set_ctrl_def set_sta_def)
  then show "rtw_get_stainfo late_adapter example_addr = Some 0"
    unfolding late_adapter_def ad_def [symmetric] using config_get_stainfo [OF config_steps(3)] by (simp add: ad_def)
qed

theorem posthandle_refused_leak_witness:
  "\<exists>ad'. recv_func_posthandle (\<lambda>k. Msdu_copy) False 1 late_adapter = Inr (RX_FAIL, ad') \<and> 0 \<notin># places ad' \<and>
     free_recvframe_cnt ad' = of_nat (length (free_recv_queue ad') + 1)"
proof -
  define ad1 where "ad1 = set_frame 1 (late_fragment 1 0) late_adapter"
  have at: "fr_ta (late_fragment k mf) = example_addr" "fr_mfrag (late_fragment k mf) = mf" "fr_frag_num (late_fragment k mf) = k"
    "fr_encrypt (late_fragment k mf) = 0" "fr_privacy (late_fragment k mf) = 0" "fr_seq_num (late_fragment k mf) = 1"
    "fr_qos (late_fragment k mf) = 1" "fr_ctrl (late_fragment k mf) = Some (0, 0)" for k mf
    by (simp_all add: late_fragment_def) (simp add: example_fragment_def)+
  have d: "decryptor 1 late_adapter = Inr (Some 1, ad1)"
    by (simp add: decryptor_def rx_key_index_def late_adapter at Let_def ad1_def) (simp add: late_fragment_def example_fragment_def)
  have a1: "frames ad1 = frames late_adapter" "stainfo_buf ad1 = stainfo_buf late_adapter" "rtw_get_stainfo ad1 example_addr = Some 0"
    "auth_8021X ad1 = auth_8021X late_adapter"
    using late_adapter by (auto simp: ad1_def set_frame_def rtw_get_stainfo_def)
  define e where "e = rtw_list_delete 0 (enqueue_defrag 0 (Suc 0) ad1)"
  have e: "frames e = frames late_adapter" "defrag_q (stainfo_buf e 0) = [Suc 0]"
    by (simp_all add: e_def rtw_list_delete_def a1 sta_unlink_def late_adapter)
  obtain fs where l: "defrag_loop 0 1 [Suc 0] e = Inr (True, e\<lparr>frames := fs\<rparr>)" "same_attrib (late_fragment 0 1) (fs 0)"
  proof -
    have f: "fragment (1 + k) (frames e ([Suc 0] ! k))" if "k < 1" for k :: nat
      using late_fragment(1) [of 1 0] that by (simp add: e late_adapter)
    have m: "rframe_ok (late_fragment 0 1)" using late_fragment(1) [of 0 1] by (simp add: fragment_def)
    have n: "rx_tail (late_fragment 0 1) = 40" "length (fr_buf (late_fragment 0 1)) = 140" "fr_icv_len (late_fragment 0 1) = 4"
      by (simp_all add: late_fragment_def)
    have "\<exists>fs. defrag_loop 0 (of_nat 1) [Suc 0] e = Inr (True, e\<lparr>frames := fs\<rparr>) \<and> rframe_ok (fs 0) \<and>
      contents (fs 0) = glue (contents (frames e 0)) (unat (fr_icv_len (frames e 0))) (map (frames e) [Suc 0]) \<and>
      fr_icv_len (fs 0) = fr_icv_len (last (map (frames e) [0, Suc 0])) \<and> same_attrib (frames e 0) (fs 0)"
      by (rule defrag_loop_glue) (use f in \<open>simp_all add: e late_adapter m n late_fragment\<close>)
    then show ?thesis using that by (auto simp: e late_adapter simp del: defrag_loop.simps)
  qed
  define ad2 where "ad2 = rtw_free_recvframe 1 (e\<lparr>frames := fs\<rparr>)"
  have f2: "frames ad2 0 = fs 0" "auth_8021X ad2 = auth_8021X late_adapter" "get_ctrl (0, 0) ad2 = late_ctrl"
  proof -
    show "frames ad2 0 = fs 0" "auth_8021X ad2 = auth_8021X late_adapter"
      by (simp_all add: ad2_def e_def rtw_free_recvframe_def rtw_list_delete_def set_frame_def enqueue_defrag_def set_sta_def a1 Let_def)
    have "recvreorder_ctrl (stainfo_buf ad2 0) ! 0 = (recvreorder_ctrl (stainfo_buf late_adapter 0) ! 0)
        \<lparr>pending_queue := filter (\<lambda>f. mp_id f \<noteq> 1) (filter (\<lambda>f. mp_id f \<noteq> 0) (pending_queue (recvreorder_ctrl (stainfo_buf late_adapter 0) ! 0)))\<rparr>"
      using late_adapter(9)
      by (simp add: ad2_def e_def rtw_free_recvframe_def rtw_list_delete_def set_frame_def enqueue_defrag_def set_sta_def sta_unlink_def a1 Let_def)
    then show "get_ctrl (0, 0) ad2 = late_ctrl"
      using late_adapter(7) by (simp add: get_ctrl_def late_ctrl_def init_reorder_ctrl_def)
  qed
  have fa: "fr_privacy (fs 0) = 0" "fr_ctrl (fs 0) = Some (0, 0)" "fr_qos (fs 0) = 1" "fr_seq_num (fs 0) = 1"
    using l(2) at by (auto simp: same_attrib_def)
  have "chk_defrag_queue 1 ad1 = recvframe_defrag 0 (enqueue_defrag 0 1 ad1)"
    by (simp add: chk_defrag_queue_def defrag_sta_def a1 late_adapter at)
  moreover have "recvframe_defrag 0 (enqueue_defrag 0 1 ad1) = Inr (Some 0, ad2)"
    using l(1) e by (simp add: recvframe_defrag_def a1 late_adapter at Let_def ad2_def rtw_free_recvframe_queue_def flip: e_def del: defrag_loop.simps)
  ultimately have "recvframe_chk_defrag 1 ad1 = Inr (Some 0, ad2)"
    by (simp add: recvframe_chk_defrag_def f2 fa)
  then show ?thesis
    using posthandle_refused_leak [OF late_adapter(1,2) _ d, of 0 ad2 "(0, 0)" "\<lambda>k. Msdu_copy" False] late_adapter at f2 fa
    by (simp add: late_ctrl_def SN_LESS_def)
qed

end
