(* ===== verification/Spec2Isabelle.thy ===== *)
theory Spec2Isabelle
  imports Vmac_System Vmac_Queue Radiotap Rx_Post
begin

text \<open>
  V-MAC 802.11ac: a data-centric wireless multicast system on a Realtek rtl8812au adapter in monitor mode.
  A process names data by an interest; the 64-bit hash of the name (the \<^emph>\<open>encoding\<close>) is the address of the
  frames. The development covers the code that V-MAC adds to the driver, the library processes link, and
  of the driver the parts a frame goes through and whose promises the sources themselves fix.

  \<^bold>\<open>The program.\<close> A process calls \<open>send_vmac\<close> (\<^verbatim>\<open>userspace/vmac-usrsp.c\<close>), which hashes the name
  (\<^verbatim>\<open>csiphash.c\<close>) and sends a netlink message. In the kernel \<open>nl_recv\<close> (\<^verbatim>\<open>core/rtw_xmit.c\<close>) hands its
  payload to \<open>vmac_tx\<close> (\<^verbatim>\<open>core/tx.c\<close>), which finds the encoding's sending entry, numbers and keeps the frame,
  and passes it by \<open>vmac_low_tx\<close> and \<open>xmit_mo\<close> to the driver. A received frame comes through
  \<open>recv_frame_monitor\<close>, \<open>fill_radiotap_hdr\<close> and \<open>vmac_override\<close> (\<^verbatim>\<open>core/rtw_recv.c\<close>) to \<open>vmac_rx\<close>
  (\<^verbatim>\<open>core/rx.c\<close>), which keeps the window of the encoding's receiving entry and passes the frame by \<open>nl_send\<close>
  to the registered process. Every fifth number \<open>prepDACK\<close> (\<^verbatim>\<open>core/dack.c\<close>) collects the lost frames
  into a negative acknowledgement that a timer sends after a random delay (\<open>__sendDACK\<close>); the sender's
  \<open>vmac_rx\<close> answers with copies from its retransmission buffer. Entries not used for thirty seconds are
  removed by \<open>process\<close> (\<^verbatim>\<open>core/clean.c\<close>).

  \<^bold>\<open>The theories.\<close>
  \<^item> \<open>Vmac_Prelude\<close>: the C integers as words, faults and results, byte strings, word facts.
  \<^item> \<open>Vmac_Wire\<close>, \<open>Vmac_State\<close>: the structures of \<^verbatim>\<open>core/vmac.h\<close> as records, their packed images, socket
    buffers, the state \<open>vmac\<close> of the module (both hash tables, the process, the effects in order).
  \<^item> \<open>Enc_Table\<close>: \<open>find_tx\<close>, \<open>find_rx\<close>, \<open>add_tx\<close>, \<open>add_rx\<close> and the locale \<open>encoding_table\<close>, interpreted
    for both tables.
  \<^item> \<open>Vmac_Tx\<close>, \<open>Dack\<close>, \<open>Vmac_Rx\<close>, \<open>Radiotap\<close>, \<open>Clean\<close>: one group of definitions per source file named
    above, every handler whole, its guards in the code's order.
  \<^item> \<open>Rx_Window\<close>: the receive window as a sliding set, exactly-once delivery. \<open>Dack_Answer\<close>: the answer to a
    DACK against an abstract answer. \<open>Rx_Deliver\<close>: a frame through the air. \<open>Process\<close>: from process to
    process. \<open>Vmac_System\<close>: the step relation \<open>vmac_step\<close>, reachability, the invariant, the steps that cannot fault
    in any reachable state, and the way of a waiting DACK.
  \<^item> \<open>Vmac_Queue\<close>: the queues of \<^verbatim>\<open>core/queue.c\<close> (a file the module no longer builds) with the locale
    \<open>frame_queue\<close>.
  \<^item> \<open>Userspace\<close>, \<open>Siphash\<close>: the library.
  \<^item> \<open>Arc4_Wep\<close>, \<open>Tkip\<close>, \<open>Aes_Ccmp\<close>: the ciphers of \<^verbatim>\<open>core/rtw_security.c\<close> with the frame functions that
    use them.
  \<^item> \<open>Rx_Reorder\<close>: the reordering window for aggregated frames of \<^verbatim>\<open>core/rtw_recv.c\<close>, as a refinement of a
    window over unbounded numbers.
  \<^item> \<open>Rx_Frame\<close>: the 256 receive frames with their buffers, the lists they move between, the table of stations
    (\<^verbatim>\<open>core/rtw_sta_mgt.c\<close>). The locale \<open>pool\<close> states that every frame is in one list or held, and is
    interpreted for both queues of the driver.
  \<^item> \<open>Rx_Defrag\<close>: \<open>recv_decache\<close>, the packet numbers, \<open>decryptor\<close>, \<open>recvframe_defrag\<close>, \<open>recvframe_chkmic\<close>; fragments
    become the frame they are parts of, and the ways frames get lost.
  \<^item> \<open>Rx_Amsdu\<close>: \<open>amsdu_to_msdu\<close>, frames that carry several packets, in copies or clones: the buffer of the frame is never
    left, which reads go behind a packet, and that a frame is taken apart into what it was made of.
  \<^item> \<open>Rx_Post\<close>: \<open>recv_func_posthandle\<close> from the decryption of a frame to its delivery, with \<open>portctrl\<close>,
    \<open>wlanhdr_to_ethhdr\<close> and the reordering window in place; the invariant of the lists along the whole path.

  \<^bold>\<open>How the state corresponds.\<close> A structure is a record with the code's field names (prefixed where they
  clash), an integer a word of its width, an array a list of its length, a hash table a function from
  buckets to lists in the order of \<open>hashtable.h\<close>. A buffer is its bytes with head and tail room and an
  identity; memory given back, frames handed to the driver and messages handed to a process are the list
  \<open>effects\<close>, so a leak or a second free is visible. A timer is the time it is set to. An operation that
  panics, leaves an array, uses an unset pointer or runs on an entry that was given to \<open>vfree\<close> returns \<open>Inl\<close>
  of a fault. Two kinds of misbehaviour do not end an operation, because the kernel does not stop there, and
  are recorded instead: memory given back twice is twice in \<open>effects\<close> (\<open>nl_send\<close> does so with every message it
  sends), and a look behind the last byte of a packet sets \<open>over_read\<close>. Statements that an operation has no
  fault do not speak about them.

  \<^bold>\<open>Parameters.\<close> What is not under \<^verbatim>\<open>src\<close> is an argument: the record \<open>kenv\<close> has the outcomes of the
  allocations and of \<open>spin_trylock\<close>, \<open>jiffies\<close>, the random bytes, the bucket of an encoding, the head room
  of a fresh buffer and what stale memory holds; the driver's transmission below \<open>dump_mgntframe\<close> is an
  effect. Locks are not modelled: an operation runs to its end before the next one starts.

  \<^bold>\<open>Bounds and fuel.\<close> No definition uses fuel. The loops over windows and holes are functions with a
  measure (the distance to the newest number), the others recurse on lists or counters. The sequence
  numbers of an encoding are 16-bit words and the code does not handle their wrap: the theorems about the
  window speak of numbers in one run of the counter. The reordering window handles the wrap of its
  12-bit numbers, and its refinement is over unbounded numbers.

  \<^bold>\<open>Not modelled.\<close> The drivers below and beside the frames: chip initialisation, register access and tables
  (\<^verbatim>\<open>hal\<close>), firmware images, power management, Bluetooth coexistence, the interfaces to cfg80211 and wireless
  extensions (\<^verbatim>\<open>os_dep\<close>): their effect is the hardware or the kernel, and the sources fix no meaning for it.
  The management of networks (scanning, association, access point mode in \<^verbatim>\<open>core/rtw_mlme*.c\<close> and
  \<^verbatim>\<open>core/rtw_ap.c\<close>) is not reached in monitor mode. Of the receive path the classification before
  \<open>recv_func_posthandle\<close> (\<open>validate_recv_frame\<close>) is left out, as are TDLS, WAPI, concurrent mode, the test mode
  and the statistics; of a station its lists of frames to send, what becomes of the commands to its session tracker, and its bits
  in the maps of the access point. The threads of user space and its stress test are the messages they exchange.
\<close>

end
